(* ===== verification/Prelude.thy ===== *)
theory Prelude
  imports Main "HOL-Library.AList" "HOL-Library.List_Lexorder" "HOL-Library.Multiset" "HOL-Library.Word"
begin

text \<open>
  Shared vocabulary of the development: the theorem collections the component theories
  fill, lemmas about association lists and searches, the result type of fallible code,
  and the two interface locales that several components provide: a state machine with an
  invariant (\<open>safe_machine\<close>) and a value codec (\<open>codec\<close>, \<open>stream_codec\<close>).
\<close>

section \<open>Results and collections\<close>

type_synonym ('e, 'a) result = "'e + 'a"

named_theorems inv_intros \<open>preservation lemmas of component invariants\<close>
named_theorems frame_simps \<open>fields an operation leaves unchanged\<close>

named_theorems evals \<open>definitions the simplifier unfolds to evaluate a closed term\<close>

type_synonym u8 = "8 word"
type_synonym u16 = "16 word"
type_synonym u32 = "32 word"
type_synonym u64 = "64 word"

text \<open>Rust's \<open>is_ok\<close>, for results modelled as sums with the error on the left.\<close>

definition is_ok :: "('e, 'a) result \<Rightarrow> bool" where
  "is_ok r = (case r of Inl _ \<Rightarrow> False | Inr _ \<Rightarrow> True)"

lemma is_ok_simps [simp]: "is_ok (Inr a)" "\<not> is_ok (Inl e)"
  by (simp_all add: is_ok_def)

lemma is_ok_iff: "is_ok r \<longleftrightarrow> (\<exists>a. r = Inr a)"
  by (cases r) auto

section \<open>Searches in lists\<close>

lemma find_Some_mem: "List.find P xs = Some x \<Longrightarrow> x \<in> set xs \<and> P x"
  by (induction xs) (auto split: if_splits)

lemma find_None_iff': "List.find P xs = None \<longleftrightarrow> (\<forall>x \<in> set xs. \<not> P x)"
  by (induction xs) auto

lemma find_unique:
  assumes "x \<in> set xs" and "P x" and "\<And>y. y \<in> set xs \<Longrightarrow> P y \<Longrightarrow> y = x"
  shows "List.find P xs = Some x"
proof (cases "List.find P xs")
  case None
  with assms(1,2) show ?thesis by (auto simp: find_None_iff')
next
  case (Some y)
  then have "y \<in> set xs \<and> P y" by (rule find_Some_mem)
  then have "y = x" using assms(3) by blast
  with Some show ?thesis by simp
qed

text \<open>\<open>iter_mut().find(p)\<close> followed by an assignment: the first match is updated.\<close>

fun update_first :: "('a \<Rightarrow> bool) \<Rightarrow> ('a \<Rightarrow> 'a) \<Rightarrow> 'a list \<Rightarrow> 'a list" where
  "update_first p f [] = []"
| "update_first p f (x # xs) = (if p x then f x # xs else x # update_first p f xs)"

lemma length_update_first [simp]: "length (update_first p f xs) = length xs"
  by (induction xs) auto

lemma map_update_first [simp]:
  "(\<And>x. g (f x) = g x) \<Longrightarrow> map g (update_first p f xs) = map g xs"
  by (induction xs) auto

lemma set_update_firstD:
  "y \<in> set (update_first p f xs) \<Longrightarrow> y \<in> set xs \<or> (\<exists>x \<in> set xs. p x \<and> y = f x)"
  by (induction xs) (auto split: if_splits)

lemma update_first_none: "(\<And>x. x \<in> set xs \<Longrightarrow> \<not> p x) \<Longrightarrow> update_first p f xs = xs"
  by (induction xs) auto

lemma set_map_filter: "set (List.map_filter f xs) = {y. \<exists>x \<in> set xs. f x = Some y}"
  by (induction xs) (auto simp: List.map_filter_simps split: option.split)

text \<open>Where at most one element can match, updating the first match updates every match.\<close>

lemma update_first_distinct:
  assumes "distinct (map g xs)" and "\<And>x. p x \<longleftrightarrow> g x = k"
  shows "update_first p f xs = map (\<lambda>x. if p x then f x else x) xs"
  using assms(1)
proof (induction xs)
  case (Cons x xs)
  show ?case
  proof (cases "p x")
    case True
    have "\<not> p y" if "y \<in> set xs" for y
    proof
      assume "p y"
      then have "g y = g x" using True assms(2) by simp
      with that Cons.prems show False by (metis distinct.simps(2) image_eqI list.map(2) list.set_map)
    qed
    then have "map (\<lambda>y. if p y then f y else y) xs = xs" by (simp add: map_idI)
    with True show ?thesis by simp
  qed (use Cons in auto)
qed simp

section \<open>Association lists as hash maps\<close>

text \<open>
  A \<open>HashMap\<close> the code iterates over is an association list with distinct keys:
  \<open>insert\<close> is \<open>AList.update\<close>, \<open>remove\<close> is \<open>AList.delete\<close>, \<open>get\<close> is \<open>map_of\<close> and
  \<open>retain\<close> is \<open>filter\<close>. The list order stands for the unspecified iteration order.
\<close>

abbreviation keys_distinct :: "('k \<times> 'v) list \<Rightarrow> bool" where
  "keys_distinct al \<equiv> distinct (map fst al)"

abbreviation akeys :: "('k \<times> 'v) list \<Rightarrow> 'k set" where
  "akeys al \<equiv> fst ` set al"

abbreviation avalues :: "('k \<times> 'v) list \<Rightarrow> 'v set" where
  "avalues al \<equiv> snd ` set al"

definition retain :: "('k \<Rightarrow> 'v \<Rightarrow> bool) \<Rightarrow> ('k \<times> 'v) list \<Rightarrow> ('k \<times> 'v) list" where
  "retain p al = filter (\<lambda>(k, v). p k v) al"

lemma retain_simps [simp]:
  "retain p [] = []"
  "retain p ((k, v) # al) = (if p k v then (k, v) # retain p al else retain p al)"
  by (simp_all add: retain_def)

lemma set_retain: "set (retain p al) = {(k, v) \<in> set al. p k v}"
  by (auto simp: retain_def)

lemma keys_distinct_retain: "keys_distinct al \<Longrightarrow> keys_distinct (retain p al)"
  by (simp add: retain_def distinct_map_filter)

lemma map_of_retain:
  "keys_distinct al \<Longrightarrow>
   map_of (retain p al) k = (case map_of al k of None \<Rightarrow> None | Some v \<Rightarrow> if p k v then Some v else None)"
proof (induction al)
  case (Cons kv al)
  obtain k' v' where kv: "kv = (k', v')" by force
  show ?case
  proof (cases "k = k'")
    case True
    with Cons.prems kv have "map_of al k = None" by (simp add: map_of_eq_None_iff)
    with True Cons kv show ?thesis by simp
  qed (use Cons kv in simp)
qed simp

lemma keys_distinct_update: "keys_distinct al \<Longrightarrow> keys_distinct (AList.update k v al)"
  by (rule distinct_update)

lemma keys_distinct_delete: "keys_distinct al \<Longrightarrow> keys_distinct (AList.delete k al)"
  by (rule distinct_delete)

lemma map_of_aupdate: "map_of (AList.update k v al) = (map_of al)(k \<mapsto> v)"
  by (rule update_conv')

lemma map_of_adelete: "map_of (AList.delete k al) = (map_of al)(k := None)"
  by (rule delete_conv')

lemma set_delete: "set (AList.delete k al) = {x \<in> set al. fst x \<noteq> k}"
  by (induction al) auto

lemma akeys_delete: "akeys (AList.delete k al) = akeys al - {k}"
  by (force simp: set_delete)

lemma set_update_sub: "set (AList.update k v al) \<subseteq> insert (k, v) (set al)"
  by (induction al) auto

lemma map_of_mem_iff: "keys_distinct al \<Longrightarrow> map_of al k = Some v \<longleftrightarrow> (k, v) \<in> set al"
  by (simp add: map_of_eq_Some_iff)

lemma map_of_absent: "k \<notin> akeys al \<Longrightarrow> map_of al k = None"
  by (simp add: map_of_eq_None_iff)

lemma update_fresh: "k \<notin> akeys al \<Longrightarrow> AList.update k v al = al @ [(k, v)]"
  by (induction al) auto

lemma akeys_update: "akeys (AList.update k v al) = insert k (akeys al)"
  by (simp add: dom_update)

lemma akeys_retain: "akeys (retain p al) \<subseteq> akeys al"
  by (auto simp: set_retain)

lemma avalues_update: "avalues (AList.update k v al) \<subseteq> insert v (avalues al)"
  using set_update_sub [of k v al] by auto

lemma filter_update_same:
  "map_of al k = Some v \<Longrightarrow> P (k, v') = P (k, v) \<Longrightarrow>
   length (filter P (AList.update k v' al)) = length (filter P al)"
  by (induction al) auto

lemma filter_retain_le: "length (filter P (retain p al)) \<le> length (filter P al)"
  by (induction al) auto

lemma filter_delete_le: "length (filter P (AList.delete k al)) \<le> length (filter P al)"
  by (induction al) auto

lemma disjoint_mono: "A \<inter> B = {} \<Longrightarrow> A' \<subseteq> A \<Longrightarrow> B' \<subseteq> B \<Longrightarrow> A' \<inter> B' = {}"
  by blast

lemma disjoint_insert: "A \<inter> B = {} \<Longrightarrow> x \<notin> A \<Longrightarrow> A \<inter> insert x B = {}"
  by blast

lemma disjoint_moved: "A \<inter> B = {} \<Longrightarrow> (A - {x}) \<inter> insert x B = {}"
  by blast

lemma retain_owners: "f ` avalues (retain (\<lambda>_ v. f v \<in> S) al) = f ` avalues al \<inter> S"
  by (force simp: set_retain)

lemma retain_fst: "retain (\<lambda>_ (p, c). p \<in> S) al = retain (\<lambda>_ v. fst v \<in> S) al"
  by (simp add: retain_def case_prod_beta')

lemma map_of_akeys: "map_of al k = Some v \<Longrightarrow> k \<in> akeys al"
  by (force dest: map_of_SomeD)

lemma map_of_avalues: "map_of al k = Some v \<Longrightarrow> v \<in> avalues al"
  by (force dest: map_of_SomeD)

section \<open>Interfaces\<close>

subsection \<open>A state machine with an invariant\<close>

text \<open>
  The contract every stateful component meets: \<open>step\<close> runs one of its operations, \<open>inv\<close>
  holds at the start and every operation the environment may choose keeps it. \<open>ok\<close> says
  which operations those are (a guard the code's callers establish).
\<close>

locale safe_machine =
  fixes step :: "'s \<Rightarrow> 'e \<Rightarrow> 's"
    and ok :: "'s \<Rightarrow> 'e \<Rightarrow> bool"
    and inv :: "'s \<Rightarrow> bool"
  assumes step_inv: "inv s \<Longrightarrow> ok s e \<Longrightarrow> inv (step s e)"
begin

fun run_ok :: "'s \<Rightarrow> 'e list \<Rightarrow> bool" where
  "run_ok s [] = True"
| "run_ok s (e # es) = (ok s e \<and> run_ok (step s e) es)"

lemma run_inv: "inv s \<Longrightarrow> run_ok s es \<Longrightarrow> inv (foldl step s es)"
  by (induction es arbitrary: s) (auto intro: step_inv)

lemma run_ok_total: "(\<And>s e. ok s e) \<Longrightarrow> run_ok s es"
  by (induction es arbitrary: s) auto

lemma run_inv_total: "(\<And>s e. ok s e) \<Longrightarrow> inv s \<Longrightarrow> inv (foldl step s es)"
  by (simp add: run_inv run_ok_total)

end

subsection \<open>State bounded by the roster\<close>

text \<open>
  The contract of the tables that may only hold entries of members (links, offers,
  transfers): adopting a roster evicts exactly the owners that are not in it.
\<close>

locale roster_bound =
  fixes set_members :: "'m list \<Rightarrow> 's \<Rightarrow> 's" and key :: "'m \<Rightarrow> 'k" and owners :: "'s \<Rightarrow> 'k set"
    and good :: "'s \<Rightarrow> bool"
  assumes owners_set_members: "good s \<Longrightarrow> owners (set_members ms s) = owners s \<inter> key ` set ms"
    and good_set_members: "good s \<Longrightarrow> good (set_members ms s)"
begin

lemma bounded: "good s \<Longrightarrow> owners (set_members ms s) \<subseteq> key ` set ms"
  by (simp add: owners_set_members)

lemma evicted: "good s \<Longrightarrow> k \<notin> key ` set ms \<Longrightarrow> k \<notin> owners (set_members ms s)"
  by (simp add: owners_set_members)

lemma kept: "good s \<Longrightarrow> k \<in> key ` set ms \<Longrightarrow> k \<in> owners (set_members ms s) \<longleftrightarrow> k \<in> owners s"
  by (simp add: owners_set_members)

lemma rosters:
  "good s \<Longrightarrow> owners (foldl (\<lambda>s ms. set_members ms s) s mss) = owners s \<inter> (\<Inter>ms \<in> set mss. key ` set ms)"
  by (induction mss arbitrary: s) (auto simp: owners_set_members good_set_members)

end

subsection \<open>Codecs\<close>

text \<open>An encoder whose output its decoder takes back.\<close>

locale codec =
  fixes enc :: "'a \<Rightarrow> 'w" and dec :: "'w \<Rightarrow> 'a option" and valid :: "'a \<Rightarrow> bool"
  assumes dec_enc: "valid a \<Longrightarrow> dec (enc a) = Some a"
begin

lemma enc_inj: "valid a \<Longrightarrow> valid b \<Longrightarrow> enc a = enc b \<Longrightarrow> a = b"
  by (metis dec_enc option.inject)

end

text \<open>
  A codec over a byte stream: the decoder takes one value off the front and leaves the
  rest. Values written one after another, without separators, are read back in order.
\<close>

locale stream_codec =
  fixes put :: "'a \<Rightarrow> 'b list" and get :: "'b list \<Rightarrow> ('a \<times> 'b list) option"
    and valid :: "'a \<Rightarrow> bool"
  assumes get_put: "valid a \<Longrightarrow> get (put a @ rest) = Some (a, rest)"
begin

fun get_n :: "nat \<Rightarrow> 'b list \<Rightarrow> ('a list \<times> 'b list) option" where
  "get_n 0 bs = Some ([], bs)"
| "get_n (Suc n) bs =
     (case get bs of None \<Rightarrow> None
      | Some (a, rest) \<Rightarrow> map_option (\<lambda>(as, r). (a # as, r)) (get_n n rest))"

lemma get_n_put: "list_all valid as \<Longrightarrow> get_n (length as) (concat (map put as) @ rest) = Some (as, rest)"
  by (induction as) (auto simp: get_put)

lemma prefix_free:
  assumes "valid a" and "valid b" and "put a @ r = put b @ s"
  shows "a = b \<and> r = s"
  by (metis assms get_put option.inject prod.inject)

end

sublocale stream_codec \<subseteq> whole: codec put "\<lambda>bs. map_option fst (get bs)" valid
proof
  fix a assume "valid a"
  then show "map_option fst (get (put a)) = Some a"
    using get_put [of a "[]"] by simp
qed

end
