(* ===== verification/Rust_Str.thy ===== *)
theory Rust_Str
  imports Prelude
begin

text \<open>
  The part of Rust's string library the program uses. A \<open>String\<close> is the list of its
  Unicode scalar values (\<open>chars()\<close>), each a natural number; \<open>blen\<close> is \<open>len()\<close>, which counts
  UTF-8 bytes. A literal is written \<open>lit\<close> of an ASCII string.
\<close>

section \<open>Characters\<close>

type_synonym rchar = nat
type_synonym rstr = "nat list"

definition lit :: "string \<Rightarrow> rstr" where
  "lit s = map of_char s"

definition is_ascii_lowercase :: "rchar \<Rightarrow> bool" where
  "is_ascii_lowercase c \<longleftrightarrow> 97 \<le> c \<and> c \<le> 122"

definition is_ascii_uppercase :: "rchar \<Rightarrow> bool" where
  "is_ascii_uppercase c \<longleftrightarrow> 65 \<le> c \<and> c \<le> 90"

definition is_ascii_digit :: "rchar \<Rightarrow> bool" where
  "is_ascii_digit c \<longleftrightarrow> 48 \<le> c \<and> c \<le> 57"

definition is_ascii_alphanumeric :: "rchar \<Rightarrow> bool" where
  "is_ascii_alphanumeric c \<longleftrightarrow> is_ascii_lowercase c \<or> is_ascii_uppercase c \<or> is_ascii_digit c"

definition is_ascii_hexdigit :: "rchar \<Rightarrow> bool" where
  "is_ascii_hexdigit c \<longleftrightarrow> is_ascii_digit c \<or> (65 \<le> c \<and> c \<le> 70) \<or> (97 \<le> c \<and> c \<le> 102)"

text \<open>The Unicode \<open>White_Space\<close> property, which \<open>trim\<close> goes by.\<close>

definition is_whitespace :: "rchar \<Rightarrow> bool" where
  "is_whitespace c \<longleftrightarrow>
     (9 \<le> c \<and> c \<le> 13) \<or> c = 0x20 \<or> c = 0x85 \<or> c = 0xA0 \<or> c = 0x1680 \<or>
     (0x2000 \<le> c \<and> c \<le> 0x200A) \<or> c = 0x2028 \<or> c = 0x2029 \<or> c = 0x202F \<or> c = 0x205F \<or> c = 0x3000"

text \<open>The general category Cc, which \<open>char::is_control\<close> tests.\<close>

definition is_cc :: "rchar \<Rightarrow> bool" where
  "is_cc c \<longleftrightarrow> c \<le> 0x1F \<or> (0x7F \<le> c \<and> c \<le> 0x9F)"

definition to_ascii_lower :: "rchar \<Rightarrow> rchar" where
  "to_ascii_lower c = (if is_ascii_uppercase c then c + 32 else c)"

lemmas char_defs = is_ascii_lowercase_def is_ascii_uppercase_def is_ascii_digit_def
  is_ascii_alphanumeric_def is_ascii_hexdigit_def is_whitespace_def is_cc_def to_ascii_lower_def

text \<open>\<open>char::len_utf8\<close>.\<close>

definition utf8_len :: "rchar \<Rightarrow> nat" where
  "utf8_len c = (if c < 0x80 then 1 else if c < 0x800 then 2 else if c < 0x10000 then 3 else 4)"

lemma utf8_len_bounds: "1 \<le> utf8_len c" "utf8_len c \<le> 4"
  by (simp_all add: utf8_len_def)

lemma utf8_len_ascii [simp]: "c < 128 \<Longrightarrow> utf8_len c = 1"
  by (simp add: utf8_len_def)

section \<open>Strings\<close>

definition blen :: "rstr \<Rightarrow> nat" where
  "blen s = sum_list (map utf8_len s)"

lemma blen_simps [simp]: "blen [] = 0" "blen (c # s) = utf8_len c + blen s"
  "blen (s @ t) = blen s + blen t"
  by (simp_all add: blen_def)

lemma blen_ascii: "list_all (\<lambda>c. c < 128) s \<Longrightarrow> blen s = length s"
  by (induction s) auto

lemma length_le_blen: "length s \<le> blen s"
proof (induction s)
  case (Cons c s)
  then show ?case using utf8_len_bounds(1) [of c] by simp
qed simp

lemma blen_eq_0_iff [simp]: "blen s = 0 \<longleftrightarrow> s = []"
  using length_le_blen [of s] by (cases s) auto

definition ascii_lower :: "rstr \<Rightarrow> rstr" where
  "ascii_lower s = map to_ascii_lower s"

definition trim_start_matches :: "(rchar \<Rightarrow> bool) \<Rightarrow> rstr \<Rightarrow> rstr" where
  "trim_start_matches p s = dropWhile p s"

definition trim_end_matches :: "(rchar \<Rightarrow> bool) \<Rightarrow> rstr \<Rightarrow> rstr" where
  "trim_end_matches p s = rev (dropWhile p (rev s))"

definition trim_matches :: "(rchar \<Rightarrow> bool) \<Rightarrow> rstr \<Rightarrow> rstr" where
  "trim_matches p s = trim_end_matches p (trim_start_matches p s)"

definition trim :: "rstr \<Rightarrow> rstr" where
  "trim s = trim_matches is_whitespace s"

definition starts_with :: "rchar \<Rightarrow> rstr \<Rightarrow> bool" where
  "starts_with c s = (case s of [] \<Rightarrow> False | x # _ \<Rightarrow> x = c)"

definition ends_with :: "rchar \<Rightarrow> rstr \<Rightarrow> bool" where
  "ends_with c s = starts_with c (rev s)"

definition strip_suffix :: "rstr \<Rightarrow> rstr \<Rightarrow> rstr option" where
  "strip_suffix suffix s =
     (if length suffix \<le> length s \<and> drop (length s - length suffix) s = suffix
      then Some (take (length s - length suffix) s) else None)"

fun split_once :: "rchar \<Rightarrow> rstr \<Rightarrow> (rstr \<times> rstr) option" where
  "split_once c [] = None"
| "split_once c (x # s) =
     (if x = c then Some ([], s) else map_option (\<lambda>(a, b). (x # a, b)) (split_once c s))"

text \<open>\<open>u32::to_string\<close>.\<close>

fun decimal :: "nat \<Rightarrow> rstr" where
  "decimal n = (if n < 10 then [48 + n] else decimal (n div 10) @ [48 + n mod 10])"

declare decimal.simps [simp del]

section \<open>Lemmas\<close>

lemma ascii_lower_simps [simp]:
  "ascii_lower [] = []" "ascii_lower (c # s) = to_ascii_lower c # ascii_lower s"
  "ascii_lower (s @ t) = ascii_lower s @ ascii_lower t" "length (ascii_lower s) = length s"
  "ascii_lower s = [] \<longleftrightarrow> s = []"
  by (simp_all add: ascii_lower_def)

lemma to_ascii_lower_idem [simp]: "to_ascii_lower (to_ascii_lower c) = to_ascii_lower c"
  by (simp add: char_defs)

lemma ascii_lower_idem [simp]: "ascii_lower (ascii_lower s) = ascii_lower s"
  by (simp add: ascii_lower_def)

lemma ascii_lower_id: "(\<And>c. c \<in> set s \<Longrightarrow> \<not> is_ascii_uppercase c) \<Longrightarrow> ascii_lower s = s"
  by (induction s) (auto simp: to_ascii_lower_def)

lemma blen_ascii_lower [simp]: "blen (ascii_lower s) = blen s"
  by (induction s) (auto simp: utf8_len_def char_defs)

lemma trim_end_matches_last: "trim_end_matches p s \<noteq> [] \<Longrightarrow> \<not> p (last (trim_end_matches p s))"
  by (auto simp: trim_end_matches_def last_rev hd_dropWhile)

lemma trim_end_matches_prefix: "\<exists>t. s = trim_end_matches p s @ t \<and> list_all p t"
proof -
  have "s = rev (takeWhile p (rev s) @ dropWhile p (rev s))" by simp
  then have "s = trim_end_matches p s @ rev (takeWhile p (rev s))"
    by (simp only: rev_append trim_end_matches_def)
  then show ?thesis
    by (metis list_all_iff set_rev set_takeWhileD)
qed

lemma trim_end_matches_id:
  assumes "s = [] \<or> \<not> p (last s)"
  shows "trim_end_matches p s = s"
  using assms by (cases s rule: rev_cases) (auto simp: trim_end_matches_def)

lemma trim_matches_id:
  assumes "s \<noteq> [] \<Longrightarrow> \<not> p (hd s) \<and> \<not> p (last s)"
  shows "trim_matches p s = s"
proof (cases s)
  case (Cons c t)
  with assms have "trim_start_matches p s = s" by (simp add: trim_start_matches_def)
  with assms Cons show ?thesis by (simp add: trim_matches_def trim_end_matches_id)
qed (simp add: trim_matches_def trim_start_matches_def trim_end_matches_def)

lemma length_trim_end_matches: "length (trim_end_matches p s) \<le> length s"
  using length_dropWhile_le [of p "rev s"] by (simp add: trim_end_matches_def)

lemma set_trim_end_matches: "set (trim_end_matches p s) \<subseteq> set s"
  by (auto simp: trim_end_matches_def dest: set_dropWhileD)

lemma hd_trim_end_matches: "trim_end_matches p s \<noteq> [] \<Longrightarrow> hd (trim_end_matches p s) = hd s"
  by (metis hd_append2 trim_end_matches_prefix)

lemma set_trim_matches: "set (trim_matches p s) \<subseteq> set s"
proof -
  have "set (trim_matches p s) \<subseteq> set (dropWhile p s)"
    by (simp add: trim_matches_def trim_start_matches_def set_trim_end_matches)
  also have "\<dots> \<subseteq> set s" by (auto dest: set_dropWhileD)
  finally show ?thesis .
qed

lemma length_trim_matches: "length (trim_matches p s) \<le> length s"
  using length_trim_end_matches [of p "dropWhile p s"] length_dropWhile_le [of p s]
  by (simp add: trim_matches_def trim_start_matches_def)

lemma trim_matches_ends:
  assumes "trim_matches p s \<noteq> []"
  shows "\<not> p (hd (trim_matches p s))" "\<not> p (last (trim_matches p s))"
proof -
  have ne: "dropWhile p s \<noteq> []"
  proof
    assume "dropWhile p s = []"
    then have "trim_matches p s = []"
      by (simp add: trim_matches_def trim_start_matches_def trim_end_matches_def del: dropWhile_eq_Nil_conv)
    with assms show False by simp
  qed
  have "hd (trim_matches p s) = hd (dropWhile p s)"
    using assms by (simp add: trim_matches_def trim_start_matches_def hd_trim_end_matches)
  then show "\<not> p (hd (trim_matches p s))" using ne by (simp add: hd_dropWhile)
  show "\<not> p (last (trim_matches p s))"
    using assms trim_end_matches_last by (auto simp: trim_matches_def)
qed

lemma starts_with_iff: "starts_with c s \<longleftrightarrow> s \<noteq> [] \<and> hd s = c"
  by (cases s) (auto simp: starts_with_def)

lemma ends_with_iff: "ends_with c s \<longleftrightarrow> s \<noteq> [] \<and> last s = c"
  by (auto simp: ends_with_def starts_with_iff hd_rev)

lemma strip_suffix_Some: "strip_suffix suf s = Some t \<longleftrightarrow> s = t @ suf"
  by (auto simp: strip_suffix_def) (metis append_take_drop_id)

lemma strip_suffix_append [simp]: "strip_suffix suf (t @ suf) = Some t"
  by (simp add: strip_suffix_Some)

lemma split_once_Some: "split_once c s = Some (a, b) \<longleftrightarrow> s = a @ c # b \<and> c \<notin> set a"
proof (induction s arbitrary: a)
  case (Cons x s)
  show ?case
  proof (cases "x = c")
    case False
    then show ?thesis
      by (cases a) (auto simp: Cons.IH split: option.splits)
  qed (cases a; auto)
qed simp

lemma split_once_None: "split_once c s = None \<longleftrightarrow> c \<notin> set s"
  by (induction s) auto

lemma decimal_nonempty [simp]: "decimal n \<noteq> []"
  by (subst decimal.simps) simp

lemma decimal_digits: "c \<in> set (decimal n) \<Longrightarrow> 48 \<le> c \<and> c \<le> 57"
proof (induction n rule: decimal.induct)
  case (1 n)
  show ?case
  proof (cases "n < 10")
    case True
    with "1.prems" have "c = 48 + n" by (subst (asm) decimal.simps) simp
    with True show ?thesis by simp
  next
    case False
    with "1.prems" have "c \<in> set (decimal (n div 10)) \<or> c = 48 + n mod 10"
      by (subst (asm) decimal.simps) auto
    moreover have "n mod 10 < 10" by simp
    ultimately show ?thesis using "1.IH" [OF False] by linarith
  qed
qed

text \<open>Reading the digits back, which shows that different numbers are written differently.\<close>

definition undecimal :: "rstr \<Rightarrow> nat" where
  "undecimal s = foldl (\<lambda>n c. 10 * n + (c - 48)) 0 s"

lemma undecimal_decimal [simp]: "undecimal (decimal n) = n"
proof (induction n rule: decimal.induct)
  case (1 n)
  then show ?case
    by (cases "n < 10") (auto simp: decimal.simps [of n] undecimal_def)
qed

lemma decimal_inj: "decimal m = decimal n \<Longrightarrow> m = n"
  by (metis undecimal_decimal)

lemma length_decimal: "n < 10 ^ k \<Longrightarrow> 0 < k \<Longrightarrow> length (decimal n) \<le> k"
proof (induction n arbitrary: k rule: decimal.induct)
  case (1 n)
  show ?case
  proof (cases "n < 10")
    case True
    with 1 show ?thesis by (simp add: decimal.simps [of n])
  next
    case False
    then obtain j where j: "k = Suc j" "0 < j"
      using "1.prems" by (cases k; cases "k - 1") auto
    then have "n div 10 < 10 ^ j" using "1.prems"(1) by auto
    then have "length (decimal (n div 10)) \<le> j" using "1.IH" False j by simp
    with False j show ?thesis by (simp add: decimal.simps [of n])
  qed
qed

text \<open>\<open>u32::from_str\<close> and \<open>u64::from_str\<close>: an optional plus sign and decimal digits, below the bound.\<close>

definition parse_unsigned :: "nat \<Rightarrow> rstr \<Rightarrow> nat option" where
  "parse_unsigned bound s =
     (let digits = (case s of [] \<Rightarrow> [] | c # t \<Rightarrow> if c = 43 then t else s) in
      if digits = [] \<or> \<not> list_all is_ascii_digit digits \<or> bound \<le> undecimal digits then None
      else Some (undecimal digits))"

lemma parse_unsigned_below: "parse_unsigned bound s = Some n \<Longrightarrow> n < bound"
  by (auto simp: parse_unsigned_def Let_def split: if_splits)

lemma parse_unsigned_decimal [simp]: "parse_unsigned bound (decimal n) = (if n < bound then Some n else None)"
proof -
  obtain c t where d: "decimal n = c # t" by (cases "decimal n") auto
  then have c: "c \<in> set (decimal n)" by simp
  have "c \<noteq> 43" using decimal_digits [OF c] by auto
  moreover have "list_all is_ascii_digit (decimal n)"
    using decimal_digits [of _ n] by (force simp: list_all_iff is_ascii_digit_def)
  ultimately have "(case decimal n of [] \<Rightarrow> [] | c # t \<Rightarrow> if c = 43 then t else decimal n) = decimal n"
    by (simp add: d)
  with \<open>list_all is_ascii_digit (decimal n)\<close> show ?thesis
    unfolding parse_unsigned_def Let_def by simp
qed

section \<open>Big-endian bytes\<close>

text \<open>\<open>u32::from_be_bytes\<close> and \<open>u32::to_be_bytes\<close>.\<close>

definition u32_from_be :: "u8 list \<Rightarrow> u32" where
  "u32_from_be bs = of_nat (foldl (\<lambda>n b. 256 * n + unat b) 0 bs)"

definition u32_to_be :: "u32 \<Rightarrow> u8 list" where
  "u32_to_be w = map (\<lambda>k. of_nat (unat w div 256 ^ k)) [3, 2, 1, 0]"

lemma length_u32_to_be [simp]: "length (u32_to_be w) = 4"
  by (simp add: u32_to_be_def)

lemma unat_u8_of_nat: "unat (of_nat n :: u8) = n mod 256"
  by (simp add: unat_of_nat)

lemma u32_from_to_be [simp]: "u32_from_be (u32_to_be w) = w"
proof -
  define n where "n = unat w"
  have n: "n div 256 ^ 3 < 256"
    using unsigned_less [of w, where ?'a = nat] by (simp add: n_def div_less_iff_less_mult)
  have step: "256 * (n div 256 ^ Suc k) + (n div 256 ^ k) mod 256 = n div 256 ^ k" for k
  proof -
    have "n div 256 ^ Suc k = n div 256 ^ k div 256" by (metis div_mult2_eq power_Suc2)
    then show ?thesis by (simp only: mult_div_mod_eq)
  qed
  have "foldl (\<lambda>n b. 256 * n + unat b) 0 (u32_to_be w) =
      256 * (256 * (256 * ((n div 256 ^ 3) mod 256) + n div 256 ^ 2 mod 256) + n div 256 ^ 1 mod 256) + n div 256 ^ 0 mod 256"
    by (simp only: u32_to_be_def list.map foldl.simps unat_u8_of_nat n_def [symmetric] mult_0_right add_0)
  also have "\<dots> = 256 * (256 * (256 * (n div 256 ^ 3) + n div 256 ^ 2 mod 256) + n div 256 ^ 1 mod 256) + n div 256 ^ 0 mod 256"
    using n by simp
  also have "\<dots> = n"
    using step [of 2] step [of 1] step [of 0] by (simp add: numeral_3_eq_3 numeral_2_eq_2)
  finally show ?thesis by (simp add: u32_from_be_def n_def)
qed

section \<open>UTF-8\<close>

text \<open>
  \<open>as_bytes\<close> and \<open>String::from_utf8_lossy\<close>. The decoder replaces every maximal prefix of an
  ill-formed sequence by U+FFFD, with the ranges of the Unicode standard for the second byte.
\<close>

definition scalar :: "rchar \<Rightarrow> bool" where
  "scalar c \<longleftrightarrow> c < 0x110000 \<and> \<not> (0xD800 \<le> c \<and> c < 0xE000)"

definition utf8_char :: "rchar \<Rightarrow> nat list" where
  "utf8_char c =
     (if c < 0x80 then [c]
      else if c < 0x800 then [0xC0 + c div 64, 0x80 + c mod 64]
      else if c < 0x10000 then [0xE0 + c div 4096, 0x80 + c div 64 mod 64, 0x80 + c mod 64]
      else [0xF0 + c div 262144, 0x80 + c div 4096 mod 64, 0x80 + c div 64 mod 64, 0x80 + c mod 64])"

definition utf8_bytes :: "rstr \<Rightarrow> u8 list" where
  "utf8_bytes s = map of_nat (concat (map utf8_char s))"

definition utf8_cont :: "nat \<Rightarrow> bool" where
  "utf8_cont b \<longleftrightarrow> 0x80 \<le> b \<and> b < 0xC0"

definition second_ok :: "nat \<Rightarrow> nat \<Rightarrow> bool" where
  "second_ok a b \<longleftrightarrow>
     (if a = 0xE0 then 0xA0 \<le> b \<and> b < 0xC0
      else if a = 0xED then 0x80 \<le> b \<and> b < 0xA0
      else if a = 0xF0 then 0x90 \<le> b \<and> b < 0xC0
      else if a = 0xF4 then 0x80 \<le> b \<and> b < 0x90
      else utf8_cont b)"

fun utf8_lossy :: "nat list \<Rightarrow> rstr" where
  "utf8_lossy [] = []"
| "utf8_lossy (a # s) =
     (if a < 0x80 then a # utf8_lossy s
      else if 0xC2 \<le> a \<and> a < 0xE0 then
        (case s of
           b # t \<Rightarrow> if utf8_cont b then ((a - 0xC0) * 64 + (b - 0x80)) # utf8_lossy t
                    else 0xFFFD # utf8_lossy s
         | [] \<Rightarrow> [0xFFFD])
      else if 0xE0 \<le> a \<and> a < 0xF0 then
        (case s of
           b # t \<Rightarrow>
             if second_ok a b then
               (case t of
                  c # u \<Rightarrow> if utf8_cont c
                    then ((a - 0xE0) * 4096 + (b - 0x80) * 64 + (c - 0x80)) # utf8_lossy u
                    else 0xFFFD # utf8_lossy t
                | [] \<Rightarrow> [0xFFFD])
             else 0xFFFD # utf8_lossy s
         | [] \<Rightarrow> [0xFFFD])
      else if 0xF0 \<le> a \<and> a < 0xF5 then
        (case s of
           b # t \<Rightarrow>
             if second_ok a b then
               (case t of
                  c # u \<Rightarrow>
                    if utf8_cont c then
                      (case u of
                         d # v \<Rightarrow> if utf8_cont d
                           then ((a - 0xF0) * 262144 + (b - 0x80) * 4096 + (c - 0x80) * 64 + (d - 0x80)) # utf8_lossy v
                           else 0xFFFD # utf8_lossy u
                       | [] \<Rightarrow> [0xFFFD])
                    else 0xFFFD # utf8_lossy t
                | [] \<Rightarrow> [0xFFFD])
             else 0xFFFD # utf8_lossy s
         | [] \<Rightarrow> [0xFFFD])
      else 0xFFFD # utf8_lossy s)"

declare utf8_lossy.simps(2) [simp del]

lemma length_utf8_char: "length (utf8_char c) = utf8_len c"
  by (simp add: utf8_char_def utf8_len_def)

lemma length_utf8_bytes [simp]: "length (utf8_bytes s) = blen s"
  by (induction s) (simp_all add: utf8_bytes_def length_utf8_char)

lemma utf8_char_byte: "scalar c \<Longrightarrow> b \<in> set (utf8_char c) \<Longrightarrow> b < 256"
  by (auto simp: utf8_char_def scalar_def less_mult_imp_div_less split: if_splits)

lemma sextets:
  "c = c div 4096 * 4096 + c div 64 mod 64 * 64 + c mod (64 :: nat)"
  "c = c div 262144 * 262144 + c div 4096 mod 64 * 4096 + c div 64 mod 64 * 64 + c mod (64 :: nat)"
proof -
  have a: "c = c div 64 * 64 + c mod 64" by simp
  have b: "c div 64 = c div 4096 * 64 + c div 64 mod 64"
    using div_mult_mod_eq [of "c div 64" 64] by (simp add: div_mult2_eq [symmetric])
  have d: "c div 4096 = c div 262144 * 64 + c div 4096 mod 64"
    using div_mult_mod_eq [of "c div 4096" 64] by (simp add: div_mult2_eq [symmetric])
  show e: "c = c div 4096 * 4096 + c div 64 mod 64 * 64 + c mod 64" using a b by linarith
  show "c = c div 262144 * 262144 + c div 4096 mod 64 * 4096 + c div 64 mod 64 * 64 + c mod 64"
    using e d by linarith
qed

lemma utf8_lossy_char:
  assumes "scalar c"
  shows "utf8_lossy (utf8_char c @ s) = c # utf8_lossy s"
proof -
  consider "c < 0x80" | "0x80 \<le> c" "c < 0x800" | "0x800 \<le> c" "c < 0x10000" | "0x10000 \<le> c" "c < 0x110000"
    using assms by (fastforce simp: scalar_def)
  then show ?thesis
  proof cases
    case 1
    then show ?thesis by (simp add: utf8_char_def utf8_lossy.simps(2))
  next
    case 2
    define a b where "a = c div 64" and "b = c mod 64"
    have "c = a * 64 + b" "b < 64" "2 \<le> a" "a < 32" using 2 by (auto simp: a_def b_def div_less_iff_less_mult)
    with 2 show ?thesis
      by (simp add: utf8_char_def utf8_lossy.simps(2) utf8_cont_def a_def [symmetric] b_def [symmetric])
  next
    case 3
    define a b d where "a = c div 4096" and "b = c div 64 mod 64" and "d = c mod 64"
    have c: "a * 4096 + b * 64 + d = c" "b < 64" "d < 64" "a < 16"
      using 3 sextets(1) [of c] by (simp_all add: a_def b_def d_def div_less_iff_less_mult)
    moreover have "\<not> (0xD800 \<le> c \<and> c < 0xE000)" using assms by (simp add: scalar_def)
    ultimately have "second_ok (0xE0 + a) (0x80 + b)" using 3 by (auto simp: second_ok_def utf8_cont_def)
    with 3 c show ?thesis
      by (simp add: utf8_char_def utf8_lossy.simps(2) utf8_cont_def a_def [symmetric] b_def [symmetric] d_def [symmetric])
  next
    case 4
    define a b d e where "a = c div 262144" and "b = c div 4096 mod 64" and "d = c div 64 mod 64" and "e = c mod 64"
    have c: "a * 262144 + b * 4096 + d * 64 + e = c" "b < 64" "d < 64" "e < 64" "a < 5"
      using 4 sextets(2) [of c] by (simp_all add: a_def b_def d_def e_def div_less_iff_less_mult)
    then have "second_ok (0xF0 + a) (0x80 + b)" using 4 by (auto simp: second_ok_def utf8_cont_def)
    with 4 c show ?thesis
      by (simp add: utf8_char_def utf8_lossy.simps(2) utf8_cont_def a_def [symmetric] b_def [symmetric]
          d_def [symmetric] e_def [symmetric])
  qed
qed

definition utf8_text :: "u8 list \<Rightarrow> rstr" where
  "utf8_text bs = utf8_lossy (map unat bs)"

lemma utf8_text_bytes: "list_all scalar s \<Longrightarrow> utf8_text (utf8_bytes s) = s"
proof (induction s)
  case (Cons c s)
  have "map (\<lambda>b. unat (of_nat b :: u8)) (utf8_char c) = utf8_char c"
    using utf8_char_byte [of c] Cons.prems by (intro map_idI) (simp add: unat_u8_of_nat)
  then have "map unat (map of_nat (utf8_char c) :: u8 list) = utf8_char c" by (simp add: comp_def)
  moreover have "utf8_lossy (map unat (utf8_bytes s)) = s" using Cons by (simp add: utf8_text_def)
  ultimately show ?case
    using utf8_lossy_char [of c "map unat (utf8_bytes s)"] Cons.prems
    by (simp add: utf8_text_def utf8_bytes_def)
qed (simp add: utf8_text_def utf8_bytes_def)

text \<open>Evaluation of closed string terms by the simplifier.\<close>

lemmas str_evals [evals] = parse_unsigned_def lit_def char_defs utf8_len_def trim_def trim_matches_def
  trim_end_matches_def trim_start_matches_def starts_with_def ends_with_def strip_suffix_def
  decimal.simps

end
