(* ===== verification/Names.thy ===== *)
theory Names
  imports Rust_Str
begin

text \<open>
  \<open>daemon/src/names.rs\<close>: hostnames, the fallback identifier, network labels, and the
  suffix search that resolves a collision. Error messages are the constructors of
  \<open>name_error\<close>, one per refusal of the source. The lemmas characterise \<open>validate\<close>
  exactly, show that what it accepts is a DNS label and that \<open>dedupe\<close> keeps labels legal
  and finds a free name whenever fewer than 10000 are taken.
\<close>

section \<open>Definitions\<close>

definition NAME_MAX_LEN :: nat where "NAME_MAX_LEN = 63"

definition FALLBACK_LEN :: nat where "FALLBACK_LEN = 8"

definition MAX_SUFFIX :: nat where "MAX_SUFFIX = 9999"

abbreviation hyphen :: rchar where "hyphen \<equiv> 45"

datatype name_error =
    NameEmpty
  | NameTooLong nat
  | NameBadChar rchar
  | NameHyphenEdge
  | NameForeignFallback rstr
  | NetworkEmpty
  | NetworkTooLong nat
  | NetworkNotLabel rstr

definition fallback :: "rstr \<Rightarrow> rstr" where
  "fallback endpoint_id = take FALLBACK_LEN endpoint_id"

definition display :: "rstr \<Rightarrow> rstr option \<Rightarrow> rstr" where
  "display endpoint_id hostname = (case hostname of Some h \<Rightarrow> h | None \<Rightarrow> fallback endpoint_id)"

definition looks_like_fallback :: "rstr \<Rightarrow> bool" where
  "looks_like_fallback name \<longleftrightarrow>
     blen name = FALLBACK_LEN \<and>
     list_all (\<lambda>c. is_ascii_hexdigit c \<and> \<not> is_ascii_uppercase c) name"

definition hostname_char :: "rchar \<Rightarrow> bool" where
  "hostname_char c \<longleftrightarrow> is_ascii_lowercase c \<or> is_ascii_digit c \<or> c = hyphen"

definition validate :: "rstr \<Rightarrow> rstr \<Rightarrow> (name_error, rstr) result" where
  "validate requested claimant_id =
     (let name = ascii_lower (trim requested) in
      if name = [] then Inl NameEmpty
      else if blen name > NAME_MAX_LEN then Inl (NameTooLong (blen name))
      else case List.find (\<lambda>c. \<not> hostname_char c) name of
        Some bad \<Rightarrow> Inl (NameBadChar bad)
      | None \<Rightarrow>
          if starts_with hyphen name \<or> ends_with hyphen name then Inl NameHyphenEdge
          else if looks_like_fallback name \<and> name \<noteq> fallback claimant_id
          then Inl (NameForeignFallback name)
          else Inr name)"

definition network_label :: "rstr \<Rightarrow> rstr" where
  "network_label network =
     (let label = map (\<lambda>c. if is_ascii_alphanumeric c then c else hyphen) (ascii_lower (trim network));
          label = trim_matches (\<lambda>c. c = hyphen) label
      in if label = [] then lit ''network'' else take NAME_MAX_LEN label)"

definition validate_network :: "rstr \<Rightarrow> (name_error, rstr) result" where
  "validate_network name =
     (let trimmed = trim name in
      if trimmed = [] then Inl NetworkEmpty
      else if blen trimmed > NAME_MAX_LEN then Inl (NetworkTooLong (blen trimmed))
      else let label = network_label trimmed in
        if label \<noteq> ascii_lower trimmed then Inl (NetworkNotLabel label)
        else Inr (ascii_lower trimmed))"

text \<open>\<open>saturating_sub\<close> is subtraction on \<open>nat\<close>.\<close>

definition with_suffix :: "rstr \<Rightarrow> rstr \<Rightarrow> rstr" where
  "with_suffix base suffix =
     (let tag = hyphen # suffix;
          keep = NAME_MAX_LEN - blen tag;
          trimmed = trim_end_matches (\<lambda>c. c = hyphen) (take keep base)
      in if trimmed = [] then suffix else trimmed @ tag)"

text \<open>The loop \<open>for suffix in 1..=MAX_SUFFIX\<close>.\<close>

function dedupe_from :: "rstr \<Rightarrow> (rstr \<Rightarrow> bool) \<Rightarrow> nat \<Rightarrow> rstr option" where
  "dedupe_from requested taken suffix =
     (if suffix \<le> MAX_SUFFIX
      then let candidate = with_suffix requested (decimal suffix) in
        if \<not> taken candidate then Some candidate else dedupe_from requested taken (Suc suffix)
      else None)"
  by pat_completeness auto
termination
  by (relation "measure (\<lambda>(r, t, s). Suc MAX_SUFFIX - s)") auto

declare dedupe_from.simps [simp del]

definition dedupe :: "rstr \<Rightarrow> rstr \<Rightarrow> (rstr \<Rightarrow> bool) \<Rightarrow> rstr" where
  "dedupe requested claimant_id taken =
     (if \<not> taken requested then requested
      else case dedupe_from requested taken 1 of
        Some candidate \<Rightarrow> candidate
      | None \<Rightarrow> with_suffix requested (fallback claimant_id))"

lemmas names_evals [evals] = NAME_MAX_LEN_def FALLBACK_LEN_def MAX_SUFFIX_def fallback_def
  display_def looks_like_fallback_def hostname_char_def validate_def network_label_def
  validate_network_def with_suffix_def dedupe_def

section \<open>Legal labels\<close>

definition legal_label :: "rstr \<Rightarrow> bool" where
  "legal_label n \<longleftrightarrow>
     n \<noteq> [] \<and> length n \<le> NAME_MAX_LEN \<and> (\<forall>c \<in> set n. hostname_char c) \<and>
     hd n \<noteq> hyphen \<and> last n \<noteq> hyphen"

lemma hostname_char_ascii: "hostname_char c \<Longrightarrow> c < 128"
  by (auto simp: hostname_char_def char_defs)

lemma hostname_char_not_upper: "hostname_char c \<Longrightarrow> \<not> is_ascii_uppercase c"
  by (auto simp: hostname_char_def char_defs)

lemma hostname_char_not_space: "hostname_char c \<Longrightarrow> \<not> is_whitespace c"
  by (auto simp: hostname_char_def char_defs)

lemma hostname_chars_blen: "(\<forall>c \<in> set n. hostname_char c) \<Longrightarrow> blen n = length n"
  by (intro blen_ascii) (auto simp: list_all_iff dest: hostname_char_ascii)

lemma hostname_chars_lower: "(\<forall>c \<in> set n. hostname_char c) \<Longrightarrow> ascii_lower n = n"
  by (intro ascii_lower_id) (auto dest: hostname_char_not_upper)

lemma hostname_chars_trim: "(\<forall>c \<in> set n. hostname_char c) \<Longrightarrow> trim n = n"
  unfolding trim_def by (rule trim_matches_id) (auto dest: hostname_char_not_space)

lemmas hostname_chars = hostname_chars_blen hostname_chars_lower hostname_chars_trim

lemma hostname_char_digit [simp]: "48 \<le> c \<Longrightarrow> c \<le> 57 \<Longrightarrow> hostname_char c"
  by (simp add: hostname_char_def char_defs)

lemma hostname_char_hyphen [simp]: "hostname_char hyphen"
  by (simp add: hostname_char_def)

lemma decimal_hostname_chars: "c \<in> set (decimal n) \<Longrightarrow> hostname_char c \<and> c \<noteq> hyphen"
  using decimal_digits [of c n] by auto

section \<open>Validation\<close>

text \<open>\<open>validate\<close> succeeds exactly on the labels it should, with the normalised name.\<close>

lemma validate_Inr_iff:
  "validate r c = Inr n \<longleftrightarrow>
     n = ascii_lower (trim r) \<and> legal_label n \<and> (looks_like_fallback n \<longrightarrow> n = fallback c)"
proof -
  define m where m: "m = ascii_lower (trim r)"
  have "(case List.find (\<lambda>c. \<not> hostname_char c) m of
       Some bad \<Rightarrow> Inl (NameBadChar bad)
     | None \<Rightarrow> if starts_with hyphen m \<or> ends_with hyphen m then Inl NameHyphenEdge
         else if looks_like_fallback m \<and> m \<noteq> fallback c then Inl (NameForeignFallback m)
         else Inr m) = Inr n \<longleftrightarrow>
     (\<forall>c \<in> set m. hostname_char c) \<and> \<not> starts_with hyphen m \<and> \<not> ends_with hyphen m \<and>
     (looks_like_fallback m \<longrightarrow> m = fallback c) \<and> n = m"
  proof (cases "List.find (\<lambda>c. \<not> hostname_char c) m")
    case None
    then have "\<forall>c \<in> set m. hostname_char c" by (simp add: find_None_iff')
    with None show ?thesis by auto
  next
    case (Some bad)
    with find_Some_mem [OF Some] show ?thesis by auto
  qed
  then have "validate r c = Inr n \<longleftrightarrow>
     m \<noteq> [] \<and> blen m \<le> NAME_MAX_LEN \<and> (\<forall>c \<in> set m. hostname_char c) \<and>
     \<not> starts_with hyphen m \<and> \<not> ends_with hyphen m \<and>
     (looks_like_fallback m \<longrightarrow> m = fallback c) \<and> n = m"
    by (simp add: validate_def Let_def flip: m)
  also have "\<dots> \<longleftrightarrow> n = m \<and> legal_label n \<and> (looks_like_fallback n \<longrightarrow> n = fallback c)"
    by (auto simp: legal_label_def starts_with_iff ends_with_iff hostname_chars_blen)
  finally show ?thesis by (simp add: m)
qed

lemma validate_legal: "validate r c = Inr n \<Longrightarrow> legal_label n"
  by (blast dest: validate_Inr_iff [THEN iffD1])

lemma legal_label_normal: "legal_label n \<Longrightarrow> ascii_lower (trim n) = n"
  by (simp add: legal_label_def hostname_chars)

lemma validate_idem: "validate r c = Inr n \<Longrightarrow> validate n c = Inr n"
  unfolding validate_Inr_iff by (metis legal_label_normal)

lemma fallback_idem [simp]: "fallback (fallback i) = fallback i"
  by (simp add: fallback_def)

lemma length_fallback: "length (fallback i) \<le> FALLBACK_LEN"
  by (simp add: fallback_def)

section \<open>Collisions\<close>

text \<open>What the suffix search returns: the first number whose candidate is free.\<close>

lemma dedupe_from_Some:
  "dedupe_from r taken s = Some c \<Longrightarrow>
   \<exists>k \<ge> s. k \<le> MAX_SUFFIX \<and> c = with_suffix r (decimal k) \<and> \<not> taken c \<and>
     (\<forall>j. s \<le> j \<longrightarrow> j < k \<longrightarrow> taken (with_suffix r (decimal j)))"
proof (induction r taken s rule: dedupe_from.induct)
  case (1 r taken s)
  show ?case
  proof (cases "s \<le> MAX_SUFFIX \<and> taken (with_suffix r (decimal s))")
    case True
    then obtain k where "Suc s \<le> k" "k \<le> MAX_SUFFIX" "c = with_suffix r (decimal k)" "\<not> taken c"
      and below: "\<forall>j. Suc s \<le> j \<longrightarrow> j < k \<longrightarrow> taken (with_suffix r (decimal j))"
      using 1 by (auto simp: dedupe_from.simps [of r taken s])
    moreover have "taken (with_suffix r (decimal j))" if "s \<le> j" "j < k" for j
      using that True below by (cases "j = s") auto
    ultimately show ?thesis by (intro exI [of _ k]) auto
  next
    case False
    with "1.prems" show ?thesis
      by (auto simp: dedupe_from.simps [of r taken s] Let_def split: if_splits intro!: exI [of _ s])
  qed
qed

lemma dedupe_from_None:
  "dedupe_from r taken s = None \<Longrightarrow> s \<le> k \<Longrightarrow> k \<le> MAX_SUFFIX \<Longrightarrow> taken (with_suffix r (decimal k))"
proof (induction r taken s rule: dedupe_from.induct)
  case (1 r taken s)
  then have t: "taken (with_suffix r (decimal s))" "dedupe_from r taken (Suc s) = None"
    by (auto simp: dedupe_from.simps [of r taken s] Let_def split: if_splits)
  show ?case
  proof (cases "k = s")
    case False
    with 1 t show ?thesis by (auto simp: Let_def)
  qed (use t in simp)
qed

definition dedupe_candidate :: "rstr \<Rightarrow> nat \<Rightarrow> rstr" where
  "dedupe_candidate r k = (if k = 0 then r else with_suffix r (decimal k))"

lemma dedupe_cases:
  obtains (free) k where "k \<le> MAX_SUFFIX" "dedupe r i taken = dedupe_candidate r k"
      "\<not> taken (dedupe_candidate r k)" "\<forall>j < k. taken (dedupe_candidate r j)"
  | (exhausted) "dedupe r i taken = with_suffix r (fallback i)"
      "\<forall>k \<le> MAX_SUFFIX. taken (dedupe_candidate r k)"
proof (cases "taken r")
  case False
  then show ?thesis by (intro free [of 0]) (auto simp: dedupe_def dedupe_candidate_def)
next
  case True
  show ?thesis
  proof (cases "dedupe_from r taken 1")
    case None
    with True dedupe_from_None [OF None] show ?thesis
      by (intro exhausted) (auto simp: dedupe_def dedupe_candidate_def Suc_le_eq)
  next
    case (Some c)
    obtain k where "1 \<le> k" "k \<le> MAX_SUFFIX" "c = with_suffix r (decimal k)" "\<not> taken c"
      "\<forall>j. 1 \<le> j \<longrightarrow> j < k \<longrightarrow> taken (with_suffix r (decimal j))"
      using dedupe_from_Some [OF Some] by blast
    with True Some show ?thesis
      by (intro free [of k]) (auto simp: dedupe_def dedupe_candidate_def)
  qed
qed

section \<open>Candidates are legal and pairwise different\<close>

definition suffix_text :: "rstr \<Rightarrow> bool" where
  "suffix_text suf \<longleftrightarrow>
     suf \<noteq> [] \<and> length suf \<le> FALLBACK_LEN \<and> (\<forall>c \<in> set suf. hostname_char c \<and> c \<noteq> hyphen)"

lemma suffix_text_decimal: "k \<le> MAX_SUFFIX \<Longrightarrow> suffix_text (decimal k)"
  using length_decimal [of k 8] decimal_hostname_chars
  by (auto simp: suffix_text_def MAX_SUFFIX_def FALLBACK_LEN_def)

lemma with_suffix_shape:
  assumes "legal_label base" and "suffix_text suf"
  obtains t where "with_suffix base suf = t @ hyphen # suf" "t \<noteq> []" "hd t = hd base"
    "set t \<subseteq> set base" "length t + length suf + 1 \<le> NAME_MAX_LEN"
proof -
  define keep where "keep = NAME_MAX_LEN - blen (hyphen # suf)"
  define t where "t = trim_end_matches (\<lambda>c. c = hyphen) (take keep base)"
  have suf: "blen suf = length suf"
    using assms(2) by (intro hostname_chars_blen) (auto simp: suffix_text_def)
  have keep: "0 < keep" "keep + length suf + 1 = NAME_MAX_LEN"
    using assms(2) suf by (auto simp: keep_def suffix_text_def FALLBACK_LEN_def NAME_MAX_LEN_def)
  have base: "take keep base \<noteq> []" "hd (take keep base) = hd base" "hd base \<noteq> hyphen"
    using assms(1) keep by (auto simp: legal_label_def hd_take)
  have t: "t \<noteq> []"
  proof
    assume "t = []"
    then have "\<forall>c \<in> set (take keep base). c = hyphen"
      using trim_end_matches_prefix [of "take keep base" "\<lambda>c. c = hyphen"]
      by (auto simp: t_def list_all_iff)
    then show False using base by (metis hd_in_set)
  qed
  have "length t \<le> keep"
    using length_trim_end_matches [of "\<lambda>c. c = hyphen" "take keep base"] by (simp add: t_def)
  moreover have "set t \<subseteq> set base"
    using set_trim_end_matches [of "\<lambda>c. c = hyphen" "take keep base"] set_take_subset [of keep base]
    by (auto simp: t_def)
  moreover have "hd t = hd base"
    using hd_trim_end_matches t base by (simp add: t_def)
  moreover have "with_suffix base suf = t @ hyphen # suf"
    using t by (simp add: with_suffix_def Let_def t_def keep_def)
  ultimately show ?thesis using t keep that by simp
qed

lemma with_suffix_legal:
  assumes "legal_label base" and "suffix_text suf"
  shows "legal_label (with_suffix base suf)"
proof -
  obtain t where t: "with_suffix base suf = t @ hyphen # suf" "t \<noteq> []" "hd t = hd base"
    "set t \<subseteq> set base" "length t + length suf + 1 \<le> NAME_MAX_LEN"
    using with_suffix_shape [OF assms] .
  have "last suf \<noteq> hyphen" using assms(2) by (auto simp: suffix_text_def)
  with t assms show ?thesis by (auto simp: legal_label_def suffix_text_def)
qed

lemma after_last_hyphen:
  assumes "hyphen \<notin> set s" and "hyphen \<notin> set s'" and "t @ hyphen # s = t' @ hyphen # s'"
  shows "s = s'"
proof -
  have *: "takeWhile (\<lambda>c. c \<noteq> hyphen) (rev (u @ hyphen # v)) = rev v" if "hyphen \<notin> set v" for u v
    using that by (simp, subst takeWhile_append2) auto
  show ?thesis using * [OF assms(1), of t] * [OF assms(2), of t'] assms(3) by simp
qed

lemma with_suffix_inj:
  assumes "legal_label base" and "suffix_text s" and "suffix_text s'"
    and "with_suffix base s = with_suffix base s'"
  shows "s = s'"
proof -
  obtain t where "with_suffix base s = t @ hyphen # s" by (rule with_suffix_shape [OF assms(1,2)])
  moreover obtain t' where "with_suffix base s' = t' @ hyphen # s'"
    by (rule with_suffix_shape [OF assms(1,3)])
  ultimately have "t @ hyphen # s = t' @ hyphen # s'" using assms(4) by simp
  moreover have "hyphen \<notin> set s" "hyphen \<notin> set s'" using assms(2,3) by (auto simp: suffix_text_def)
  ultimately show ?thesis by (rule after_last_hyphen [rotated 2])
qed

lemma candidates_inj:
  "legal_label r \<Longrightarrow> inj_on (dedupe_candidate r) {1..MAX_SUFFIX}"
  by (rule inj_onI) (auto simp: dedupe_candidate_def dest!: with_suffix_inj [rotated -1]
      intro: decimal_inj suffix_text_decimal)

text \<open>Fewer than 9999 names taken, and the search cannot run dry.\<close>

lemma dedupe_candidate_free:
  assumes "legal_label r" and "finite {n. taken n}" and "card {n. taken n} < MAX_SUFFIX"
  shows "\<exists>k \<le> MAX_SUFFIX. \<not> taken (dedupe_candidate r k)"
proof (rule ccontr)
  assume "\<not> ?thesis"
  then have "dedupe_candidate r ` {1..MAX_SUFFIX} \<subseteq> {n. taken n}" by auto
  then have "card (dedupe_candidate r ` {1..MAX_SUFFIX}) \<le> card {n. taken n}"
    by (rule card_mono [OF assms(2)])
  moreover have "card (dedupe_candidate r ` {1..MAX_SUFFIX}) = MAX_SUFFIX"
    by (subst card_image [OF candidates_inj [OF assms(1)]]) simp
  ultimately show False using assms(3) by linarith
qed

lemma dedupe_free: "\<exists>k \<le> MAX_SUFFIX. \<not> taken (dedupe_candidate r k) \<Longrightarrow> \<not> taken (dedupe r i taken)"
  by (rule dedupe_cases [of r i taken]) auto

lemma dedupe_legal:
  assumes "legal_label r" and "suffix_text (fallback i)"
  shows "legal_label (dedupe r i taken)"
  using assms
  by (cases rule: dedupe_cases [of r i taken])
    (auto simp: dedupe_candidate_def intro: with_suffix_legal suffix_text_decimal)

section \<open>Network labels\<close>

lemma network_chars:
  "c \<in> set (map (\<lambda>c. if is_ascii_alphanumeric c then c else hyphen) (ascii_lower s)) \<Longrightarrow> hostname_char c"
  by (auto simp: ascii_lower_def hostname_char_def char_defs split: if_splits)

lemma network_label_cases:
  obtains (default) "network_label n = lit ''network''"
  | (label) l where "network_label n = take NAME_MAX_LEN l" "l \<noteq> []" "\<forall>c \<in> set l. hostname_char c"
      "hd l \<noteq> hyphen" "last l \<noteq> hyphen" "length l \<le> length (trim n)"
proof -
  define raw where "raw = map (\<lambda>c. if is_ascii_alphanumeric c then c else hyphen) (ascii_lower (trim n))"
  define l where "l = trim_matches (\<lambda>c. c = hyphen) raw"
  have eq: "network_label n = (if l = [] then lit ''network'' else take NAME_MAX_LEN l)"
    by (simp add: network_label_def Let_def l_def raw_def)
  have chars: "\<forall>c \<in> set l. hostname_char c"
    using set_trim_matches [of "\<lambda>c. c = hyphen" raw] network_chars
    by (auto simp: l_def raw_def simp del: set_map)
  show ?thesis
  proof (cases "l = []")
    case True
    with eq show ?thesis by (simp add: default)
  next
    case False
    then have "hd l \<noteq> hyphen" "last l \<noteq> hyphen"
      using trim_matches_ends [of "\<lambda>c. c = hyphen" raw] by (auto simp: l_def)
    moreover have "length l \<le> length (trim n)"
      using length_trim_matches [of "\<lambda>c. c = hyphen" raw] by (simp add: l_def raw_def)
    ultimately show ?thesis using False eq chars by (simp add: label)
  qed
qed

lemma legal_lit_network: "legal_label (lit ''network'')"
  by (simp add: legal_label_def lit_def NAME_MAX_LEN_def hostname_char_def char_defs)

text \<open>Every label but one cut at 63 characters is legal; a cut one may end in a hyphen.\<close>

lemma network_label_near_legal:
  "network_label n \<noteq> [] \<and> length (network_label n) \<le> NAME_MAX_LEN \<and>
   (\<forall>c \<in> set (network_label n). hostname_char c) \<and> hd (network_label n) \<noteq> hyphen"
proof (cases rule: network_label_cases [of n])
  case default
  with legal_lit_network show ?thesis by (simp add: legal_label_def)
next
  case (label l)
  then show ?thesis by (auto simp: NAME_MAX_LEN_def hd_take dest: in_set_takeD)
qed

lemma network_label_short_legal:
  assumes "length (network_label n) < NAME_MAX_LEN"
  shows "legal_label (network_label n)"
proof (cases rule: network_label_cases [of n])
  case default
  with legal_lit_network show ?thesis by simp
next
  case (label l)
  with assms have "take NAME_MAX_LEN l = l" by (auto simp: min_def split: if_splits)
  with label show ?thesis by (auto simp: legal_label_def)
qed

lemma network_label_legal_fixed:
  assumes "legal_label l"
  shows "network_label l = l"
proof -
  have l: "\<forall>c \<in> set l. hostname_char c" "length l \<le> NAME_MAX_LEN" "l \<noteq> []"
    "hd l \<noteq> hyphen" "last l \<noteq> hyphen"
    using assms by (auto simp: legal_label_def)
  have "map (\<lambda>c. if is_ascii_alphanumeric c then c else hyphen) l = l"
    using l(1) by (intro map_idI) (auto simp: hostname_char_def is_ascii_alphanumeric_def)
  moreover have "trim_matches (\<lambda>c. c = hyphen) l = l"
    by (rule trim_matches_id) (use l in auto)
  ultimately show ?thesis
    using l by (simp add: network_label_def Let_def hostname_chars)
qed

lemma validate_network_Inr:
  assumes "validate_network n = Inr l"
  shows "l = ascii_lower (trim n)" "legal_label l"
proof -
  have l: "l = ascii_lower (trim n)" "network_label (trim n) = l" "blen (trim n) \<le> NAME_MAX_LEN"
    using assms by (auto simp: validate_network_def Let_def split: if_splits)
  show "l = ascii_lower (trim n)" by (rule l)
  show "legal_label l"
  proof (cases rule: network_label_cases [of "trim n"])
    case default
    with l legal_lit_network show ?thesis by simp
  next
    case (label k)
    have "length (trim (trim n)) \<le> NAME_MAX_LEN"
      using length_trim_matches [of is_whitespace "trim n"] length_le_blen [of "trim n"] l(3)
      by (simp add: trim_def)
    with label l show ?thesis by (auto simp: legal_label_def)
  qed
qed

section \<open>Properties\<close>

text \<open>
  Hostname validation is exact. A requested hostname is accepted if and only if, trimmed
  and lower-cased, it is a DNS label (1 to 63 characters of a-z, 0-9 and hyphen, no hyphen at
  either end) that is not another peer's fallback identifier; the accepted value is that
  normal form, and validating it again gives it back.
\<close>

theorem validate_exact:
  "validate r c = Inr n \<longleftrightarrow>
     n = ascii_lower (trim r) \<and> legal_label n \<and> \<not> (looks_like_fallback n \<and> n \<noteq> fallback c) \<and>
     validate n c = Inr n"
proof
  assume v: "validate r c = Inr n"
  show "n = ascii_lower (trim r) \<and> legal_label n \<and> \<not> (looks_like_fallback n \<and> n \<noteq> fallback c) \<and>
     validate n c = Inr n"
    using v validate_Inr_iff [of r c n] validate_idem [OF v] by blast
next
  assume "n = ascii_lower (trim r) \<and> legal_label n \<and> \<not> (looks_like_fallback n \<and> n \<noteq> fallback c) \<and>
     validate n c = Inr n"
  then show "validate r c = Inr n" using validate_Inr_iff [of r c n] by blast
qed

text \<open>
  A validated network name is a DNS label and is its own label: what \<open>validate_network\<close>
  accepts is the trimmed, lower-cased name, \<open>network_label\<close> leaves it unchanged, so the zone a
  network resolves under is the name its creator was shown.
\<close>

lemma network_name_is_its_label:
  assumes "validate_network name = Inr l"
  shows "l = ascii_lower (trim name) \<and> legal_label l \<and> network_label l = l"
  using validate_network_Inr [OF assms] network_label_legal_fixed by blast

text \<open>
  Collision resolution always finds a free, legal name unless at least 9999 names are
  taken: the assigned name is then free, is a DNS label, and is the requested name itself when
  that is free.
\<close>

theorem dedupe_assigns_free_label:
  assumes "legal_label requested" and "suffix_text (fallback claimant)"
    and "finite {n. taken n}" and "card {n. taken n} < MAX_SUFFIX"
  shows "\<not> taken (dedupe requested claimant taken) \<and>
     legal_label (dedupe requested claimant taken) \<and>
     (dedupe requested claimant taken = requested \<or> taken requested)"
proof -
  have "\<not> taken (dedupe requested claimant taken)"
    by (rule dedupe_free) (rule dedupe_candidate_free [OF assms(1,3,4)])
  moreover have "legal_label (dedupe requested claimant taken)"
    using assms(1,2) by (rule dedupe_legal)
  ultimately show ?thesis by (simp add: dedupe_def)
qed

theorem dedupe_assigns_free_label_witness:
  "dedupe (lit ''web'') (lit ''1234abcd00'') (\<lambda>n. n = lit ''web'') = lit ''web-1'' \<and>
   legal_label (lit ''web-1'')"
proof -
  have a: "legal_label (lit ''web'')" by (simp add: legal_label_def evals)
  have b: "suffix_text (fallback (lit ''1234abcd00''))" by (simp add: suffix_text_def evals)
  have "finite {n. n = lit ''web''} \<and> card {n. n = lit ''web''} < MAX_SUFFIX"
    by (simp add: MAX_SUFFIX_def)
  then have "legal_label (dedupe (lit ''web'') (lit ''1234abcd00'') (\<lambda>n. n = lit ''web''))"
    using dedupe_assigns_free_label [OF a b] by blast
  moreover have "dedupe (lit ''web'') (lit ''1234abcd00'') (\<lambda>n. n = lit ''web'') = lit ''web-1''"
    by (simp add: evals dedupe_from.simps)
  ultimately show ?thesis by simp
qed

text \<open>
  A finding: \<open>network_label\<close> cuts at 63 characters after it has trimmed hyphens, so the
  label of a long old network name may end in one, which no DNS label may.
\<close>

lemma network_label_may_end_in_hyphen:
  "network_label (replicate 62 97 @ lit ''!b'') = replicate 62 97 @ [hyphen]"
  "\<not> legal_label (replicate 62 97 @ [hyphen])"
proof -
  have lower: "ascii_lower (replicate 62 97 @ lit ''!b'') = replicate 62 97 @ lit ''!b''"
    by (rule ascii_lower_id) (auto simp: lit_def char_defs)
  have trim: "trim (replicate 62 97 @ lit ''!b'') = replicate 62 97 @ lit ''!b''"
    unfolding trim_def by (rule trim_matches_id) (simp add: lit_def char_defs)
  have ends: "trim_matches (\<lambda>c. c = hyphen) (replicate 62 97 @ [hyphen, 98]) = replicate 62 97 @ [hyphen, 98]"
    by (rule trim_matches_id) simp
  have "map (\<lambda>c. if is_ascii_alphanumeric c then c else hyphen) (replicate 62 97 @ lit ''!b'')
      = replicate 62 97 @ [hyphen, 98]"
    by (simp add: lit_def char_defs)
  then have "network_label (replicate 62 97 @ lit ''!b'') = take NAME_MAX_LEN (replicate 62 97 @ [hyphen, 98])"
    unfolding network_label_def Let_def trim lower by (simp only: ends) simp
  then show "network_label (replicate 62 97 @ lit ''!b'') = replicate 62 97 @ [hyphen]"
    by (simp add: NAME_MAX_LEN_def)
  show "\<not> legal_label (replicate 62 97 @ [hyphen])"
    by (simp add: legal_label_def)
qed

end
