(* ===== verification/Addr.thy ===== *)
theory Addr
  imports Rust_Str
begin

text \<open>
  Endpoint ids, IP addresses and \<open>daemon/src/tun.rs\<close>: the overlay addresses derived from a
  peer's key, and the destination address read out of a packet. \<open>EndpointId\<close> is a third-party
  type around the 32 bytes of a public key; its text form, its parsers and the hash and text
  codecs the program calls are the fields of the record \<open>externs\<close>, a parameter of every
  definition that uses one. Parsing an \<open>IpAddr\<close> is the standard library's, written out here.
\<close>

unbundle bit_operations_syntax

section \<open>Endpoint ids and external functions\<close>

datatype eid = Eid (as_bytes: "u8 list")

text \<open>\<open>EndpointId\<close> is ordered by the bytes of the key.\<close>

instantiation eid :: linorder
begin

definition less_eq_eid :: "eid \<Rightarrow> eid \<Rightarrow> bool" where
  "less_eq_eid a b \<longleftrightarrow> as_bytes a \<le> as_bytes b"

definition less_eid :: "eid \<Rightarrow> eid \<Rightarrow> bool" where
  "less_eid a b \<longleftrightarrow> as_bytes a < as_bytes b"

instance
  by standard (auto simp: less_eq_eid_def less_eid_def intro: eid.expand)

end

record externs =
  id_parse :: "rstr \<Rightarrow> eid option"
  id_show :: "eid \<Rightarrow> rstr"
  id_from_bytes :: "u8 list \<Rightarrow> eid option"
  sha256 :: "u8 list \<Rightarrow> u8 list"
  b58_encode :: "u8 list \<Rightarrow> rstr"
  b58_decode :: "rstr \<Rightarrow> u8 list option"
  hex_encode :: "u8 list \<Rightarrow> rstr"
  hex_decode :: "rstr \<Rightarrow> u8 list option"

section \<open>IP addresses\<close>

type_synonym ipv4 = u32
type_synonym ipv6 = "u8 list"

datatype ipaddr = V4 ipv4 | V6 ipv6

definition ipv4_of_octets :: "u8 list \<Rightarrow> ipv4" where
  "ipv4_of_octets bs = u32_from_be bs"

definition ipv4_octets :: "ipv4 \<Rightarrow> u8 list" where
  "ipv4_octets a = u32_to_be a"

lemma ipv4_of_octets_octets [simp]: "ipv4_of_octets (ipv4_octets a) = a"
  by (simp add: ipv4_of_octets_def ipv4_octets_def)

lemma length_ipv4_octets [simp]: "length (ipv4_octets a) = 4"
  by (simp add: ipv4_octets_def)

definition ipv4_unspecified :: ipv4 where "ipv4_unspecified = 0"

definition ipv6_unspecified :: ipv6 where "ipv6_unspecified = replicate 16 0"

section \<open>Overlay addresses\<close>

definition MTU :: nat where "MTU = 1280"

text \<open>The first sixteen bytes of the hash, with the first octet set to \<open>0x02\<close>.\<close>

definition virtual_ipv6 :: "(u8 list \<Rightarrow> u8 list) \<Rightarrow> u8 list \<Rightarrow> ipv6" where
  "virtual_ipv6 sha public_key = (take 16 (sha public_key))[0 := 0x02]"

definition virtual_ipv4 :: "(u8 list \<Rightarrow> u8 list) \<Rightarrow> u8 list \<Rightarrow> ipv4" where
  "virtual_ipv4 sha public_key =
     (let hash = sha public_key;
          base = push_bit 24 10;
          host_mask = push_bit 24 1 - 1;
          host = u32_from_be (take 4 hash) AND host_mask;
          host = (host AND NOT 0xff) OR max 1 (min 254 (host AND 0xff))
      in base OR host)"

definition virtual_addrs :: "(u8 list \<Rightarrow> u8 list) \<Rightarrow> u8 list \<Rightarrow> ipv4 \<times> ipv6" where
  "virtual_addrs sha public_key = (virtual_ipv4 sha public_key, virtual_ipv6 sha public_key)"

abbreviation addrs_of :: "externs \<Rightarrow> eid \<Rightarrow> ipv4 \<times> ipv6" where
  "addrs_of x i \<equiv> virtual_addrs (sha256 x) (as_bytes i)"

definition dst_addr :: "u8 list \<Rightarrow> ipaddr option" where
  "dst_addr packet =
     (case packet of [] \<Rightarrow> None
      | b # _ \<Rightarrow>
         (let version = drop_bit 4 b in
          if version = 4 \<and> 20 \<le> length packet
          then Some (V4 (ipv4_of_octets [packet ! 16, packet ! 17, packet ! 18, packet ! 19]))
          else if version = 6 \<and> 40 \<le> length packet
          then Some (V6 (take 16 (drop 24 packet)))
          else None))"

section \<open>Parsing addresses: \<open>IpAddr::from_str\<close>\<close>

definition to_digit :: "nat \<Rightarrow> rchar \<Rightarrow> nat option" where
  "to_digit radix c =
     (let d = if is_ascii_digit c then c - 48
              else if 97 \<le> c \<and> c \<le> 122 then c - 87
              else if 65 \<le> c \<and> c \<le> 90 then c - 55 else radix
      in if d < radix then Some d else None)"

text \<open>
  The digits at the front, at most \<open>max_digits\<close> of them and below \<open>limit\<close>: one digit more, or a
  value too large, fails the whole number. Returns the value, the number of digits and the rest.
\<close>

fun read_digits :: "nat \<Rightarrow> nat \<Rightarrow> nat \<Rightarrow> nat \<Rightarrow> nat \<Rightarrow> rstr \<Rightarrow> (nat \<times> nat \<times> rstr) option" where
  "read_digits radix max_digits limit digits value [] = Some (value, digits, [])"
| "read_digits radix max_digits limit digits value (c # s) =
     (case to_digit radix c of
        None \<Rightarrow> Some (value, digits, c # s)
      | Some d \<Rightarrow>
          if limit \<le> value * radix + d \<or> max_digits < Suc digits then None
          else read_digits radix max_digits limit (Suc digits) (value * radix + d) s)"

definition read_number :: "nat \<Rightarrow> nat \<Rightarrow> nat \<Rightarrow> bool \<Rightarrow> rstr \<Rightarrow> (nat \<times> rstr) option" where
  "read_number radix max_digits limit allow_zero_prefix s =
     (case read_digits radix max_digits limit 0 0 s of
        None \<Rightarrow> None
      | Some (v, digits, rest) \<Rightarrow>
          if digits = 0 \<or> (\<not> allow_zero_prefix \<and> starts_with 48 s \<and> 1 < digits) then None
          else Some (v, rest))"

definition read_separator ::
    "rchar \<Rightarrow> nat \<Rightarrow> (rstr \<Rightarrow> ('a \<times> rstr) option) \<Rightarrow> rstr \<Rightarrow> ('a \<times> rstr) option" where
  "read_separator sep index inner s =
     (if index = 0 then inner s
      else case s of [] \<Rightarrow> None | c # t \<Rightarrow> if c = sep then inner t else None)"

abbreviation read_octet :: "nat \<Rightarrow> rstr \<Rightarrow> (nat \<times> rstr) option" where
  "read_octet i \<equiv> read_separator 46 i (read_number 10 3 256 False)"

definition read_ipv4_addr :: "rstr \<Rightarrow> (u8 list \<times> rstr) option" where
  "read_ipv4_addr s =
     Option.bind (read_octet 0 s) (\<lambda>(a, s).
     Option.bind (read_octet 1 s) (\<lambda>(b, s).
     Option.bind (read_octet 2 s) (\<lambda>(c, s).
     Option.bind (read_octet 3 s) (\<lambda>(d, s). Some (map of_nat [a, b, c, d], s)))))"

text \<open>
  The groups from index \<open>i\<close> on, \<open>left\<close> slots to fill: the octets read, how many groups they
  make, whether they end in an embedded IPv4 address, and the rest.
\<close>

fun read_groups :: "nat \<Rightarrow> nat \<Rightarrow> rstr \<Rightarrow> u8 list \<times> nat \<times> bool \<times> rstr" where
  "read_groups i 0 s = ([], 0, False, s)"
| "read_groups i (Suc left) s =
     (case (if 0 < left then read_separator 58 i read_ipv4_addr s else None) of
        Some (v4, rest) \<Rightarrow> (v4, 2, True, rest)
      | None \<Rightarrow>
          (case read_separator 58 i (read_number 16 4 65536 True) s of
             None \<Rightarrow> ([], 0, False, s)
           | Some (g, rest) \<Rightarrow>
               (case read_groups (Suc i) left rest of
                  (bs, n, v4, rest) \<Rightarrow> (of_nat (g div 256) # of_nat (g mod 256) # bs, Suc n, v4, rest))))"

definition read_ipv6_addr :: "rstr \<Rightarrow> (ipv6 \<times> rstr) option" where
  "read_ipv6_addr s =
     (case read_groups 0 8 s of (head, head_size, head_ipv4, rest) \<Rightarrow>
        if head_size = 8 then Some (head, rest)
        else if head_ipv4 then None
        else case rest of
          a # b # rest \<Rightarrow>
            if a = 58 \<and> b = 58 then
              (case read_groups 0 (8 - (head_size + 1)) rest of (tail, tail_size, _, rest) \<Rightarrow>
                 Some (head @ replicate (2 * (8 - head_size - tail_size)) 0 @ tail, rest))
            else None
        | _ \<Rightarrow> None)"

definition parse_ip :: "rstr \<Rightarrow> ipaddr option" where
  "parse_ip s =
     (case read_ipv4_addr s of
        Some (bs, rest) \<Rightarrow> if rest = [] then Some (V4 (ipv4_of_octets bs)) else None
      | None \<Rightarrow>
          (case read_ipv6_addr s of
             Some (bs, rest) \<Rightarrow> if rest = [] then Some (V6 bs) else None
           | None \<Rightarrow> None))"

lemma read_groups_numeral [evals]:
  "read_groups i (numeral k) s =
     (case (if 0 < pred_numeral k then read_separator 58 i read_ipv4_addr s else None) of
        Some (v4, rest) \<Rightarrow> (v4, 2, True, rest)
      | None \<Rightarrow>
          (case read_separator 58 i (read_number 16 4 65536 True) s of
             None \<Rightarrow> ([], 0, False, s)
           | Some (g, rest) \<Rightarrow>
               (case read_groups (Suc i) (pred_numeral k) rest of
                  (bs, n, v4, rest) \<Rightarrow> (of_nat (g div 256) # of_nat (g mod 256) # bs, Suc n, v4, rest))))"
  by (simp add: numeral_eq_Suc)

lemmas parse_evals [evals] = parse_ip_def read_ipv6_addr_def read_ipv4_addr_def read_separator_def
  read_number_def to_digit_def

section \<open>Lemmas\<close>

lemma virtual_ipv6_first: "16 \<le> length (sha k) \<Longrightarrow> length (virtual_ipv6 sha k) = 16 \<and> hd (virtual_ipv6 sha k) = 2"
  by (cases "sha k") (auto simp: virtual_ipv6_def take_Cons')

text \<open>A byte in a word: the bits it may set, and what masking it leaves.\<close>

lemma byte_bits: "w < 256 \<Longrightarrow> bit (w :: u32) n \<Longrightarrow> n < 8"
proof -
  assume w: "w < 256" and b: "bit w n"
  have "unat w < 2 ^ 8" using w by (simp add: word_less_nat_alt)
  then have "take_bit 8 (unat w) = unat w" by (rule take_bit_nat_eq_self)
  moreover have "bit (unat w) n" using b by (simp add: bit_unsigned_iff)
  ultimately show "n < 8" by (metis bit_take_bit_iff)
qed

lemma clamp_octet:
  "max 1 (min 254 w) < (256 :: u32) \<and> 1 \<le> max 1 (min 254 w) \<and> max 1 (min 254 w) \<le> (254 :: u32)"
proof -
  have "max 1 (min 254 w) \<le> (254 :: u32)" "1 \<le> max 1 (min 254 w)" by simp_all
  moreover have "(254 :: u32) < 256" by simp
  ultimately show ?thesis by (meson le_less_trans)
qed

lemma bit_0xff: "bit (0xff :: u32) n \<longleftrightarrow> n < 8"
proof -
  have "(0xff :: u32) = mask 8" by (simp add: mask_eq_exp_minus_1)
  then show ?thesis by (simp only: bit_mask_iff) auto
qed

lemma bit_low24: "bit (push_bit 24 1 - 1 :: u32) n \<longleftrightarrow> n < 24"
proof -
  have "(push_bit 24 1 - 1 :: u32) = mask 24" by (simp add: mask_eq_exp_minus_1)
  then show ?thesis by (simp only: bit_mask_iff) auto
qed

lemma bit_ten: "bit (10 :: u32) n \<Longrightarrow> n < 8"
  by (rule byte_bits [of 10]) simp_all

lemma virtual_ipv4_octets:
  "drop_bit 24 (virtual_ipv4 sha k) = 10 \<and>
   1 \<le> virtual_ipv4 sha k AND 0xff \<and> virtual_ipv4 sha k AND 0xff \<le> 254"
proof -
  define h where "h = u32_from_be (take 4 (sha k)) AND (push_bit 24 1 - 1)"
  define lo where "lo = max 1 (min 254 (h AND 0xff))"
  have v: "virtual_ipv4 sha k = push_bit 24 10 OR ((h AND NOT 0xff) OR lo)"
    by (simp add: virtual_ipv4_def Let_def h_def lo_def)
  have lo: "lo < 256" "1 \<le> lo" "lo \<le> 254" using clamp_octet by (auto simp: lo_def)
  have h: "bit h n \<Longrightarrow> n < 24" for n by (simp only: h_def bit_and_iff bit_low24)
  have "drop_bit 24 (virtual_ipv4 sha k) = 10"
    by (rule bit_word_eqI)
      (auto simp: v bit_drop_bit_eq bit_or_iff bit_and_iff bit_push_bit_iff dest!: h byte_bits [OF lo(1)] dest: bit_ten)
  moreover have "virtual_ipv4 sha k AND 0xff = lo"
  proof (rule bit_word_eqI)
    fix n
    have "bit (push_bit 24 (10 :: u32)) n \<Longrightarrow> 24 \<le> n"
      by (simp only: bit_push_bit_iff)
    then show "bit (virtual_ipv4 sha k AND 0xff) n = bit lo n"
      using byte_bits [OF lo(1), of n] unfolding v bit_and_iff bit_or_iff bit_not_iff bit_0xff
      by auto
  qed
  ultimately show ?thesis using lo by simp
qed

lemma length_virtual_ipv6: "length (sha k) = 32 \<Longrightarrow> length (virtual_ipv6 sha k) = 16"
  by (simp add: virtual_ipv6_def)

lemma take4_nth: "20 \<le> length p \<Longrightarrow> [p ! 16, p ! 17, p ! 18, p ! 19] = take 4 (drop 16 p)"
  by (rule nth_equalityI) (auto simp: less_Suc_eq numeral_nat)

lemma dst_addr_eq:
  "dst_addr (b # t) =
     (if drop_bit 4 b = 4 \<and> 20 \<le> length (b # t) then Some (V4 (ipv4_of_octets (take 4 (drop 16 (b # t)))))
      else if drop_bit 4 b = 6 \<and> 40 \<le> length (b # t) then Some (V6 (take 16 (drop 24 (b # t)))) else None)"
proof -
  have "20 \<le> length (b # t) \<Longrightarrow>
      [(b # t) ! 16, (b # t) ! 17, (b # t) ! 18, (b # t) ! 19] = take 4 (drop 16 (b # t))"
    by (rule take4_nth)
  then show ?thesis
    unfolding dst_addr_def list.case Let_def by (simp only: if_True if_False cong: if_cong conj_cong)
qed

section \<open>A concrete instance\<close>

text \<open>
  Text forms and hash of a toy kind, on which the hypotheses about the external functions
  are met: bytes are written as the characters of the same numbers.
\<close>

definition plain_text :: "u8 list \<Rightarrow> rstr" where
  "plain_text bs = map unat bs"

definition plain_bytes :: "rstr \<Rightarrow> u8 list option" where
  "plain_bytes s = (if list_all (\<lambda>c. c < 256) s then Some (map of_nat s) else None)"

definition plain_externs :: externs where
  "plain_externs =
     \<lparr>id_parse = \<lambda>s. if length s = 32 then map_option Eid (plain_bytes s) else None,
      id_show = \<lambda>i. plain_text (as_bytes i),
      id_from_bytes = \<lambda>bs. Some (Eid bs),
      sha256 = \<lambda>bs. take 32 (bs @ replicate 32 0),
      b58_encode = plain_text, b58_decode = plain_bytes,
      hex_encode = plain_text, hex_decode = plain_bytes\<rparr>"

lemma plain_bytes_text [simp]: "plain_bytes (plain_text bs) = Some bs"
proof -
  have "unat b < 256" for b :: u8 using unsigned_less [of b, where ?'a = nat] by simp
  then show ?thesis by (simp add: plain_bytes_def plain_text_def list_all_iff comp_def map_idI)
qed

lemma plain_externs_sel [simp]:
  "id_show plain_externs i = plain_text (as_bytes i)" "id_from_bytes plain_externs bs = Some (Eid bs)"
  "b58_encode plain_externs = plain_text" "b58_decode plain_externs = plain_bytes"
  "hex_encode plain_externs = plain_text" "hex_decode plain_externs = plain_bytes"
  "length (sha256 plain_externs bs) = 32"
  by (simp_all add: plain_externs_def)

lemmas plain_evals [evals] = plain_externs_def plain_bytes_def plain_text_def

section \<open>Properties\<close>

text \<open>
  Whatever the key, its overlay addresses stay in the ranges the program claims: the IPv6
  address is sixteen bytes whose top seven bits are those of \<open>200::/7\<close>, and the IPv4 address is
  in \<open>10.0.0.0/8\<close> with a last octet of 1 to 254, never a network or broadcast address.
  The hash is any function to 32 bytes.
\<close>

theorem overlay_addresses_in_range:
  assumes "\<And>k. length (sha k) = 32"
  shows "length (virtual_ipv6 sha key) = 16 \<and> drop_bit 1 (virtual_ipv6 sha key ! 0) = 1 \<and>
    drop_bit 24 (virtual_ipv4 sha key) = 10 \<and>
    1 \<le> virtual_ipv4 sha key AND 0xff \<and> virtual_ipv4 sha key AND 0xff \<le> 254 \<and>
    virtual_addrs sha key = (virtual_ipv4 sha key, virtual_ipv6 sha key)"
proof -
  have "0 < length (take 16 (sha key))" using assms by simp
  then have "virtual_ipv6 sha key ! 0 = 2" by (simp add: virtual_ipv6_def)
  then show ?thesis
    using virtual_ipv4_octets [of sha key] length_virtual_ipv6 [of sha key, OF assms]
    by (simp add: virtual_addrs_def)
qed

theorem overlay_addresses_in_range_witness:
  "drop_bit 24 (virtual_ipv4 (\<lambda>_. replicate 32 255) []) = 10 \<and>
   virtual_ipv4 (\<lambda>_. replicate 32 255) [] AND 0xff \<le> 254"
  using overlay_addresses_in_range [of "\<lambda>_. replicate 32 255" "[]"] by simp

text \<open>
  The destination of a packet is read exactly where its header has it. A packet has a
  destination if and only if its version nibble is 4 and it holds at least a minimal IPv4
  header, or 6 and it holds an IPv6 header; the address is then bytes 16 to 19 or 24 to 39, and
  neither truncating the packet behind its header nor any other byte changes it.
\<close>

lemma dst_addr_exact:
  "dst_addr p = Some a \<longleftrightarrow>
     (\<exists>b t. p = b # t \<and>
       ((drop_bit 4 b = 4 \<and> 20 \<le> length p \<and> a = V4 (ipv4_of_octets (take 4 (drop 16 p)))) \<or>
        (drop_bit 4 b = 6 \<and> 40 \<le> length p \<and> a = V6 (take 16 (drop 24 p)))))"
  by (cases p) (auto simp: dst_addr_eq, simp add: dst_addr_def)

end
