(* ===== verification/Proto.thy ===== *)
theory Proto
  imports Rust_Str
begin

text \<open>
  \<open>proto/src/lib.rs\<close>: the constants and messages the CLI and the daemon share. The JSON form of
  a message is serde's; a field with a default is an option in the received form.
\<close>

section \<open>Constants\<close>

definition ZONE :: rstr where "ZONE = lit ''quix''"

definition DEFAULT_INVITE_TTL :: nat where "DEFAULT_INVITE_TTL = 5 * 60"

definition MAX_INVITE_TTL :: nat where "MAX_INVITE_TTL = 30 * 24 * 60 * 60"

definition DEFAULT_FILE_TTL :: nat where "DEFAULT_FILE_TTL = 10 * 60"

definition MAX_FILE_TTL :: nat where "MAX_FILE_TTL = 24 * 60 * 60"

definition MAX_PENDING_PER_PEER :: nat where "MAX_PENDING_PER_PEER = 20"

text \<open>The daemon's socket, unless the environment names another.\<close>

definition socket_name :: "bool \<Rightarrow> rstr option \<Rightarrow> rstr" where
  "socket_name windows custom =
     (case custom of Some name \<Rightarrow> name
      | None \<Rightarrow> if windows then lit ''quix-daemon'' else lit ''/run/quix/quixd.sock'')"

lemmas proto_consts [evals] = socket_name_def ZONE_def DEFAULT_INVITE_TTL_def MAX_INVITE_TTL_def
  DEFAULT_FILE_TTL_def MAX_FILE_TTL_def MAX_PENDING_PER_PEER_def

section \<open>Requests\<close>

datatype request =
    Ping rstr
  | Status
  | CreateNetwork rstr "rstr option"
  | Invite nat
  | Join rstr "rstr option"
  | Leave
  | SetOperator rstr
  | SetHostname rstr bool
  | KickPeer rstr
  | FileSend rstr nat rstr nat
  | FileList
  | FileAccept rstr
  | FileReject rstr

datatype file_event = Accepted | Rejected | Expired | Delivered

section \<open>Offers\<close>

datatype offer_state =
  Offered | Transferring | Done | OfferRejected | OfferExpired | Cancelled | Failed

definition label :: "offer_state \<Rightarrow> rstr" where
  "label s =
     (case s of
        Offered \<Rightarrow> lit ''offered''
      | Transferring \<Rightarrow> lit ''transferring''
      | Done \<Rightarrow> lit ''done''
      | OfferRejected \<Rightarrow> lit ''rejected''
      | OfferExpired \<Rightarrow> lit ''expired''
      | Cancelled \<Rightarrow> lit ''cancelled''
      | Failed \<Rightarrow> lit ''failed'')"

definition is_finished :: "offer_state \<Rightarrow> bool" where
  "is_finished s \<longleftrightarrow> s \<noteq> Offered \<and> s \<noteq> Transferring"

record incoming_offer =
  in_id :: rstr
  in_from :: rstr
  in_name :: rstr
  in_size :: nat
  in_expires_in_secs :: nat

record outgoing_offer =
  out_id :: rstr
  out_to :: rstr
  out_name :: rstr
  out_size :: nat
  out_state :: offer_state
  out_expires_in_secs :: "nat option"
  out_detail :: "rstr option"

section \<open>Status\<close>

record peer_status =
  ps_id :: rstr
  ps_name :: rstr
  ps_named :: bool
  ps_v6 :: rstr
  ps_v4 :: rstr
  ps_linked :: bool
  ps_datagram_max :: "nat option"

datatype dns_registration =
    DnsRegistered
  | DnsRetrying rstr
  | DnsUnavailable "rstr option" "rstr option"
  | DnsUnknown

lemma label_inj: "label s = label t \<Longrightarrow> s = t"
  by (cases s; cases t) (simp_all add: label_def lit_def)

end
