(* ===== verification/Membership.thy ===== *)
theory Membership
  imports Names Addr Proto
begin

text \<open>
  \<open>daemon/src/membership.rs\<close>: the roster of a network, its hostname bindings and its pending
  invites. Instants are integers; the random token of an invite and the random id of a new
  network are arguments of the operations that draw them.

  The invariant \<open>roster_inv\<close> ties the three tables together: member ids are distinct, a
  member's hostname is bound to that member's key, and every pending invite belongs to the
  current network. Every operation keeps it, under one guard on a hostname claim (the
  suffix search must find a free name), and the properties rest on it.
\<close>

section \<open>Data\<close>

record member =
  mid :: rstr
  hostname :: "rstr option"

definition new_member :: "rstr \<Rightarrow> member" where
  "new_member i = \<lparr>mid = i, hostname = None\<rparr>"

type_synonym token = "u8 list"

record pending_invite =
  inv_network_id :: "rstr option"
  inv_expires_at :: int

definition is_live :: "pending_invite \<Rightarrow> rstr option \<Rightarrow> int \<Rightarrow> bool" where
  "is_live i network_id now \<longleftrightarrow>
     inv_network_id i = network_id \<and> inv_network_id i \<noteq> None \<and> inv_expires_at i > now"

record membership =
  network_name :: "rstr option"
  coordinator_id :: "rstr option"
  network_id :: "rstr option"
  members :: "member list"
  pending_invites :: "(token \<times> pending_invite) list"
  bindings :: "rstr \<rightharpoonup> rstr"

definition default_membership :: membership where
  "default_membership =
     \<lparr>network_name = None, coordinator_id = None, network_id = None, members = [],
      pending_invites = [], bindings = Map.empty\<rparr>"

section \<open>Operations\<close>

subsection \<open>Reading the roster\<close>

definition is_coordinator :: "membership \<Rightarrow> rstr \<Rightarrow> bool" where
  "is_coordinator m own_id \<longleftrightarrow> coordinator_id m = Some own_id"

definition member_of :: "membership \<Rightarrow> rstr \<Rightarrow> member option" where
  "member_of m i = List.find (\<lambda>x. mid x = i) (members m)"

definition is_member :: "membership \<Rightarrow> rstr \<Rightarrow> bool" where
  "is_member m i \<longleftrightarrow> member_of m i \<noteq> None"

definition hostname_of :: "membership \<Rightarrow> rstr \<Rightarrow> rstr option" where
  "hostname_of m i = Option.bind (member_of m i) hostname"

definition roster :: "membership \<Rightarrow> member list" where
  "roster m = sort_key mid (members m)"

definition member_ids :: "externs \<Rightarrow> membership \<Rightarrow> eid list" where
  "member_ids x m = List.map_filter (\<lambda>p. id_parse x (mid p)) (members m)"

subsection \<open>Hostnames\<close>

definition bind :: "rstr \<Rightarrow> rstr \<Rightarrow> membership \<Rightarrow> membership" where
  "bind i h m =
     m\<lparr>bindings := (bindings m)(h \<mapsto> i),
       members := update_first (\<lambda>x. mid x = i) (\<lambda>x. x\<lparr>hostname := Some h\<rparr>) (members m)\<rparr>"

definition spoken_for :: "membership \<Rightarrow> rstr \<Rightarrow> rstr \<Rightarrow> bool" where
  "spoken_for m name claimant \<longleftrightarrow>
     (case bindings m name of None \<Rightarrow> False | Some owner \<Rightarrow> owner \<noteq> claimant) \<or>
     list_ex (\<lambda>x. mid x \<noteq> claimant \<and> fallback (mid x) = name) (members m)"

definition release :: "rstr \<Rightarrow> membership \<Rightarrow> membership" where
  "release wanted m =
     m\<lparr>bindings := (bindings m)(wanted := None),
       members := update_first (\<lambda>x. hostname x = Some wanted) (\<lambda>x. x\<lparr>hostname := None\<rparr>) (members m)\<rparr>"

definition claim_hostname ::
    "rstr \<Rightarrow> rstr \<Rightarrow> bool \<Rightarrow> membership \<Rightarrow> (name_error, rstr) result \<times> membership" where
  "claim_hostname claimant requested force m =
     (case validate requested claimant of
        Inl e \<Rightarrow> (Inl e, m)
      | Inr wanted \<Rightarrow>
          let m = (if force then release wanted m else m);
              assigned = dedupe wanted claimant (\<lambda>candidate. spoken_for m candidate claimant)
          in (Inr assigned, bind claimant assigned m))"

subsection \<open>Networks and invites\<close>

text \<open>\<open>fresh\<close> is \<open>new_network_id()\<close>.\<close>

definition create :: "rstr \<Rightarrow> rstr \<Rightarrow> rstr \<Rightarrow> rstr option \<Rightarrow> membership \<Rightarrow> membership" where
  "create fresh name own_id host m =
     (let m = m\<lparr>network_name := Some name, coordinator_id := Some own_id, network_id := Some fresh,
                pending_invites := [], members := [new_member own_id]\<rparr>
      in case host of None \<Rightarrow> m | Some h \<Rightarrow> bind own_id h m)"

definition prune_expired :: "int \<Rightarrow> membership \<Rightarrow> membership" where
  "prune_expired now m =
     m\<lparr>pending_invites := retain (\<lambda>_ i. inv_expires_at i > now) (pending_invites m)\<rparr>"

text \<open>The token is the sixteen random bytes the code draws; the code is Base58 of id and token.\<close>

definition generate_invite ::
    "externs \<Rightarrow> token \<Rightarrow> eid \<Rightarrow> int \<Rightarrow> int \<Rightarrow> membership \<Rightarrow> (rstr \<times> int) \<times> membership" where
  "generate_invite x token own_id ttl now m =
     (let m = prune_expired now m;
          expires_at = now + ttl;
          m = m\<lparr>pending_invites := AList.update token
                 \<lparr>inv_network_id = network_id m, inv_expires_at = expires_at\<rparr> (pending_invites m)\<rparr>
      in ((b58_encode x (as_bytes own_id @ token), expires_at), m))"

datatype invite_error = InvalidInviteCode | InvalidInviteLength | InvalidEndpointId

definition decode_invite :: "externs \<Rightarrow> rstr \<Rightarrow> (invite_error, eid \<times> token) result" where
  "decode_invite x code =
     (case b58_decode x code of
        None \<Rightarrow> Inl InvalidInviteCode
      | Some bytes \<Rightarrow>
          if length bytes \<noteq> 48 then Inl InvalidInviteLength
          else case id_from_bytes x (take 32 bytes) of
            None \<Rightarrow> Inl InvalidEndpointId
          | Some i \<Rightarrow> Inr (i, drop 32 bytes))"

definition redeem_invite :: "token \<Rightarrow> rstr \<Rightarrow> int \<Rightarrow> membership \<Rightarrow> bool \<times> membership" where
  "redeem_invite token requester now m =
     (case map_of (pending_invites m) token of
        None \<Rightarrow> (False, m)
      | Some invite \<Rightarrow>
          let nid = network_id m;
              m = prune_expired now (m\<lparr>pending_invites := AList.delete token (pending_invites m)\<rparr>)
          in if \<not> is_live invite nid now then (False, m)
             else (True, if is_member m requester then m
                         else m\<lparr>members := members m @ [new_member requester]\<rparr>))"

subsection \<open>Rosters from the coordinator\<close>

text \<open>A refusal: the hostname, the key it is bound to and the key the push gave it to.\<close>

type_synonym conflict = "rstr \<times> rstr \<times> rstr"

definition push_member :: "member \<Rightarrow> membership \<Rightarrow> membership" where
  "push_member p m = (if is_member m (mid p) then m else m\<lparr>members := members m @ [p]\<rparr>)"

definition apply_member :: "member \<Rightarrow> conflict list \<times> membership \<Rightarrow> conflict list \<times> membership" where
  "apply_member p s =
     (case s of (conflicts, m) \<Rightarrow>
        case hostname p of
          None \<Rightarrow> (conflicts, push_member p m)
        | Some h \<Rightarrow>
            (case bindings m h of
               Some owner \<Rightarrow>
                 if owner \<noteq> mid p
                 then (conflicts @ [(h, fallback owner, fallback (mid p))], push_member (p\<lparr>hostname := None\<rparr>) m)
                 else (conflicts, push_member p (m\<lparr>bindings := (bindings m)(h \<mapsto> mid p)\<rparr>))
             | None \<Rightarrow> (conflicts, push_member p (m\<lparr>bindings := (bindings m)(h \<mapsto> mid p)\<rparr>))))"

definition apply_roster :: "rstr \<Rightarrow> member list \<Rightarrow> membership \<Rightarrow> conflict list \<times> membership" where
  "apply_roster own_id new_roster m =
     (case fold apply_member new_roster ([], m) of
        (conflicts, m) \<Rightarrow>
          (conflicts,
           fold (\<lambda>i. push_member (new_member i))
             (List.map_filter id [Some own_id, coordinator_id m]) m))"

definition set_joined :: "rstr \<Rightarrow> rstr \<Rightarrow> rstr option \<Rightarrow> member list \<Rightarrow> membership \<Rightarrow> membership" where
  "set_joined coordinator own_id name new_roster m =
     snd (apply_roster own_id new_roster
       (m\<lparr>coordinator_id := Some coordinator, network_name := name, members := [],
          bindings := Map.empty, network_id := None, pending_invites := []\<rparr>))"

definition set_roster ::
    "rstr \<Rightarrow> rstr option \<Rightarrow> member list \<Rightarrow> membership \<Rightarrow> conflict list \<times> membership" where
  "set_roster own_id name new_roster m =
     apply_roster own_id new_roster
       ((if name \<noteq> None then m\<lparr>network_name := name\<rparr> else m)\<lparr>members := []\<rparr>)"

definition leave :: "membership \<Rightarrow> membership" where
  "leave m =
     m\<lparr>network_name := None, coordinator_id := None, network_id := None, members := [],
       pending_invites := [], bindings := Map.empty\<rparr>"

subsection \<open>Removing a member\<close>

definition remove_member :: "rstr \<Rightarrow> membership \<Rightarrow> bool \<times> membership" where
  "remove_member i m =
     (let after = filter (\<lambda>x. mid x \<noteq> i) (members m)
      in (length (members m) \<noteq> length after, m\<lparr>members := after\<rparr>))"

definition find_member :: "externs \<Rightarrow> membership \<Rightarrow> rstr \<Rightarrow> member option" where
  "find_member x m query =
     (case parse_ip (trim query) of
        Some addr \<Rightarrow>
          List.find (\<lambda>p. case id_parse x (mid p) of
              None \<Rightarrow> False
            | Some key \<Rightarrow> (case addrs_of x key of (v4, v6) \<Rightarrow> addr = V4 v4 \<or> addr = V6 v6)) (members m)
      | None \<Rightarrow>
          let name = ascii_lower (trim_end_matches (\<lambda>c. c = 46) (trim query));
              name = (case network_name m of
                  None \<Rightarrow> name
                | Some network \<Rightarrow>
                    (case strip_suffix ([46] @ network_label network @ [46] @ ZONE) name of
                       Some bare \<Rightarrow> bare | None \<Rightarrow> name))
          in if name = [] then None
             else List.find (\<lambda>p. mid p = name \<or> hostname p = Some name \<or> fallback (mid p) = name) (members m))"

datatype kick_error = NotAMember rstr | KickSelf

definition kick :: "externs \<Rightarrow> rstr \<Rightarrow> rstr \<Rightarrow> membership \<Rightarrow> (kick_error, member) result \<times> membership" where
  "kick x query own_id m =
     (case find_member x m query of
        None \<Rightarrow> (Inl (NotAMember (trim query)), m)
      | Some p \<Rightarrow>
          if mid p = own_id then (Inl KickSelf, m)
          else (Inr p, snd (remove_member (mid p) m)))"

subsection \<open>The stored form\<close>

text \<open>
  \<open>hex_tokens\<close>: the invite table is stored as a list of entries sorted by the token in hex;
  a bare string is an entry from before invites expired and is dropped. The JSON text around
  the entries is serde's.
\<close>

datatype stored_invite = StoredInvite rstr pending_invite | LegacyInvite rstr

datatype token_error = TokenNotHex rstr | TokenNotSixteen

definition serialize_invites :: "externs \<Rightarrow> (token \<times> pending_invite) list \<Rightarrow> stored_invite list" where
  "serialize_invites x invites =
     map (\<lambda>(t, i). StoredInvite t i) (sort_key fst (map (\<lambda>(t, i). (hex_encode x t, i)) invites))"

fun deserialize_from ::
    "externs \<Rightarrow> stored_invite list \<Rightarrow> (token \<times> pending_invite) list \<Rightarrow>
     (token_error, (token \<times> pending_invite) list) result" where
  "deserialize_from x [] out = Inr out"
| "deserialize_from x (LegacyInvite _ # es) out = deserialize_from x es out"
| "deserialize_from x (StoredInvite t i # es) out =
     (case hex_decode x t of
        None \<Rightarrow> Inl (TokenNotHex t)
      | Some bytes \<Rightarrow>
          if length bytes \<noteq> 16 then Inl TokenNotSixteen
          else deserialize_from x es (AList.update bytes i out))"

definition deserialize_invites ::
    "externs \<Rightarrow> stored_invite list \<Rightarrow> (token_error, (token \<times> pending_invite) list) result" where
  "deserialize_invites x es = deserialize_from x es []"

datatype member_repr = LegacyMember rstr | FullMember rstr "rstr option"

definition member_of_repr :: "member_repr \<Rightarrow> member" where
  "member_of_repr r =
     (case r of LegacyMember i \<Rightarrow> new_member i | FullMember i h \<Rightarrow> \<lparr>mid = i, hostname = h\<rparr>)"

lemmas membership_evals [evals] = new_member_def is_live_def default_membership_def
  is_coordinator_def member_of_def is_member_def hostname_of_def bind_def spoken_for_def
  release_def claim_hostname_def create_def prune_expired_def generate_invite_def
  decode_invite_def redeem_invite_def push_member_def apply_member_def apply_roster_def
  set_joined_def set_roster_def leave_def remove_member_def find_member_def kick_def
  List.map_filter_def

section \<open>The invariant\<close>

definition hostnames_bound :: "membership \<Rightarrow> bool" where
  "hostnames_bound m \<longleftrightarrow>
     (\<forall>p \<in> set (members m). \<forall>h. hostname p = Some h \<longrightarrow> bindings m h = Some (mid p))"

definition roster_inv :: "membership \<Rightarrow> bool" where
  "roster_inv m \<longleftrightarrow>
     distinct (map mid (members m)) \<and> hostnames_bound m \<and> finite (dom (bindings m)) \<and>
     keys_distinct (pending_invites m) \<and>
     (\<forall>i \<in> avalues (pending_invites m). inv_network_id i = network_id m)"

lemma is_member_iff: "is_member m i \<longleftrightarrow> i \<in> mid ` set (members m)"
  by (auto simp: is_member_def member_of_def find_None_iff')

lemma member_of_Some: "member_of m i = Some p \<Longrightarrow> p \<in> set (members m) \<and> mid p = i"
  unfolding member_of_def by (rule find_Some_mem)

lemma member_of_mem:
  assumes "distinct (map mid (members m))" and "p \<in> set (members m)"
  shows "member_of m (mid p) = Some p"
  unfolding member_of_def
  using assms by (intro find_unique) (auto simp: distinct_map inj_on_def)

lemma bound_hostname:
  "roster_inv m \<Longrightarrow> p \<in> set (members m) \<Longrightarrow> hostname p = Some h \<Longrightarrow> bindings m h = Some (mid p)"
  by (simp add: roster_inv_def hostnames_bound_def)

lemma roster_inv_finite: "roster_inv m \<Longrightarrow> finite (dom (bindings m))"
  by (simp add: roster_inv_def)

lemma unique_hostname:
  assumes "roster_inv m" and "p \<in> set (members m)" and "q \<in> set (members m)"
    and "hostname p = Some h" and "hostname q = Some h"
  shows "p = q"
proof -
  have "mid p = mid q"
    using bound_hostname [OF assms(1,2,4)] bound_hostname [OF assms(1,3,5)] by simp
  with assms(1-3) show ?thesis by (auto simp: roster_inv_def distinct_map inj_on_def)
qed

lemma roster_inv_default [inv_intros]: "roster_inv default_membership"
  by (simp add: roster_inv_def hostnames_bound_def default_membership_def)

subsection \<open>Preservation\<close>

lemma map_mid_bind [simp]: "map mid (members (bind i h m)) = map mid (members m)"
  by (simp add: bind_def)

text \<open>
  Binding a name keeps the invariant when nobody else carries it: then only the claimant's
  entry can be affected.
\<close>

lemma bind_inv [inv_intros]:
  assumes "roster_inv m" and "bindings m h = None \<or> bindings m h = Some i"
  shows "roster_inv (bind i h m)"
proof -
  have d: "distinct (map mid (members m))" using assms(1) by (simp add: roster_inv_def)
  have upd: "update_first (\<lambda>x. mid x = i) (\<lambda>x. x\<lparr>hostname := Some h\<rparr>) (members m) =
      map (\<lambda>x. if mid x = i then x\<lparr>hostname := Some h\<rparr> else x) (members m)"
    by (rule update_first_distinct [OF d]) simp
  have old: "bindings m k = Some (mid p)" if "p \<in> set (members m)" "hostname p = Some k" for p k
    using bound_hostname [OF assms(1)] that by blast
  have "hostnames_bound (bind i h m)"
    unfolding hostnames_bound_def
  proof (intro ballI allI impI)
    fix q k assume "q \<in> set (members (bind i h m))" and k: "hostname q = Some k"
    then obtain p where p: "p \<in> set (members m)"
        "q = (if mid p = i then p\<lparr>hostname := Some h\<rparr> else p)"
      by (auto simp: bind_def upd)
    show "bindings (bind i h m) k = Some (mid q)"
    proof (cases "mid p = i")
      case False
      with p k old [of p k] assms(2) have "k \<noteq> h" by auto
      with False p k old [of p k] show ?thesis by (simp add: bind_def)
    qed (use p k in \<open>simp add: bind_def\<close>)
  qed
  with assms(1) show ?thesis by (simp add: roster_inv_def) (simp add: bind_def)
qed

lemma release_inv [inv_intros]:
  assumes "roster_inv m"
  shows "roster_inv (release h m)"
proof -
  have key: "hostname p \<noteq> Some h" if "p \<in> set (members (release h m))" for p
  proof
    assume h: "hostname p = Some h"
    have "p \<in> set (update_first (\<lambda>x. hostname x = Some h) (\<lambda>x. x\<lparr>hostname := None\<rparr>) (members m))"
      using that by (simp add: release_def)
    moreover have "p \<notin> set (update_first (\<lambda>x. hostname x = Some h) (\<lambda>x. x\<lparr>hostname := None\<rparr>) xs)"
      if "distinct (map mid xs)" "set xs \<subseteq> set (members m)" for xs
      using that
    proof (induction xs)
      case (Cons y ys)
      have "hostname y = Some h \<Longrightarrow> p \<notin> set ys"
        using Cons.prems h unique_hostname [OF assms, of y p h] by (auto simp: image_iff)
      with Cons h show ?case by auto
    qed simp
    ultimately show False using assms by (simp add: roster_inv_def)
  qed
  have "hostnames_bound (release h m)"
    unfolding hostnames_bound_def
  proof (intro ballI allI impI)
    fix p h' assume p: "p \<in> set (members (release h m))" "hostname p = Some h'"
    with key have "h' \<noteq> h" by auto
    moreover have "p \<in> set (members m)"
      using p by (auto simp: release_def dest!: set_update_firstD)
    ultimately show "bindings (release h m) h' = Some (mid p)"
      using assms p by (simp add: release_def roster_inv_def hostnames_bound_def)
  qed
  moreover have "map mid (members (release h m)) = map mid (members m)"
    by (simp add: release_def)
  ultimately show ?thesis
    using assms by (simp add: roster_inv_def) (simp add: release_def)
qed

text \<open>
  A claim finds a free name while fewer than 9999 names are bound or shadowed: \<open>room\<close> is that
  guard, counting the binding table and the members' fallbacks.
\<close>

definition room :: "membership \<Rightarrow> bool" where
  "room m \<longleftrightarrow> card (dom (bindings m)) + length (members m) < MAX_SUFFIX"

lemma spoken_for_sub: "{n. spoken_for m n c} \<subseteq> dom (bindings m) \<union> (fallback \<circ> mid) ` set (members m)"
  by (auto simp: spoken_for_def list_ex_iff split: option.splits)

lemma spoken_for_card:
  assumes "finite (dom (bindings m))" and "room m"
  shows "finite {n. spoken_for m n c}" "card {n. spoken_for m n c} < MAX_SUFFIX"
proof -
  have fin: "finite (dom (bindings m) \<union> (fallback \<circ> mid) ` set (members m))" using assms(1) by simp
  then show "finite {n. spoken_for m n c}" by (rule finite_subset [OF spoken_for_sub])
  have "card {n. spoken_for m n c} \<le> card (dom (bindings m) \<union> (fallback \<circ> mid) ` set (members m))"
    by (rule card_mono [OF fin spoken_for_sub])
  also have "\<dots> \<le> card (dom (bindings m)) + card ((fallback \<circ> mid) ` set (members m))"
    by (rule card_Un_le)
  also have "card ((fallback \<circ> mid) ` set (members m)) \<le> length (members m)"
    by (meson List.finite_set card_image_le card_length le_trans)
  finally show "card {n. spoken_for m n c} < MAX_SUFFIX" using assms(2) by (simp add: room_def)
qed

lemma room_release: "finite (dom (bindings m)) \<Longrightarrow> room m \<Longrightarrow> room (release h m)"
proof -
  assume "finite (dom (bindings m))" and r: "room m"
  then have "card (dom (bindings m) - {h}) \<le> card (dom (bindings m))" by (simp add: card_mono)
  with r show ?thesis by (simp add: room_def release_def)
qed

definition before_claim :: "rstr \<Rightarrow> bool \<Rightarrow> membership \<Rightarrow> membership" where
  "before_claim wanted force m = (if force then release wanted m else m)"

lemma before_claim_inv: "roster_inv m \<Longrightarrow> roster_inv (before_claim w f m)"
  by (simp add: before_claim_def release_inv)

lemma claim_hostname_Inr:
  assumes "fst (claim_hostname c r f m) = Inr a"
  obtains w where "validate r c = Inr w" "a = dedupe w c (\<lambda>n. spoken_for (before_claim w f m) n c)"
    "snd (claim_hostname c r f m) = bind c a (before_claim w f m)"
  using assms by (auto simp: claim_hostname_def before_claim_def Let_def split: sum.splits)

lemma claim_hostname_Inl: "fst (claim_hostname c r f m) = Inl e \<Longrightarrow> snd (claim_hostname c r f m) = m"
  by (auto simp: claim_hostname_def Let_def split: sum.splits)

lemma claimed_name_free:
  assumes "roster_inv m" and "room m" and "validate r c = Inr w"
    and "a = dedupe w c (\<lambda>n. spoken_for (before_claim w f m) n c)"
  shows "\<not> spoken_for (before_claim w f m) a c"
proof -
  let ?m = "before_claim w f m"
  have fin: "finite (dom (bindings ?m))"
    using before_claim_inv [OF assms(1)] by (simp add: roster_inv_def)
  have "room ?m" using assms(1,2) by (simp add: before_claim_def room_release roster_inv_def)
  note free = spoken_for_card [OF fin this, of c]
  show ?thesis
    unfolding assms(4)
    by (rule dedupe_free [OF dedupe_candidate_free [OF validate_legal [OF assms(3)] free]])
qed

lemma not_spoken_for_binding: "\<not> spoken_for m h i \<Longrightarrow> bindings m h = None \<or> bindings m h = Some i"
  by (auto simp: spoken_for_def split: option.splits)

lemma claim_hostname_inv [inv_intros]:
  assumes "roster_inv m" and "room m"
  shows "roster_inv (snd (claim_hostname c r f m))"
proof (cases "fst (claim_hostname c r f m)")
  case (Inl e)
  with assms show ?thesis by (simp add: claim_hostname_Inl)
next
  case (Inr a)
  then obtain w where w: "validate r c = Inr w" "a = dedupe w c (\<lambda>n. spoken_for (before_claim w f m) n c)"
    "snd (claim_hostname c r f m) = bind c a (before_claim w f m)"
    by (rule claim_hostname_Inr)
  have "\<not> spoken_for (before_claim w f m) a c" by (rule claimed_name_free [OF assms w(1,2)])
  then show ?thesis
    unfolding w(3) by (intro bind_inv before_claim_inv [OF assms(1)] not_spoken_for_binding)
qed

lemma create_inv [inv_intros]:
  assumes "finite (dom (bindings m))"
  shows "roster_inv (create n nm own host m)"
  using assms
  by (cases host) (auto simp: create_def Let_def roster_inv_def hostnames_bound_def new_member_def bind_def)

lemma prune_expired_frame [frame_simps]:
  "members (prune_expired now m) = members m" "bindings (prune_expired now m) = bindings m"
  "network_id (prune_expired now m) = network_id m"
  "network_name (prune_expired now m) = network_name m"
  "coordinator_id (prune_expired now m) = coordinator_id m"
  by (simp_all add: prune_expired_def)

lemma prune_expired_inv [inv_intros]: "roster_inv m \<Longrightarrow> roster_inv (prune_expired now m)"
  by (auto simp: roster_inv_def hostnames_bound_def prune_expired_def set_retain
      intro: keys_distinct_retain)

lemma update_invite_inv:
  assumes "roster_inv m"
  shows "roster_inv (m\<lparr>pending_invites := AList.update t
    \<lparr>inv_network_id = network_id m, inv_expires_at = e\<rparr> (pending_invites m)\<rparr>)"
  using assms set_update_sub [of t "\<lparr>inv_network_id = network_id m, inv_expires_at = e\<rparr>" "pending_invites m"]
  by (auto simp: roster_inv_def hostnames_bound_def intro!: keys_distinct_update)

lemma generate_invite_inv [inv_intros]:
  "roster_inv m \<Longrightarrow> roster_inv (snd (generate_invite x t own ttl now m))"
  by (simp add: generate_invite_def Let_def update_invite_inv prune_expired_inv)

lemma delete_invite_inv:
  "roster_inv m \<Longrightarrow> roster_inv (m\<lparr>pending_invites := AList.delete t (pending_invites m)\<rparr>)"
  by (auto simp: roster_inv_def hostnames_bound_def set_delete intro: keys_distinct_delete)

lemma push_member_inv:
  assumes "roster_inv m" and "\<And>h. hostname p = Some h \<Longrightarrow> bindings m h = Some (mid p)"
  shows "roster_inv (push_member p m)"
  using assms by (auto simp: push_member_def is_member_iff roster_inv_def hostnames_bound_def)

definition spent :: "token \<Rightarrow> int \<Rightarrow> membership \<Rightarrow> membership" where
  "spent t now m = prune_expired now (m\<lparr>pending_invites := AList.delete t (pending_invites m)\<rparr>)"

lemma redeem_invite_eq:
  "redeem_invite t r now m =
     (case map_of (pending_invites m) t of
        None \<Rightarrow> (False, m)
      | Some i \<Rightarrow>
          if is_live i (network_id m) now then (True, push_member (new_member r) (spent t now m))
          else (False, spent t now m))"
  unfolding redeem_invite_def spent_def push_member_def
  by (simp add: Let_def new_member_def split: option.split)

lemma spent_inv: "roster_inv m \<Longrightarrow> roster_inv (spent t now m)"
  unfolding spent_def by (intro prune_expired_inv delete_invite_inv)

lemma new_member_sel [simp]: "mid (new_member i) = i" "hostname (new_member i) = None"
  by (simp_all add: new_member_def)

lemma push_new_inv: "roster_inv m \<Longrightarrow> roster_inv (push_member (new_member i) m)"
  by (rule push_member_inv) simp_all

lemma redeem_invite_inv [inv_intros]:
  assumes "roster_inv m"
  shows "roster_inv (snd (redeem_invite t r now m))"
  by (auto simp: redeem_invite_eq assms spent_inv push_new_inv split: option.split)

subsection \<open>Pushed rosters\<close>

text \<open>
  What applying one entry does: the binding table only grows, and the entry that is pushed
  carries a name that is bound to it.
\<close>

definition admitted :: "member \<Rightarrow> membership \<Rightarrow> member" where
  "admitted p m =
     (case hostname p of
        Some h \<Rightarrow> (case bindings m h of
            Some owner \<Rightarrow> if owner \<noteq> mid p then p\<lparr>hostname := None\<rparr> else p | None \<Rightarrow> p)
      | None \<Rightarrow> p)"

definition pinned :: "member \<Rightarrow> membership \<Rightarrow> membership" where
  "pinned p m =
     (case hostname p of
        Some h \<Rightarrow> (case bindings m h of Some owner \<Rightarrow> m | None \<Rightarrow> m\<lparr>bindings := (bindings m)(h \<mapsto> mid p)\<rparr>)
      | None \<Rightarrow> m)"

definition refused :: "member \<Rightarrow> membership \<Rightarrow> conflict list" where
  "refused p m =
     (case hostname p of
        Some h \<Rightarrow> (case bindings m h of
            Some owner \<Rightarrow> if owner \<noteq> mid p then [(h, fallback owner, fallback (mid p))] else [] | None \<Rightarrow> [])
      | None \<Rightarrow> [])"

lemma apply_member_eq:
  "apply_member p (cs, m) = (cs @ refused p m, push_member (admitted p m) (pinned p m))"
proof (cases "hostname p")
  case (Some h)
  have same: "m\<lparr>bindings := (bindings m)(h \<mapsto> mid p)\<rparr> = m" if "bindings m h = Some (mid p)"
    using that by (cases m) (simp add: fun_upd_idem)
  show ?thesis
    using Some same by (cases "bindings m h") (auto simp: apply_member_def refused_def admitted_def pinned_def)
qed (simp add: apply_member_def refused_def admitted_def pinned_def)

lemma mid_admitted [simp]: "mid (admitted p m) = mid p"
  by (auto simp: admitted_def split: option.splits)

lemma pinned_frame [frame_simps]:
  "members (pinned p m) = members m" "coordinator_id (pinned p m) = coordinator_id m"
  "network_id (pinned p m) = network_id m" "network_name (pinned p m) = network_name m"
  "pending_invites (pinned p m) = pending_invites m"
  by (auto simp: pinned_def split: option.splits)

lemma push_member_frame [frame_simps]:
  "bindings (push_member p m) = bindings m" "coordinator_id (push_member p m) = coordinator_id m"
  "network_id (push_member p m) = network_id m" "network_name (push_member p m) = network_name m"
  "pending_invites (push_member p m) = pending_invites m"
  "mid ` set (members (push_member p m)) = insert (mid p) (mid ` set (members m))"
  by (auto simp: push_member_def is_member_iff)

lemma pinned_grows: "bindings m \<subseteq>\<^sub>m bindings (pinned p m)"
  by (auto simp: map_le_def pinned_def split: option.splits)

lemma hostnames_bound_mono:
  assumes "hostnames_bound m" and "bindings m \<subseteq>\<^sub>m b"
  shows "hostnames_bound (m\<lparr>bindings := b\<rparr>)"
  using assms by (auto simp: hostnames_bound_def map_le_def dom_def)

lemma pinned_inv: "roster_inv m \<Longrightarrow> roster_inv (pinned p m)"
proof -
  assume m: "roster_inv m"
  have "hostnames_bound (m\<lparr>bindings := bindings (pinned p m)\<rparr>)"
    using m pinned_grows by (auto simp: roster_inv_def intro: hostnames_bound_mono)
  moreover have "m\<lparr>bindings := bindings (pinned p m)\<rparr> = pinned p m"
    by (auto simp: pinned_def split: option.splits)
  moreover have "finite (dom (bindings (pinned p m)))"
    using m by (auto simp: pinned_def roster_inv_def split: option.splits)
  ultimately show ?thesis using m by (simp add: roster_inv_def frame_simps)
qed

lemma admitted_bound:
  "hostname (admitted p m) = Some h \<Longrightarrow> bindings (pinned p m) h = Some (mid p)"
  by (auto simp: admitted_def pinned_def split: option.splits if_splits)

lemma apply_member_inv: "roster_inv m \<Longrightarrow> roster_inv (snd (apply_member p (cs, m)))"
  by (simp add: apply_member_eq push_member_inv pinned_inv admitted_bound)

lemma apply_members_frame:
  "coordinator_id (snd (fold apply_member ps (cs, m))) = coordinator_id m \<and>
   network_id (snd (fold apply_member ps (cs, m))) = network_id m \<and>
   network_name (snd (fold apply_member ps (cs, m))) = network_name m \<and>
   pending_invites (snd (fold apply_member ps (cs, m))) = pending_invites m \<and>
   bindings m \<subseteq>\<^sub>m bindings (snd (fold apply_member ps (cs, m))) \<and>
   set cs \<subseteq> set (fst (fold apply_member ps (cs, m))) \<and>
   mid ` set (members (snd (fold apply_member ps (cs, m)))) = mid ` set ps \<union> mid ` set (members m)"
proof (induction ps arbitrary: cs m)
  case (Cons p ps)
  show ?case
    using Cons.IH [of "cs @ refused p m" "push_member (admitted p m) (pinned p m)"]
      pinned_grows [of m p]
    by (auto simp: apply_member_eq frame_simps intro: map_le_trans)
qed simp

lemma apply_members_inv:
  "roster_inv m \<Longrightarrow> roster_inv (snd (fold apply_member ps (cs, m)))"
proof (induction ps arbitrary: cs m)
  case (Cons p ps)
  then show ?case
    using apply_member_inv [OF Cons.prems, of p cs] by (simp add: apply_member_eq)
qed simp

definition push_ids :: "rstr list \<Rightarrow> membership \<Rightarrow> membership" where
  "push_ids is m = fold (\<lambda>i. push_member (new_member i)) is m"

lemma push_ids_frame [frame_simps]:
  "bindings (push_ids is m) = bindings m" "coordinator_id (push_ids is m) = coordinator_id m"
  "network_id (push_ids is m) = network_id m" "network_name (push_ids is m) = network_name m"
  "pending_invites (push_ids is m) = pending_invites m"
  "mid ` set (members (push_ids is m)) = set is \<union> mid ` set (members m)"
  by (induction "is" arbitrary: m) (auto simp: push_ids_def frame_simps new_member_def)

lemma push_ids_inv: "roster_inv m \<Longrightarrow> roster_inv (push_ids is m)"
  by (induction "is" arbitrary: m) (auto simp: push_ids_def push_new_inv)

lemma apply_roster_eq:
  "apply_roster own ps m =
     (fst (fold apply_member ps ([], m)),
      push_ids (own # (case coordinator_id m of None \<Rightarrow> [] | Some c \<Rightarrow> [c])) (snd (fold apply_member ps ([], m))))"
  using apply_members_frame [of ps "[]" m]
  by (auto simp: apply_roster_def push_ids_def List.map_filter_def split: prod.splits option.splits)

lemma apply_roster_inv: "roster_inv m \<Longrightarrow> roster_inv (snd (apply_roster own ps m))"
  by (simp add: apply_roster_eq push_ids_inv apply_members_inv)

lemma apply_roster_frame:
  "bindings m \<subseteq>\<^sub>m bindings (snd (apply_roster own ps m)) \<and>
   pending_invites (snd (apply_roster own ps m)) = pending_invites m \<and>
   network_id (snd (apply_roster own ps m)) = network_id m \<and>
   network_name (snd (apply_roster own ps m)) = network_name m \<and>
   coordinator_id (snd (apply_roster own ps m)) = coordinator_id m \<and>
   mid ` set (members (snd (apply_roster own ps m))) =
     insert own (set_option (coordinator_id m)) \<union> mid ` set ps \<union> mid ` set (members m)"
  using apply_members_frame [of ps "[]" m]
  by (auto simp: apply_roster_eq frame_simps split: option.splits)

lemma set_joined_inv [inv_intros]: "roster_inv (set_joined c own nm ps m)"
  unfolding set_joined_def by (rule apply_roster_inv) (simp add: roster_inv_def hostnames_bound_def)

lemma set_roster_inv [inv_intros]: "roster_inv m \<Longrightarrow> roster_inv (snd (set_roster own nm ps m))"
  unfolding set_roster_def by (rule apply_roster_inv) (simp add: roster_inv_def hostnames_bound_def)

lemma leave_inv [inv_intros]: "roster_inv (leave m)"
  by (simp add: leave_def roster_inv_def hostnames_bound_def)

lemma remove_member_inv [inv_intros]: "roster_inv m \<Longrightarrow> roster_inv (snd (remove_member i m))"
  by (auto simp: remove_member_def Let_def roster_inv_def hostnames_bound_def distinct_map_filter)

lemma kick_inv [inv_intros]: "roster_inv m \<Longrightarrow> roster_inv (snd (kick x q own m))"
  by (auto simp: kick_def remove_member_inv split: option.splits)

section \<open>The roster as a state machine\<close>

datatype roster_op =
    Create rstr rstr rstr "rstr option"
  | GenerateInvite token eid int int
  | RedeemInvite token rstr int
  | ClaimHostname rstr rstr bool
  | SetJoined rstr rstr "rstr option" "member list"
  | SetRoster rstr "rstr option" "member list"
  | LeaveNetwork
  | RemoveMember rstr
  | Kick rstr rstr

definition roster_step :: "externs \<Rightarrow> membership \<Rightarrow> roster_op \<Rightarrow> membership" where
  "roster_step x m op =
     (case op of
        Create fresh name own h \<Rightarrow> create fresh name own h m
      | GenerateInvite t own ttl now \<Rightarrow> snd (generate_invite x t own ttl now m)
      | RedeemInvite t r now \<Rightarrow> snd (redeem_invite t r now m)
      | ClaimHostname c r f \<Rightarrow> snd (claim_hostname c r f m)
      | SetJoined c own nm ps \<Rightarrow> set_joined c own nm ps m
      | SetRoster own nm ps \<Rightarrow> snd (set_roster own nm ps m)
      | LeaveNetwork \<Rightarrow> leave m
      | RemoveMember i \<Rightarrow> snd (remove_member i m)
      | Kick q own \<Rightarrow> snd (kick x q own m))"

definition roster_ok :: "membership \<Rightarrow> roster_op \<Rightarrow> bool" where
  "roster_ok m op = (case op of ClaimHostname c r f \<Rightarrow> room m | _ \<Rightarrow> True)"

lemma roster_step_inv: "roster_inv m \<Longrightarrow> roster_ok m op \<Longrightarrow> roster_inv (roster_step x m op)"
  by (cases op) (simp_all add: roster_step_def roster_ok_def inv_intros roster_inv_finite)

interpretation roster_machine: safe_machine "roster_step x" roster_ok roster_inv for x
  by unfold_locales (rule roster_step_inv)

section \<open>What an operation does to an invite\<close>

lemma set_joined_frame [frame_simps]:
  "pending_invites (set_joined c own nm ps m) = []" "network_id (set_joined c own nm ps m) = None"
  using apply_roster_frame by (simp_all add: set_joined_def)

lemma set_roster_frame [frame_simps]:
  "pending_invites (snd (set_roster own nm ps m)) = pending_invites m"
  "network_id (snd (set_roster own nm ps m)) = network_id m"
  "coordinator_id (snd (set_roster own nm ps m)) = coordinator_id m"
  using apply_roster_frame by (simp_all add: set_roster_def)

lemma bind_frame [frame_simps]:
  "pending_invites (bind i h m) = pending_invites m" "network_id (bind i h m) = network_id m"
  "coordinator_id (bind i h m) = coordinator_id m"
  by (simp_all add: bind_def)

lemma claim_hostname_frame [frame_simps]:
  "pending_invites (snd (claim_hostname c r f m)) = pending_invites m"
  "network_id (snd (claim_hostname c r f m)) = network_id m"
  by (auto simp: claim_hostname_def Let_def bind_def release_def split: sum.splits)

lemma create_frame [frame_simps]: "pending_invites (create n nm own h m) = []"
  by (simp add: create_def Let_def bind_def split: option.splits)

lemma remove_member_frame [frame_simps]:
  "pending_invites (snd (remove_member i m)) = pending_invites m"
  "network_id (snd (remove_member i m)) = network_id m"
  "bindings (snd (remove_member i m)) = bindings m"
  "coordinator_id (snd (remove_member i m)) = coordinator_id m"
  "members (snd (remove_member i m)) = filter (\<lambda>x. mid x \<noteq> i) (members m)"
  by (simp_all add: remove_member_def Let_def)

lemma kick_frame [frame_simps]:
  "pending_invites (snd (kick x q own m)) = pending_invites m"
  "network_id (snd (kick x q own m)) = network_id m"
  by (auto simp: kick_def frame_simps split: option.splits)

lemma leave_frame [frame_simps]: "pending_invites (leave m) = []"
  by (simp add: leave_def)

lemma prune_expired_pending: "akeys (pending_invites (prune_expired now m)) \<subseteq> akeys (pending_invites m)"
  by (auto simp: prune_expired_def set_retain)

lemma spent_pending: "akeys (pending_invites (spent t now m)) \<subseteq> akeys (pending_invites m) - {t}"
  by (auto simp: spent_def prune_expired_def set_retain set_delete)

lemma redeem_invite_pending:
  "akeys (pending_invites (snd (redeem_invite t r now m))) \<subseteq> akeys (pending_invites m) - {t}"
  using spent_pending [of t now m]
  by (auto simp: redeem_invite_eq frame_simps map_of_eq_None_iff split: option.split)

lemma generate_invite_pending:
  "akeys (pending_invites (snd (generate_invite x t own ttl now m))) \<subseteq> insert t (akeys (pending_invites m))"
  using prune_expired_pending [of now m] by (auto simp: generate_invite_def Let_def dom_update)

text \<open>No operation but minting brings a token into the table.\<close>

definition mints :: "token \<Rightarrow> roster_op \<Rightarrow> bool" where
  "mints t op = (case op of GenerateInvite t' _ _ _ \<Rightarrow> t' = t | _ \<Rightarrow> False)"

lemma roster_step_pending:
  "t \<notin> akeys (pending_invites m) \<Longrightarrow> \<not> mints t op \<Longrightarrow> t \<notin> akeys (pending_invites (roster_step x m op))"
  by (cases op)
    (auto simp: roster_step_def mints_def frame_simps simp del: fst_conv
      dest: subsetD [OF redeem_invite_pending, OF imageI] subsetD [OF generate_invite_pending, OF imageI])

lemma unminted_stays_absent:
  "t \<notin> akeys (pending_invites m) \<Longrightarrow> \<not> list_ex (mints t) ops \<Longrightarrow>
   t \<notin> akeys (pending_invites (foldl (roster_step x) m ops))"
  by (induction ops arbitrary: m) (auto simp: roster_step_pending)

lemma absent_refused: "t \<notin> akeys (pending_invites m) \<Longrightarrow> redeem_invite t r now m = (False, m)"
  by (simp add: redeem_invite_eq map_of_absent)

text \<open>The operations after which a token is gone, and those that leave a live one alone.\<close>

definition closes :: "token \<Rightarrow> roster_op \<Rightarrow> bool" where
  "closes t op =
     (case op of
        Create _ _ _ _ \<Rightarrow> True | SetJoined _ _ _ _ \<Rightarrow> True | LeaveNetwork \<Rightarrow> True
      | RedeemInvite t' _ _ \<Rightarrow> t' = t | _ \<Rightarrow> False)"

definition keeps :: "token \<Rightarrow> int \<Rightarrow> roster_op \<Rightarrow> bool" where
  "keeps t until op =
     (case op of
        Create _ _ _ _ \<Rightarrow> False | SetJoined _ _ _ _ \<Rightarrow> False | LeaveNetwork \<Rightarrow> False
      | RedeemInvite t' _ now \<Rightarrow> t' \<noteq> t \<and> now < until
      | GenerateInvite t' _ _ now \<Rightarrow> t' \<noteq> t \<and> now < until
      | _ \<Rightarrow> True)"

lemma closes_absent: "closes t op \<Longrightarrow> t \<notin> akeys (pending_invites (roster_step x m op))"
  using redeem_invite_pending [of t _ _ m]
  by (cases op) (auto simp: closes_def roster_step_def frame_simps simp del: fst_conv
      dest: subsetD [OF redeem_invite_pending, OF imageI])

lemma prune_expired_lookup:
  "keys_distinct (pending_invites m) \<Longrightarrow> map_of (pending_invites m) t = Some i \<Longrightarrow> now < inv_expires_at i \<Longrightarrow>
   map_of (pending_invites (prune_expired now m)) t = Some i"
  by (simp add: prune_expired_def map_of_retain)

lemma spent_lookup:
  "keys_distinct (pending_invites m) \<Longrightarrow> map_of (pending_invites m) t = Some i \<Longrightarrow> now < inv_expires_at i \<Longrightarrow>
   t' \<noteq> t \<Longrightarrow> map_of (pending_invites (spent t' now m)) t = Some i"
  by (simp add: spent_def prune_expired_def map_of_retain keys_distinct_delete map_of_adelete)

lemma redeem_other_lookup:
  "keys_distinct (pending_invites m) \<Longrightarrow> map_of (pending_invites m) t = Some i \<Longrightarrow> now < inv_expires_at i \<Longrightarrow>
   t' \<noteq> t \<Longrightarrow> map_of (pending_invites (snd (redeem_invite t' r now m))) t = Some i"
  by (auto simp: redeem_invite_eq frame_simps spent_lookup split: option.split)

lemma generate_other_lookup:
  "keys_distinct (pending_invites m) \<Longrightarrow> map_of (pending_invites m) t = Some i \<Longrightarrow> now < inv_expires_at i \<Longrightarrow>
   t' \<noteq> t \<Longrightarrow> map_of (pending_invites (snd (generate_invite x t' own ttl now m))) t = Some i"
  by (simp add: generate_invite_def Let_def map_of_aupdate prune_expired_lookup)

lemma redeem_network_id [frame_simps]: "network_id (snd (redeem_invite t r now m)) = network_id m"
  by (auto simp: redeem_invite_eq frame_simps spent_def split: option.split)

lemma generate_network_id [frame_simps]:
  "network_id (snd (generate_invite x t own ttl now m)) = network_id m"
  by (simp add: generate_invite_def Let_def frame_simps)

lemma redeem_keys_distinct:
  "keys_distinct (pending_invites m) \<Longrightarrow> keys_distinct (pending_invites (snd (redeem_invite t r now m)))"
  by (auto simp: redeem_invite_eq frame_simps spent_def prune_expired_def
      intro: keys_distinct_retain keys_distinct_delete split: option.split)

lemma generate_keys_distinct:
  "keys_distinct (pending_invites m) \<Longrightarrow>
   keys_distinct (pending_invites (snd (generate_invite x t own ttl now m)))"
  by (auto simp: generate_invite_def Let_def prune_expired_def
      intro: keys_distinct_retain keys_distinct_update)

definition outstanding :: "token \<Rightarrow> pending_invite \<Rightarrow> membership \<Rightarrow> bool" where
  "outstanding t i m \<longleftrightarrow>
     keys_distinct (pending_invites m) \<and> map_of (pending_invites m) t = Some i \<and>
     network_id m = inv_network_id i"

lemma keeps_outstanding:
  assumes "outstanding t i m" and "keeps t (inv_expires_at i) op"
  shows "outstanding t i (roster_step x m op)"
proof (cases op)
  case (GenerateInvite t' own ttl now)
  with assms show ?thesis
    by (simp add: outstanding_def roster_step_def keeps_def frame_simps generate_other_lookup
        generate_keys_distinct)
next
  case (RedeemInvite t' r now)
  with assms show ?thesis
    by (simp add: outstanding_def roster_step_def keeps_def frame_simps redeem_other_lookup
        redeem_keys_distinct)
qed (use assms in \<open>simp_all add: outstanding_def roster_step_def keeps_def frame_simps\<close>)

lemma keeps_all_outstanding:
  "outstanding t i m \<Longrightarrow> list_all (keeps t (inv_expires_at i)) ops \<Longrightarrow>
   outstanding t i (foldl (roster_step x) m ops)"
  by (induction ops arbitrary: m) (auto intro: keeps_outstanding)

lemma generated_lookup:
  "map_of (pending_invites (snd (generate_invite x t own ttl now m))) t =
   Some \<lparr>inv_network_id = network_id m, inv_expires_at = now + ttl\<rparr>"
  by (simp add: generate_invite_def Let_def map_of_aupdate frame_simps)

lemma generated_outstanding:
  "keys_distinct (pending_invites m) \<Longrightarrow>
   outstanding t \<lparr>inv_network_id = network_id m, inv_expires_at = now + ttl\<rparr>
     (snd (generate_invite x t own ttl now m))"
  unfolding outstanding_def by (intro conjI generate_keys_distinct generated_lookup) (simp_all add: frame_simps)

lemma redeem_outstanding:
  "outstanding t i m \<Longrightarrow>
   redeem_invite t r now m =
     (if inv_network_id i \<noteq> None \<and> now < inv_expires_at i
      then (True, push_member (new_member r) (spent t now m)) else (False, spent t now m))"
  by (auto simp: redeem_invite_eq outstanding_def is_live_def)

lemma is_member_push [simp]: "is_member (push_member p m) i \<longleftrightarrow> i = mid p \<or> is_member m i"
  by (auto simp: is_member_iff frame_simps)

section \<open>Lookups and pushes in detail\<close>

lemma refused_entry:
  assumes "bindings m h = Some k" and "\<lparr>mid = i, hostname = Some h\<rparr> \<in> set ps" and "i \<noteq> k"
  shows "(h, fallback k, fallback i) \<in> set (fst (fold apply_member ps (cs, m)))"
  using assms
proof (induction ps arbitrary: cs m)
  case (Cons p ps)
  let ?m = "push_member (admitted p m) (pinned p m)"
  show ?case
  proof (cases "p = \<lparr>mid = i, hostname = Some h\<rparr>")
    case True
    then have "(h, fallback k, fallback i) \<in> set (cs @ refused p m)"
      using Cons.prems by (simp add: refused_def)
    then show ?thesis
      using apply_members_frame [of ps "cs @ refused p m" ?m] by (auto simp: apply_member_eq)
  next
    case False
    have "bindings ?m h = Some k"
      using pinned_grows [of m p] Cons.prems(1) by (simp add: frame_simps map_le_def dom_def)
    with False Cons show ?thesis by (simp add: apply_member_eq)
  qed
qed simp

lemma dedupe_of_free: "\<not> taken n \<Longrightarrow> dedupe n i taken = n"
  by (simp add: dedupe_def)

lemma remove_member_gone: "\<not> is_member (snd (remove_member i m)) i"
  by (auto simp: is_member_iff frame_simps)

lemma find_member_mem: "find_member x m q = Some p \<Longrightarrow> p \<in> set (members m)"
  by (auto simp: find_member_def Let_def split: option.splits if_splits dest!: find_Some_mem)

lemma hostname_of_bind:
  assumes "is_member m i"
  shows "hostname_of (bind i h m) i = Some h"
proof -
  have "List.find (\<lambda>p. mid p = i) (update_first (\<lambda>p. mid p = i) (\<lambda>p. p\<lparr>hostname := Some h\<rparr>) ps)
      = map_option (\<lambda>p. p\<lparr>hostname := Some h\<rparr>) (List.find (\<lambda>p. mid p = i) ps)" for ps :: "member list"
    by (induction ps) auto
  with assms show ?thesis by (auto simp: hostname_of_def member_of_def bind_def is_member_def)
qed

lemma is_member_claim [simp]: "is_member (snd (claim_hostname c r f m)) i \<longleftrightarrow> is_member m i"
proof -
  have "map mid (members (snd (claim_hostname c r f m))) = map mid (members m)"
    by (simp add: claim_hostname_def Let_def bind_def release_def split: sum.split)
  then show ?thesis by (metis is_member_iff set_map)
qed

subsection \<open>Stored invites\<close>

lemma deserialize_stored:
  assumes "\<And>t. t \<in> set (map fst tbl) \<Longrightarrow> hex_decode x (hex_encode x t) = Some t \<and> length t = 16"
    and "keys_distinct (out @ tbl)"
  shows "deserialize_from x (map (\<lambda>(t, i). StoredInvite (hex_encode x t) i) tbl) out = Inr (out @ tbl)"
  using assms
proof (induction tbl arbitrary: out)
  case (Cons ti tbl)
  obtain t i where ti: "ti = (t, i)" by force
  have "AList.update t i out = out @ [(t, i)]"
    using Cons.prems(2) ti by (intro update_fresh) auto
  moreover have "hex_decode x (hex_encode x t) = Some t" "length t = 16"
    using Cons.prems(1) ti by auto
  ultimately show ?case
    using Cons.IH [of "out @ [(t, i)]"] Cons.prems ti by simp
qed simp

lemma serialize_sorted_tokens:
  "serialize_invites x tbl =
     map (\<lambda>(t, i). StoredInvite (hex_encode x t) i) (sort_key (\<lambda>(t, i). hex_encode x t) tbl)"
proof -
  have ins: "map g (insort_key (\<lambda>p. f (g p)) a xs) = insort_key f (g a) (map g xs)" for f :: "'c \<Rightarrow> 'd :: linorder" and g :: "'b \<Rightarrow> 'c" and a xs
    by (induction xs) auto
  have "map g (sort_key (\<lambda>p. f (g p)) xs) = sort_key f (map g xs)" for f :: "'c \<Rightarrow> 'd :: linorder" and g :: "'b \<Rightarrow> 'c" and xs
    by (induction xs) (simp_all add: ins)
  from this [of "\<lambda>(t, i). (hex_encode x t, i)" fst tbl]
  have "sort_key fst (map (\<lambda>(t, i). (hex_encode x t, i)) tbl) =
      map (\<lambda>(t, i). (hex_encode x t, i)) (sort_key (\<lambda>(t, i). hex_encode x t) tbl)"
    by (simp add: case_prod_beta')
  then show ?thesis by (simp add: serialize_invites_def case_prod_beta')
qed

text \<open>A table that is read back has the entries it had, under distinct tokens.\<close>

lemma stored_invites_back:
  assumes "\<And>t. hex_decode x (hex_encode x t) = Some t" and "\<forall>t \<in> akeys tbl. length t = 16" and "keys_distinct tbl"
  shows "\<exists>out. deserialize_invites x (serialize_invites x tbl) = Inr out \<and> mset out = mset tbl \<and>
    keys_distinct out \<and> map_of out = map_of tbl"
proof -
  let ?sorted = "sort_key (\<lambda>(t, i). hex_encode x t) tbl"
  have same: "mset ?sorted = mset tbl" by simp
  then have set: "set ?sorted = set tbl" by (rule mset_eq_setD)
  have "mset (map fst ?sorted) = mset (map fst tbl)" by simp
  then have d: "keys_distinct ?sorted" using assms(3) by (metis mset_eq_imp_distinct_iff)
  moreover have "deserialize_invites x (serialize_invites x tbl) = Inr ?sorted"
    using deserialize_stored [of ?sorted x "[]"] d assms(1,2) set
    by (simp add: deserialize_invites_def serialize_sorted_tokens)
  moreover have "map_of ?sorted = map_of tbl" using d assms(3) set by (metis map_of_inject_set)
  ultimately show ?thesis using same by blast
qed

lemma legacy_dropped:
  "deserialize_from x (es @ LegacyInvite s # fs) out = deserialize_from x (es @ fs) out"
  by (induction x es out rule: deserialize_from.induct) (auto split: option.split)

subsection \<open>What a query means\<close>

definition labels :: "member \<Rightarrow> rstr set" where
  "labels p = {mid p, fallback (mid p)} \<union> set_option (hostname p)"

definition unambiguous :: "membership \<Rightarrow> bool" where
  "unambiguous m \<longleftrightarrow>
     (\<forall>p \<in> set (members m). \<forall>q \<in> set (members m). p \<noteq> q \<longrightarrow> labels p \<inter> labels q = {})"

definition zone_suffix :: "rstr \<Rightarrow> rstr" where
  "zone_suffix network = [46] @ network_label network @ [46] @ ZONE"

definition bare_query :: "rstr \<Rightarrow> rstr" where
  "bare_query q = ascii_lower (trim_end_matches (\<lambda>c. c = 46) (trim q))"

lemma strip_suffix_foreign: "c \<in> set suf \<Longrightarrow> c \<notin> set n \<Longrightarrow> strip_suffix suf n = None"
  unfolding strip_suffix_def by (metis in_set_dropD)

lemma find_member_by_label:
  assumes "unambiguous m" and "p \<in> set (members m)" and "n \<in> labels p"
  shows "List.find (\<lambda>q. mid q = n \<or> hostname q = Some n \<or> fallback (mid q) = n) (members m) = Some p"
proof -
  have lab: "mid q = n \<or> hostname q = Some n \<or> fallback (mid q) = n \<longleftrightarrow> n \<in> labels q" for q
    by (auto simp: labels_def)
  show ?thesis
    unfolding lab using assms by (intro find_unique) (auto simp: unambiguous_def)
qed

section \<open>What the code does at its edges\<close>

text \<open>
  When every candidate is taken, an unforced claim takes a name that is bound to another key.
\<close>

lemma exhausted_claim_moves_binding:
  assumes "validate r c = Inr w" and "bindings m = (\<lambda>_. Some k)" and "k \<noteq> c"
  shows "\<exists>a. fst (claim_hostname c r False m) = Inr a \<and> bindings m a = Some k \<and>
    bindings (snd (claim_hostname c r False m)) a = Some c"
  using assms by (simp add: claim_hostname_def Let_def bind_def)

text \<open>Creating a network keeps the names bound in the last one, unlike joining and leaving.\<close>

lemma create_keeps_bindings:
  "bindings m h = Some k \<Longrightarrow> host \<noteq> Some h \<Longrightarrow> bindings (create n nm own host m) h = Some k"
  by (cases host) (auto simp: create_def Let_def bind_def)

text \<open>
  A push may name a member like the fallback of another, and the query then finds the former.
\<close>

lemma pushed_name_shadows_fallback:
  "let m = snd (set_roster (lit ''me'') None
       [\<lparr>mid = lit ''eve'', hostname = Some (lit ''0123abcd'')\<rparr>, \<lparr>mid = lit ''0123abcdef'', hostname = None\<rparr>]
       default_membership)
   in fallback (lit ''0123abcdef'') = lit ''0123abcd'' \<and> is_member m (lit ''0123abcdef'') \<and>
      map_option mid (find_member x m (lit ''0123abcd'')) = Some (lit ''eve'')"
  by (simp add: evals Let_def)

section \<open>Properties\<close>

text \<open>
  C2: The roster is consistent in every reachable state. Starting from the empty state, after
  any sequence of the operations of \<open>Membership\<close> (creating, inviting, redeeming, claiming,
  joining, roster pushes, leaving, removing, kicking) no id is listed twice, no two members
  carry the same hostname, every hostname carried is bound to its carrier's key, and every
  pending invite belongs to the current network. The one guard is that a hostname is only
  claimed while fewer than 9999 names are bound or shadowed.
\<close>

theorem roster_consistent:
  assumes "roster_machine.run_ok x default_membership ops"
  shows "let m = foldl (roster_step x) default_membership ops in
    distinct (map mid (members m)) \<and>
    (\<forall>p \<in> set (members m). \<forall>q \<in> set (members m).
       hostname p \<noteq> None \<longrightarrow> hostname p = hostname q \<longrightarrow> p = q) \<and>
    (\<forall>p \<in> set (members m). \<forall>h. hostname p = Some h \<longrightarrow> bindings m h = Some (mid p)) \<and>
    (\<forall>i \<in> avalues (pending_invites m). inv_network_id i = network_id m)"
proof -
  let ?m = "foldl (roster_step x) default_membership ops"
  have inv: "roster_inv ?m" by (rule roster_machine.run_inv [OF roster_inv_default assms])
  have "p = q" if "p \<in> set (members ?m)" "q \<in> set (members ?m)" "hostname p \<noteq> None" "hostname p = hostname q"
    for p q using that unique_hostname [OF inv, of p q] by auto
  moreover note bound_hostname [OF inv]
  ultimately show ?thesis using inv unfolding roster_inv_def Let_def by blast
qed

text \<open>
  C3: An invite is spent for good. Once a token has been presented, or its network has been
  left, replaced by a new one or joined over, no sequence of operations that does not mint the
  same token again lets it admit anyone: redeeming it is refused and changes nothing.
\<close>

theorem closed_invite_never_redeems:
  assumes "closes t op" and "\<not> list_ex (mints t) ops"
  shows "redeem_invite t r now (foldl (roster_step x) (roster_step x m op) ops) =
    (False, foldl (roster_step x) (roster_step x m op) ops)"
  by (rule absent_refused) (rule unminted_stays_absent [OF closes_absent [OF assms(1)] assms(2)])

text \<open>
  A live invite works exactly until its window closes. After it was minted in a network,
  and whatever else happened that neither changed the network nor presented or re-minted that
  token nor read the clock past the window, redeeming it succeeds if and only if the clock is
  before \<open>now + ttl\<close>, and a success makes the bearer a member.
\<close>

theorem invite_redeems_until_expiry:
  assumes "roster_inv m" and "network_id m = Some n" and "list_all (keeps t (now + ttl)) ops"
  shows "let m' = foldl (roster_step x) (snd (generate_invite x t own ttl now m)) ops in
    (fst (redeem_invite t r later m') \<longleftrightarrow> later < now + ttl) \<and>
    (later < now + ttl \<longrightarrow> is_member (snd (redeem_invite t r later m')) r)"
proof -
  let ?i = "\<lparr>inv_network_id = network_id m, inv_expires_at = now + ttl\<rparr>"
  have "keys_distinct (pending_invites m)" using assms(1) by (simp add: roster_inv_def)
  then have "outstanding t ?i (foldl (roster_step x) (snd (generate_invite x t own ttl now m)) ops)"
    using assms(3) by (intro keeps_all_outstanding generated_outstanding) simp_all
  from redeem_outstanding [OF this, of r later] show ?thesis using assms(2) by (simp add: Let_def)
qed

text \<open>
  C17: A pushed roster never redirects a name. After any push, a name bound to a key is still
  bound to it, no member with another key carries it, and an entry that gave it to another key
  is reported as a conflict.
\<close>

theorem push_never_rebinds:
  assumes "roster_inv m" and "bindings m h = Some k"
  shows "let (conflicts, m') = set_roster own nm ps m in
    bindings m' h = Some k \<and>
    (\<forall>p \<in> set (members m'). hostname p = Some h \<longrightarrow> mid p = k) \<and>
    (\<forall>i. i \<noteq> k \<longrightarrow> \<lparr>mid = i, hostname = Some h\<rparr> \<in> set ps \<longrightarrow> (h, fallback k, fallback i) \<in> set conflicts)"
proof -
  obtain cs m' where push: "set_roster own nm ps m = (cs, m')" by force
  define base where "base = (if nm \<noteq> None then m\<lparr>network_name := nm\<rparr> else m)\<lparr>members := []\<rparr>"
  have base: "bindings base h = Some k" and eq: "(cs, m') = apply_roster own ps base"
    using assms(2) push by (simp_all add: base_def set_roster_def)
  have kept: "bindings m' h = Some k"
    using apply_roster_frame [of base own ps] base eq
    by (metis domI map_le_def snd_conv)
  have inv: "roster_inv m'" using set_roster_inv [OF assms(1), of own nm ps] push by simp
  have "mid p = k" if "p \<in> set (members m')" "hostname p = Some h" for p
    using bound_hostname [OF inv that] kept by simp
  moreover have "(h, fallback k, fallback i) \<in> set cs"
    if "i \<noteq> k" "\<lparr>mid = i, hostname = Some h\<rparr> \<in> set ps" for i
    using refused_entry [OF base that(2,1), of "[]"] eq by (simp add: apply_roster_eq)
  ultimately show ?thesis using push kept by simp
qed

text \<open>
  A pushed roster lists exactly the pushed ids, this node and the coordinator: a malformed
  push can neither evict us nor the coordinator, and it adds nobody else.
\<close>

lemma push_lists_exactly:
  "is_member (snd (set_roster own nm ps m)) i \<longleftrightarrow>
     i \<in> mid ` set ps \<or> i = own \<or> coordinator_id m = Some i"
proof -
  define base where "base = (if nm \<noteq> None then m\<lparr>network_name := nm\<rparr> else m)\<lparr>members := []\<rparr>"
  have "coordinator_id base = coordinator_id m" "members base = []" by (simp_all add: base_def)
  moreover have eq: "set_roster own nm ps m = apply_roster own ps base"
    by (simp only: set_roster_def base_def)
  ultimately show ?thesis
    using apply_roster_frame [of base own ps] unfolding eq is_member_iff by auto
qed

text \<open>
  C18: A hostname claim gives the claimant a name nobody else holds. When it succeeds, the name
  is the requested one, normalised, unless that was spoken for, it was free of any other
  key's binding and of any other member's fallback, it is bound to the claimant and shown in
  its entry; and every binding of another name stays as it was. Without \<open>force\<close> no binding
  moves to another key.
\<close>

theorem claim_assigns_free_name:
  assumes "roster_inv m" and "room m" and "fst (claim_hostname c r force m) = Inr a"
  shows "let m' = snd (claim_hostname c r force m); w = ascii_lower (trim r) in
    bindings m' a = Some c \<and> (is_member m c \<longrightarrow> hostname_of m' c = Some a) \<and>
    \<not> spoken_for (before_claim w force m) a c \<and>
    (\<not> spoken_for (before_claim w force m) w c \<longrightarrow> a = w) \<and>
    (\<forall>h. h \<noteq> a \<longrightarrow> h \<noteq> w \<or> \<not> force \<longrightarrow> bindings m' h = bindings m h) \<and>
    (\<not> force \<longrightarrow> bindings m \<subseteq>\<^sub>m bindings m')"
proof -
  obtain w where w: "validate r c = Inr w" "a = dedupe w c (\<lambda>n. spoken_for (before_claim w force m) n c)"
    "snd (claim_hostname c r force m) = bind c a (before_claim w force m)"
    by (rule claim_hostname_Inr [OF assms(3)])
  have "w = ascii_lower (trim r)" using w(1) by (simp add: validate_Inr_iff)
  moreover have "\<not> spoken_for (before_claim w force m) a c"
    by (rule claimed_name_free [OF assms(1,2) w(1,2)])
  moreover from this have "bindings (before_claim w force m) a = None \<or> bindings (before_claim w force m) a = Some c"
    by (rule not_spoken_for_binding)
  moreover have "\<not> spoken_for (before_claim w force m) w c \<longrightarrow> a = w"
    unfolding w(2) by (simp add: dedupe_of_free)
  moreover have "is_member (before_claim w force m) c = is_member m c"
    by (simp add: before_claim_def release_def is_member_iff flip: set_map)
  ultimately show ?thesis
    using w(3) hostname_of_bind [of "before_claim w force m" c a]
    by (auto simp: Let_def bind_def before_claim_def release_def map_le_def dom_def)
qed

text \<open>
  A kick removes exactly the member that was meant. It is refused for a query that finds
  nobody and for this node itself, and then changes nothing; otherwise the member found is gone,
  every other member stays as it is, and the name it held stays reserved: nobody else can
  claim it and no roster push can give it away.
\<close>

theorem kick_removes_exactly_one:
  assumes "roster_inv m"
  shows "case kick x q own m of
      (Inl e, m') \<Rightarrow> m' = m \<and> (find_member x m q = None \<or> is_member m own)
    | (Inr p, m') \<Rightarrow> find_member x m q = Some p \<and> p \<in> set (members m) \<and> mid p \<noteq> own \<and>
        set (members m') = set (members m) - {p} \<and> bindings m' = bindings m \<and>
        (\<forall>h c. hostname p = Some h \<longrightarrow> c \<noteq> mid p \<longrightarrow> spoken_for m' h c)"
proof (cases "find_member x m q")
  case (Some p)
  have p: "p \<in> set (members m)" using Some by (rule find_member_mem)
  have "mid y \<noteq> mid p \<longleftrightarrow> y \<noteq> p" if "y \<in> set (members m)" for y
    using assms p that by (auto simp: roster_inv_def distinct_map inj_on_def)
  then have "{y \<in> set (members m). mid y \<noteq> mid p} = set (members m) - {p}" by blast
  then show ?thesis
    using Some p bound_hostname [OF assms p]
    by (auto simp: kick_def frame_simps spoken_for_def is_member_iff split: option.splits)
qed (simp add: kick_def)

text \<open>
  An invite code carries the coordinator's id and the token: what \<open>generate_invite\<close>
  produces, \<open>decode_invite\<close> takes apart again, for 32-byte keys and the 16-byte tokens
  the code draws.
\<close>

lemma invite_code_roundtrip:
  assumes "\<And>bs. b58_decode x (b58_encode x bs) = Some bs"
    and "id_from_bytes x (as_bytes own) = Some own"
    and "length (as_bytes own) = 32" and "length t = 16"
  shows "decode_invite x (fst (fst (generate_invite x t own ttl now m))) = Inr (own, t)"
  using assms by (simp add: decode_invite_def generate_invite_def Let_def)

text \<open>
  The invite table survives being stored. Reading back what was written, whatever entries
  of the old kind stand in between, gives a table with the same invite under every token,
  for 16-byte tokens and a hex decoder that undoes the encoder.
\<close>

theorem stored_invites_roundtrip:
  assumes "\<And>t. hex_decode x (hex_encode x t) = Some t"
    and "\<forall>t \<in> akeys tbl. length t = 16" and "keys_distinct tbl"
  shows "\<exists>out. deserialize_invites x (serialize_invites x tbl) = Inr out \<and> map_of out = map_of tbl \<and>
    deserialize_invites x (LegacyInvite s # serialize_invites x tbl) = Inr out"
proof -
  obtain out where "deserialize_invites x (serialize_invites x tbl) = Inr out" "map_of out = map_of tbl"
    using stored_invites_back [OF assms] by blast
  then show ?thesis by (auto simp: deserialize_invites_def)
qed

text \<open>
  A member is found by every name \<open>status\<close> shows for it. Where no two members share an id,
  a hostname or a fallback, a query that is one of a member's names, in any case, surrounded by
  white space, followed by dots, bare or under the network's zone, finds that member.
\<close>

theorem find_member_by_any_name:
  assumes "unambiguous m" and "p \<in> set (members m)" and "n \<in> labels p"
    and "n \<noteq> []" and "\<forall>c \<in> set n. hostname_char c"
    and "parse_ip (trim q) = None"
    and "bare_query q = n \<or> (\<exists>w. network_name m = Some w \<and> bare_query q = n @ zone_suffix w)"
  shows "find_member x m q = Some p"
proof -
  have "46 \<notin> set n" using assms(5) by (auto simp: hostname_char_def char_defs)
  then have foreign: "strip_suffix (zone_suffix w) n = None" for w
    by (rule strip_suffix_foreign [rotated]) (simp add: zone_suffix_def)
  define name where "name = (case network_name m of None \<Rightarrow> bare_query q
    | Some w \<Rightarrow> (case strip_suffix (zone_suffix w) (bare_query q) of Some b \<Rightarrow> b | None \<Rightarrow> bare_query q))"
  have "name = n"
    using assms(7) foreign by (auto simp: name_def strip_suffix_append split: option.split)
  moreover have "find_member x m q = (if name = [] then None
      else List.find (\<lambda>p. mid p = name \<or> hostname p = Some name \<or> fallback (mid p) = name) (members m))"
    by (simp only: find_member_def assms(6) name_def bare_query_def zone_suffix_def Let_def option.case)
  ultimately show ?thesis
    using assms(4) find_member_by_label [OF assms(1-3)] by simp
qed

section \<open>Witnesses\<close>

text \<open>A small network: a coordinator named \<open>web\<close> and a member that claimed the same name.\<close>

definition demo_ops :: "roster_op list" where
  "demo_ops =
     [Create (lit ''n1'') (lit ''home'') (lit ''coord'') (Some (lit ''web'')),
      GenerateInvite [7] (Eid []) 30 100, RedeemInvite [7] (lit ''peer'') 110,
      ClaimHostname (lit ''peer'') (lit ''web'') False]"

definition demo :: membership where
  "demo =
     \<lparr>network_name = Some (lit ''home''), coordinator_id = Some (lit ''coord''), network_id = Some (lit ''n1''),
      members = [\<lparr>mid = lit ''coord'', hostname = Some (lit ''web'')\<rparr>,
                 \<lparr>mid = lit ''peer'', hostname = Some (lit ''web-1'')\<rparr>],
      pending_invites = [], bindings = [lit ''web'' \<mapsto> lit ''coord'', lit ''web-1'' \<mapsto> lit ''peer'']\<rparr>"

lemma demo_inv: "roster_inv demo"
  by (auto simp: demo_def roster_inv_def hostnames_bound_def lit_def)

lemma demo_room: "room demo"
  by (simp add: demo_def room_def MAX_SUFFIX_def lit_def card_insert_if)

lemma demo_ops_ok: "roster_machine.run_ok x default_membership demo_ops"
  by (simp add: demo_ops_def roster_step_def roster_ok_def evals Let_def room_def)

theorem roster_consistent_witness:
  "let m = foldl (roster_step plain_externs) default_membership demo_ops in
    distinct (map mid (members m)) \<and> members m = members demo \<and>
    (\<forall>p \<in> set (members m). \<forall>h. hostname p = Some h \<longrightarrow> bindings m h = Some (mid p))"
proof -
  have "members (foldl (roster_step plain_externs) default_membership demo_ops) = members demo"
    by (simp add: demo_ops_def demo_def roster_step_def evals Let_def dedupe_from.simps [of _ _ "Suc 0"])
  then show ?thesis
    using roster_consistent [OF demo_ops_ok [of plain_externs]] by (simp add: Let_def)
qed

theorem closed_invite_never_redeems_witness:
  "fst (redeem_invite [7] (lit ''late'') 115 (foldl (roster_step plain_externs) default_membership demo_ops)) = False"
proof -
  have "foldl (roster_step plain_externs) default_membership demo_ops =
      foldl (roster_step plain_externs)
        (roster_step plain_externs
          (foldl (roster_step plain_externs) default_membership (take 2 demo_ops)) (RedeemInvite [7] (lit ''peer'') 110))
        [ClaimHostname (lit ''peer'') (lit ''web'') False]"
    by (simp add: demo_ops_def)
  then show ?thesis
    using closed_invite_never_redeems [of "[7]" "RedeemInvite [7] (lit ''peer'') 110"
        "[ClaimHostname (lit ''peer'') (lit ''web'') False]" "lit ''late''" 115 plain_externs]
    by (simp add: closes_def mints_def)
qed

theorem invite_redeems_until_expiry_witness:
  "let m = foldl (roster_step plain_externs) (snd (generate_invite plain_externs [9] (Eid []) 30 200 demo))
     [RedeemInvite [8] (lit ''other'') 210, Kick (lit ''peer'') (lit ''coord'')]
   in fst (redeem_invite [9] (lit ''late'') 229 m) \<and> \<not> fst (redeem_invite [9] (lit ''late'') 230 m)"
  using invite_redeems_until_expiry [OF demo_inv, of "lit ''n1''" "[9]" 200 30
      "[RedeemInvite [8] (lit ''other'') 210, Kick (lit ''peer'') (lit ''coord'')]" plain_externs "Eid []" "lit ''late''" 229]
    invite_redeems_until_expiry [OF demo_inv, of "lit ''n1''" "[9]" 200 30
      "[RedeemInvite [8] (lit ''other'') 210, Kick (lit ''peer'') (lit ''coord'')]" plain_externs "Eid []" "lit ''late''" 230]
  by (simp add: Let_def keeps_def demo_def)

theorem push_never_rebinds_witness:
  "bindings (snd (set_roster (lit ''peer'') None [\<lparr>mid = lit ''eve'', hostname = Some (lit ''web'')\<rparr>] demo))
     (lit ''web'') = Some (lit ''coord'') \<and>
   fst (set_roster (lit ''peer'') None [\<lparr>mid = lit ''eve'', hostname = Some (lit ''web'')\<rparr>] demo) \<noteq> []"
proof -
  have b: "bindings demo (lit ''web'') = Some (lit ''coord'')" by (simp add: demo_def lit_def)
  show ?thesis
    using push_never_rebinds [OF demo_inv b, of "lit ''peer''" None "[\<lparr>mid = lit ''eve'', hostname = Some (lit ''web'')\<rparr>]"]
    by (auto simp: lit_def split: prod.splits)
qed

theorem claim_assigns_free_name_witness:
  "bindings (snd (claim_hostname (lit ''third'') (lit ''WEB'') False demo)) (lit ''web-2'') = Some (lit ''third'')"
proof -
  have "fst (claim_hostname (lit ''third'') (lit ''WEB'') False demo) = Inr (lit ''web-2'')"
    by (simp add: demo_def evals Let_def dedupe_from.simps [of _ _ "Suc 0"] dedupe_from.simps [of _ _ "Suc (Suc 0)"])
  from claim_assigns_free_name [OF demo_inv demo_room this] show ?thesis by (simp add: Let_def)
qed

theorem kick_removes_exactly_one_witness:
  "spoken_for (snd (kick plain_externs (lit ''web-1.home.quix'') (lit ''coord'') demo)) (lit ''web-1'') (lit ''third'')"
proof -
  have "kick plain_externs (lit ''web-1.home.quix'') (lit ''coord'') demo =
      (Inr \<lparr>mid = lit ''peer'', hostname = Some (lit ''web-1'')\<rparr>,
       snd (remove_member (lit ''peer'') demo))"
    by (simp add: demo_def evals Let_def)
  then show ?thesis
    using kick_removes_exactly_one [OF demo_inv, of plain_externs "lit ''web-1.home.quix''" "lit ''coord''"]
    by (simp add: lit_def)
qed

theorem stored_invites_roundtrip_witness:
  "\<exists>out. deserialize_invites plain_externs (serialize_invites plain_externs
       [(replicate 16 2, \<lparr>inv_network_id = Some (lit ''n''), inv_expires_at = 5\<rparr>),
        (replicate 16 1, \<lparr>inv_network_id = Some (lit ''n''), inv_expires_at = 6\<rparr>)]) = Inr out \<and>
     map_of out (replicate 16 1) = Some \<lparr>inv_network_id = Some (lit ''n''), inv_expires_at = 6\<rparr>"
proof -
  let ?tbl = "[(replicate 16 2 :: token, \<lparr>inv_network_id = Some (lit ''n''), inv_expires_at = 5\<rparr>),
        (replicate 16 1, \<lparr>inv_network_id = Some (lit ''n''), inv_expires_at = 6\<rparr>)]"
  have "map_of ?tbl (replicate 16 1) = Some \<lparr>inv_network_id = Some (lit ''n''), inv_expires_at = 6\<rparr>"
    by (simp add: numeral_eq_Suc)
  moreover have "keys_distinct ?tbl" "\<forall>t \<in> akeys ?tbl. length t = 16" by (simp_all add: numeral_eq_Suc)
  ultimately show ?thesis
    using stored_invites_roundtrip [of plain_externs ?tbl "[]"] by force
qed

theorem find_member_by_any_name_witness:
  "map_option mid (find_member plain_externs demo (lit ''Web-1.home.quix.'')) = Some (lit ''peer'')"
proof -
  have "unambiguous demo" by (simp add: unambiguous_def labels_def demo_def evals)
  moreover have "parse_ip (trim (lit ''Web-1.home.quix.'')) = None"
    "bare_query (lit ''Web-1.home.quix.'') = lit ''web-1'' @ zone_suffix (lit ''home'')"
    by (simp_all add: bare_query_def zone_suffix_def evals Let_def)
  moreover have "\<forall>c \<in> set (lit ''web-1''). hostname_char c" by (simp add: evals)
  ultimately show ?thesis
    using find_member_by_any_name [of demo "\<lparr>mid = lit ''peer'', hostname = Some (lit ''web-1'')\<rparr>"
        "lit ''web-1''" "lit ''Web-1.home.quix.''" plain_externs]
    by (simp add: demo_def labels_def lit_def)
qed

end
