(* ===== verification/Peers.thy ===== *)
theory Peers
  imports Addr
begin

text \<open>
  \<open>daemon/src/peers.rs\<close>: the forwarding state, which overlay address belongs to which peer
  and which peers have a live link. A connection is a number standing for its identity, and
  closing one is an effect \<open>Close\<close> the operation returns. Each operation holds the lock for
  its whole body, so it is one step here. The order of an association list stands for a hash
  map's iteration order.
\<close>

section \<open>State and operations\<close>

type_synonym conn = nat

datatype effect = Close conn nat

definition CLOSE_LEFT :: nat where "CLOSE_LEFT = 3"

definition CLOSE_REMOVED :: nat where "CLOSE_REMOVED = 4"

record peers =
  links :: "(eid \<times> conn) list"
  routes :: "(ipaddr \<times> eid) list"

definition no_peers :: peers where
  "no_peers = \<lparr>links = [], routes = []\<rparr>"

definition departed :: "eid list \<Rightarrow> eid list \<Rightarrow> eid list" where
  "departed linked ms = filter (\<lambda>i. i \<notin> set ms) linked"

definition routes_of :: "externs \<Rightarrow> eid list \<Rightarrow> (ipaddr \<times> eid) list" where
  "routes_of x ms =
     fold (\<lambda>i rs. case addrs_of x i of (v4, v6) \<Rightarrow> AList.update (V6 v6) i (AList.update (V4 v4) i rs)) ms []"

definition drop_link :: "eid \<Rightarrow> peers \<times> effect list \<Rightarrow> peers \<times> effect list" where
  "drop_link i s =
     (case s of (p, fx) \<Rightarrow>
        (case map_of (links p) i of
           None \<Rightarrow> (p, fx)
         | Some c \<Rightarrow> (p\<lparr>links := AList.delete i (links p)\<rparr>, fx @ [Close c CLOSE_REMOVED])))"

definition set_routes :: "externs \<Rightarrow> eid list \<Rightarrow> peers \<Rightarrow> peers \<times> effect list" where
  "set_routes x members p =
     (let ms = remdups members;
          p = p\<lparr>routes := routes_of x ms\<rparr>
      in fold drop_link (departed (map fst (links p)) ms) (p, []))"

definition routed_addrs :: "peers \<Rightarrow> ipaddr set" where
  "routed_addrs p = akeys (routes p)"

definition register :: "eid \<Rightarrow> conn \<Rightarrow> peers \<Rightarrow> bool \<times> peers" where
  "register i c p =
     (case map_of (links p) i of
        Some _ \<Rightarrow> (False, p)
      | None \<Rightarrow> (True, p\<lparr>links := AList.update i c (links p)\<rparr>))"

definition unregister :: "eid \<Rightarrow> peers \<Rightarrow> peers" where
  "unregister i p = p\<lparr>links := AList.delete i (links p)\<rparr>"

definition close_all :: "peers \<Rightarrow> peers \<times> effect list" where
  "close_all p = (p\<lparr>links := []\<rparr>, map (\<lambda>(_, c). Close c CLOSE_LEFT) (links p))"

definition route :: "peers \<Rightarrow> ipaddr \<Rightarrow> eid option" where
  "route p dst = map_of (routes p) dst"

definition link :: "peers \<Rightarrow> eid \<Rightarrow> conn option" where
  "link p i = map_of (links p) i"

text \<open>\<open>Vec::dedup\<close> drops repeated neighbours.\<close>

definition unlinked :: "peers \<Rightarrow> eid list" where
  "unlinked p = remdups_adj (sort (filter (\<lambda>i. map_of (links p) i = None) (map snd (routes p))))"

record peer_row =
  row_id :: eid
  row_v4 :: ipv4
  row_v6 :: ipv6
  linked :: bool
  datagram_max :: "nat option"

definition new_row :: "(conn \<Rightarrow> nat option) \<Rightarrow> peers \<Rightarrow> eid \<Rightarrow> peer_row" where
  "new_row max_datagram p i =
     \<lparr>row_id = i, row_v4 = ipv4_unspecified, row_v6 = ipv6_unspecified,
      linked = (link p i \<noteq> None), datagram_max = Option.bind (link p i) max_datagram\<rparr>"

definition set_row_addr :: "ipaddr \<Rightarrow> peer_row \<Rightarrow> peer_row" where
  "set_row_addr a r = (case a of V4 v4 \<Rightarrow> r\<lparr>row_v4 := v4\<rparr> | V6 v6 \<Rightarrow> r\<lparr>row_v6 := v6\<rparr>)"

definition add_route_row ::
    "(conn \<Rightarrow> nat option) \<Rightarrow> peers \<Rightarrow> ipaddr \<times> eid \<Rightarrow> (eid \<times> peer_row) list \<Rightarrow> (eid \<times> peer_row) list" where
  "add_route_row max_datagram p r rows =
     (case r of (a, i) \<Rightarrow>
        let row = (case map_of rows i of Some row \<Rightarrow> row | None \<Rightarrow> new_row max_datagram p i)
        in AList.update i (set_row_addr a row) rows)"

definition snapshot :: "(conn \<Rightarrow> nat option) \<Rightarrow> peers \<Rightarrow> peer_row list" where
  "snapshot max_datagram p =
     sort_key row_v6 (map snd (fold (add_route_row max_datagram p) (routes p) []))"

lemmas peers_evals [evals] = no_peers_def departed_def routes_of_def drop_link_def set_routes_def
  register_def unregister_def close_all_def route_def link_def unlinked_def CLOSE_LEFT_def CLOSE_REMOVED_def

section \<open>Lemmas\<close>

definition peers_inv :: "peers \<Rightarrow> bool" where
  "peers_inv p \<longleftrightarrow> keys_distinct (links p) \<and> keys_distinct (routes p)"

lemma routes_of_distinct: "keys_distinct (routes_of x ms)"
proof -
  have "keys_distinct rs \<Longrightarrow> keys_distinct (fold (\<lambda>i rs. case addrs_of x i of (v4, v6) \<Rightarrow>
      AList.update (V6 v6) i (AList.update (V4 v4) i rs)) ms rs)" for rs
    by (induction ms arbitrary: rs) (auto simp: virtual_addrs_def intro!: keys_distinct_update)
  then show ?thesis by (simp add: routes_of_def)
qed

definition overlay :: "externs \<Rightarrow> eid \<Rightarrow> ipaddr set" where
  "overlay x i = {V4 (fst (addrs_of x i)), V6 (snd (addrs_of x i))}"

definition collision_free :: "externs \<Rightarrow> eid list \<Rightarrow> bool" where
  "collision_free x ms \<longleftrightarrow> (\<forall>i \<in> set ms. \<forall>j \<in> set ms. i \<noteq> j \<longrightarrow> overlay x i \<inter> overlay x j = {})"

lemma routes_of_snoc:
  "map_of (routes_of x (ms @ [i])) a = (if a \<in> overlay x i then Some i else map_of (routes_of x ms) a)"
  by (auto simp: routes_of_def map_of_aupdate overlay_def split: prod.split)

text \<open>A route leads to a member that owns the address, and every member's address has one.\<close>

lemma routes_of_sound: "map_of (routes_of x ms) a = Some i \<Longrightarrow> i \<in> set ms \<and> a \<in> overlay x i"
proof (induction ms rule: rev_induct)
  case Nil
  then show ?case by (simp add: routes_of_def)
qed (auto simp: routes_of_snoc split: if_splits)

lemma routes_of_complete: "i \<in> set ms \<Longrightarrow> a \<in> overlay x i \<Longrightarrow> map_of (routes_of x ms) a \<noteq> None"
  by (induction ms rule: rev_induct) (auto simp: routes_of_snoc)

lemma routes_of_exact:
  assumes "collision_free x ms"
  shows "map_of (routes_of x ms) a = Some i \<longleftrightarrow> i \<in> set ms \<and> a \<in> overlay x i"
proof
  assume i: "i \<in> set ms \<and> a \<in> overlay x i"
  then obtain j where j: "map_of (routes_of x ms) a = Some j" using routes_of_complete [of i ms a x] by blast
  with routes_of_sound [OF j] i assms have "j = i" by (auto simp: collision_free_def)
  with j show "map_of (routes_of x ms) a = Some i" by simp
qed (rule routes_of_sound)

text \<open>What dropping a list of links leaves and closes.\<close>

lemma drop_links:
  assumes "keys_distinct (links p)" and "distinct is" and "set is \<subseteq> akeys (links p)"
  shows "fold drop_link is (p, fx) =
     (p\<lparr>links := retain (\<lambda>i _. i \<notin> set is) (links p)\<rparr>,
      fx @ map (\<lambda>i. Close (the (map_of (links p) i)) CLOSE_REMOVED) is)"
  using assms
proof (induction "is" arbitrary: p fx)
  case Nil
  then show ?case by (simp add: retain_def)
next
  case (Cons i "is")
  let ?p = "p\<lparr>links := AList.delete i (links p)\<rparr>"
  obtain c where c: "map_of (links p) i = Some c"
    using Cons.prems(3) by (metis insert_subset list.simps(15) map_of_eq_None_iff not_Some_eq)
  have "fold drop_link is (?p, fx @ [Close c CLOSE_REMOVED]) =
      (?p\<lparr>links := retain (\<lambda>i _. i \<notin> set is) (links ?p)\<rparr>,
       (fx @ [Close c CLOSE_REMOVED]) @ map (\<lambda>i. Close (the (map_of (links ?p) i)) CLOSE_REMOVED) is)"
    using Cons.prems by (intro Cons.IH) (auto simp: akeys_delete simp del: fst_conv intro: keys_distinct_delete)
  moreover have "retain (\<lambda>i _. i \<notin> set is) (AList.delete i (links p)) = retain (\<lambda>k _. k \<notin> set (i # is)) (links p)"
    by (auto simp: retain_def AList.delete_eq intro!: filter_cong)
  moreover have "map (\<lambda>k. Close (the (map_of (AList.delete i (links p)) k)) CLOSE_REMOVED) is =
      map (\<lambda>k. Close (the (map_of (links p) k)) CLOSE_REMOVED) is"
    using Cons.prems(2) by (auto simp: map_of_adelete)
  moreover have "drop_link i (p, fx) = (?p, fx @ [Close c CLOSE_REMOVED])"
    using c by (simp add: drop_link_def)
  ultimately show ?case using c by simp
qed

lemma set_routes_eq:
  assumes "keys_distinct (links p)"
  shows "set_routes x ms p =
     (\<lparr>links = retain (\<lambda>i _. i \<in> set ms) (links p), routes = routes_of x (remdups ms)\<rparr>,
      map (\<lambda>i. Close (the (map_of (links p) i)) CLOSE_REMOVED) (departed (map fst (links p)) (remdups ms)))"
proof -
  let ?gone = "departed (map fst (links p)) (remdups ms)"
  have "distinct ?gone" "set ?gone \<subseteq> akeys (links p)" using assms by (auto simp: departed_def)
  moreover have "retain (\<lambda>i _. i \<notin> set ?gone) (links p) = retain (\<lambda>i _. i \<in> set ms) (links p)"
    by (force simp: retain_def departed_def intro!: filter_cong)
  ultimately show ?thesis
    using drop_links [of "p\<lparr>routes := routes_of x (remdups ms)\<rparr>" ?gone "[]"] assms
    by (simp add: set_routes_def Let_def)
qed

lemma set_routes_inv [inv_intros]: "peers_inv p \<Longrightarrow> peers_inv (fst (set_routes x ms p))"
  by (simp add: peers_inv_def set_routes_eq routes_of_distinct keys_distinct_retain)

lemma register_inv [inv_intros]: "peers_inv p \<Longrightarrow> peers_inv (snd (register i c p))"
  by (auto simp: peers_inv_def register_def intro: keys_distinct_update split: option.split)

lemma unregister_inv [inv_intros]: "peers_inv p \<Longrightarrow> peers_inv (unregister i p)"
  by (simp add: peers_inv_def unregister_def keys_distinct_delete)

lemma close_all_inv [inv_intros]: "peers_inv p \<Longrightarrow> peers_inv (fst (close_all p))"
  by (simp add: peers_inv_def close_all_def)

lemma no_peers_inv [inv_intros]: "peers_inv no_peers"
  by (simp add: peers_inv_def no_peers_def)

section \<open>The table as a machine\<close>

datatype peers_op = SetRoutes "eid list" | Register eid conn | Unregister eid | CloseAll

definition peers_step :: "externs \<Rightarrow> peers \<Rightarrow> peers_op \<Rightarrow> peers" where
  "peers_step x p op =
     (case op of
        SetRoutes ms \<Rightarrow> fst (set_routes x ms p)
      | Register i c \<Rightarrow> snd (register i c p)
      | Unregister i \<Rightarrow> unregister i p
      | CloseAll \<Rightarrow> fst (close_all p))"

interpretation peers_machine: safe_machine "peers_step x" "\<lambda>_ _. True" peers_inv for x
  by unfold_locales (auto simp: peers_step_def intro: inv_intros split: peers_op.split)

lemma reachable_inv: "peers_inv (foldl (peers_step x) no_peers ops)"
  by (rule peers_machine.run_inv_total) (rule TrueI, rule no_peers_inv)

text \<open>A roster evicts the links of everyone outside it.\<close>

interpretation link_table: roster_bound "\<lambda>ms p. fst (set_routes x ms p)" "\<lambda>i. i" "\<lambda>p. akeys (links p)" peers_inv for x
proof
  fix ms :: "eid list" and p assume p: "peers_inv p"
  then have "keys_distinct (links p)" by (simp add: peers_inv_def)
  then show "akeys (links (fst (set_routes x ms p))) = akeys (links p) \<inter> (\<lambda>i. i) ` set ms"
    by (force simp: set_routes_eq set_retain)
  from p show "peers_inv (fst (set_routes x ms p))" by (rule set_routes_inv)
qed

section \<open>Snapshot and work queue\<close>

lemma set_unlinked: "set (unlinked p) = {i \<in> avalues (routes p). link p i = None}"
  by (auto simp: unlinked_def link_def)

lemma sorted_unlinked: "sorted (unlinked p) \<and> distinct (unlinked p)"
proof -
  have "sorted xs \<Longrightarrow> distinct (remdups_adj xs)" for xs :: "eid list"
    by (induction xs rule: remdups_adj.induct) auto
  then show ?thesis by (simp add: unlinked_def)
qed

text \<open>The row of a peer after some routes were folded in: the last address of each family.\<close>

definition row_for :: "(conn \<Rightarrow> nat option) \<Rightarrow> peers \<Rightarrow> (ipaddr \<times> eid) list \<Rightarrow> eid \<Rightarrow> peer_row option" where
  "row_for d p rs i =
     (if i \<in> avalues rs
      then Some (fold set_row_addr (map fst (filter (\<lambda>r. snd r = i) rs)) (new_row d p i)) else None)"

lemma rows_fold:
  "map_of (fold (add_route_row d p) rs []) = row_for d p rs \<and>
   keys_distinct (fold (add_route_row d p) rs [])"
proof (induction rs rule: rev_induct)
  case Nil
  then show ?case by (auto simp: row_for_def)
next
  case (snoc r rs)
  obtain a i where r: "r = (a, i)" by force
  have "filter (\<lambda>r. snd r = i) rs = []" if "i \<notin> avalues rs"
    using that by (auto simp: filter_empty_conv)
  then have "set_row_addr a (case row_for d p rs i of Some row \<Rightarrow> row | None \<Rightarrow> new_row d p i) =
      fold set_row_addr (map fst (filter (\<lambda>r. snd r = i) (rs @ [(a, i)]))) (new_row d p i)"
    by (simp add: row_for_def)
  moreover have "row_for d p (rs @ [(a, i)]) k = row_for d p rs k" if "k \<noteq> i" for k
    using that by (auto simp: row_for_def)
  moreover have "row_for d p (rs @ [(a, i)]) i =
      Some (fold set_row_addr (map fst (filter (\<lambda>r. snd r = i) (rs @ [(a, i)]))) (new_row d p i))"
    by (simp add: row_for_def)
  ultimately show ?case
    using snoc r by (auto simp: add_route_row_def Let_def map_of_aupdate keys_distinct_update)
qed

lemma fold_set_row_addr_frame:
  "row_id (fold set_row_addr as r) = row_id r \<and> linked (fold set_row_addr as r) = linked r \<and>
   datagram_max (fold set_row_addr as r) = datagram_max r"
  by (induction as arbitrary: r) (auto simp: set_row_addr_def split: ipaddr.split)

lemma fold_set_row_addr:
  assumes "set as \<subseteq> {V4 a, V6 b}"
  shows "row_v4 (fold set_row_addr as r) = (if V4 a \<in> set as then a else row_v4 r) \<and>
    row_v6 (fold set_row_addr as r) = (if V6 b \<in> set as then b else row_v6 r)"
  using assms by (induction as arbitrary: r) (auto simp: set_row_addr_def)

lemma routes_of_values:
  assumes "collision_free x ms"
  shows "avalues (routes_of x ms) = set ms"
proof -
  have "i \<in> avalues (routes_of x ms) \<longleftrightarrow> (\<exists>a. map_of (routes_of x ms) a = Some i)" for i
    using routes_of_distinct [of x ms] by (force simp: map_of_mem_iff)
  then show ?thesis using routes_of_exact [OF assms] by (auto simp: overlay_def)
qed

lemma collision_free_remdups [simp]: "collision_free x (remdups ms) = collision_free x ms"
  by (simp add: collision_free_def)

text \<open>The row of a member when the table was derived from a roster without collisions.\<close>

lemma row_of_member:
  assumes "collision_free x ms" and "i \<in> set ms"
  shows "row_for d p (routes_of x ms) i =
    Some \<lparr>row_id = i, row_v4 = fst (addrs_of x i), row_v6 = snd (addrs_of x i),
      linked = (link p i \<noteq> None), datagram_max = Option.bind (link p i) d\<rparr>"
proof -
  let ?as = "map fst (filter (\<lambda>r. snd r = i) (routes_of x ms))"
  have "a \<in> set ?as \<longleftrightarrow> map_of (routes_of x ms) a = Some i" for a
    using routes_of_distinct [of x ms] by (force simp: map_of_mem_iff)
  then have as: "set ?as = overlay x i" using routes_of_exact [OF assms(1)] assms(2) by auto
  then have "row_v4 (fold set_row_addr ?as r) = fst (addrs_of x i)"
      "row_v6 (fold set_row_addr ?as r) = snd (addrs_of x i)" for r
    using fold_set_row_addr [of ?as "fst (addrs_of x i)" "snd (addrs_of x i)" r] by (auto simp: overlay_def)
  moreover have "i \<in> avalues (routes_of x ms)" using routes_of_values [OF assms(1)] assms(2) by simp
  ultimately show ?thesis
    using fold_set_row_addr_frame [of ?as "new_row d p i"]
    by (simp add: row_for_def new_row_def)
qed

section \<open>Properties\<close>

text \<open>
  Adopting a roster leaves exactly its members routed and linked. In every reachable state,
  a link survives if and only if its peer is in the roster and every other link is closed with
  the code for a removed peer, nothing else being closed; every route leads to a member that
  owns the address, both addresses of every member are routed, and the dial queue holds only
  routed peers without a link, each once.
\<close>

theorem roster_rules_forwarding:
  "let p = foldl (peers_step x) no_peers ops; (p', fx) = set_routes x ms p in
    (\<forall>i. link p' i = (if i \<in> set ms then link p i else None)) \<and>
    (\<forall>c code. Close c code \<in> set fx \<longleftrightarrow> code = CLOSE_REMOVED \<and> (\<exists>i. i \<notin> set ms \<and> link p i = Some c)) \<and>
    (\<forall>a i. route p' a = Some i \<longrightarrow> i \<in> set ms \<and> a \<in> overlay x i) \<and>
    (\<forall>i \<in> set ms. \<forall>a \<in> overlay x i. route p' a \<noteq> None) \<and>
    set (unlinked p') = {i. (\<exists>a. route p' a = Some i) \<and> link p' i = None} \<and> distinct (unlinked p')"
proof -
  define p where "p = foldl (peers_step x) no_peers ops"
  have d: "keys_distinct (links p)" using reachable_inv [of x ops] by (simp add: p_def peers_inv_def)
  obtain p' fx where sr: "set_routes x ms p = (p', fx)" by force
  have p': "links p' = retain (\<lambda>i _. i \<in> set ms) (links p)" "routes p' = routes_of x (remdups ms)"
    and fx: "fx = map (\<lambda>i. Close (the (map_of (links p) i)) CLOSE_REMOVED) (departed (map fst (links p)) (remdups ms))"
    using sr unfolding set_routes_eq [OF d] by auto
  have "link p' i = (if i \<in> set ms then link p i else None)" for i
    by (auto simp: link_def p' map_of_retain [OF d] split: option.split)
  moreover have "Close c code \<in> set fx \<longleftrightarrow> code = CLOSE_REMOVED \<and> (\<exists>i. i \<notin> set ms \<and> link p i = Some c)" for c code
  proof -
    have "i \<in> akeys (links p) \<and> c = the (map_of (links p) i) \<longleftrightarrow> map_of (links p) i = Some c" for i
      by (cases "map_of (links p) i") (force simp: map_of_eq_None_iff dest: map_of_SomeD)+
    then have mem: "i \<in> akeys (links p) \<and> i \<notin> set ms \<and> c = the (map_of (links p) i) \<longleftrightarrow>
        i \<notin> set ms \<and> link p i = Some c" for i
      unfolding link_def by blast
    have "Close c code \<in> set fx \<longleftrightarrow> code = CLOSE_REMOVED \<and>
        (\<exists>i. i \<in> akeys (links p) \<and> i \<notin> set ms \<and> c = the (map_of (links p) i))"
      by (auto simp: fx departed_def image_iff simp del: fst_conv)
    then show ?thesis unfolding mem .
  qed
  moreover have "route p' a = Some i \<Longrightarrow> i \<in> set ms \<and> a \<in> overlay x i" for a i
    using routes_of_sound [of x "remdups ms" a i] by (simp add: route_def p')
  moreover have "i \<in> set ms \<Longrightarrow> a \<in> overlay x i \<Longrightarrow> route p' a \<noteq> None" for i a
    using routes_of_complete [of i "remdups ms" a x] by (simp add: route_def p')
  moreover have "i \<in> avalues (routes p') \<longleftrightarrow> (\<exists>a. route p' a = Some i)" for i
    using routes_of_distinct [of x "remdups ms"] by (force simp: route_def p' map_of_mem_iff)
  then have "set (unlinked p') = {i. (\<exists>a. route p' a = Some i) \<and> link p' i = None}"
    by (simp add: set_unlinked)
  ultimately show ?thesis
    using sorted_unlinked [of p'] unfolding p_def [symmetric] sr Let_def prod.case by blast
qed

text \<open>
  \<open>status\<close> lists every member once, with its own two addresses and the state of its link,
  ordered by IPv6 address, as long as no two members' addresses collide.
\<close>

lemma snapshot_lists_each_member_once:
  assumes "collision_free x ms"
  shows "let p' = fst (set_routes x ms (foldl (peers_step x) no_peers ops)); rows = snapshot d p' in
    distinct (map row_id rows) \<and> set (map row_id rows) = set ms \<and> sorted (map row_v6 rows) \<and>
    (\<forall>r \<in> set rows. (row_v4 r, row_v6 r) = addrs_of x (row_id r) \<and>
       linked r = (link p' (row_id r) \<noteq> None) \<and> datagram_max r = Option.bind (link p' (row_id r)) d)"
proof -
  define p where "p = foldl (peers_step x) no_peers ops"
  define p' where "p' = fst (set_routes x ms p)"
  define al where "al = fold (add_route_row d p') (routes p') []"
  have d: "keys_distinct (links p)" using reachable_inv [of x ops] by (simp add: p_def peers_inv_def)
  have routes: "routes p' = routes_of x (remdups ms)" by (simp add: p'_def set_routes_eq [OF d])
  have al: "map_of al = row_for d p' (routes_of x (remdups ms))" "keys_distinct al"
    using rows_fold [of d p' "routes p'"] by (simp_all add: al_def routes)
  have dom: "dom (map_of al) = set ms"
    using routes_of_values [of x "remdups ms"] assms by (auto simp: al(1) row_for_def split: if_splits)
  have row: "r = \<lparr>row_id = i, row_v4 = fst (addrs_of x i), row_v6 = snd (addrs_of x i),
      linked = (link p' i \<noteq> None), datagram_max = Option.bind (link p' i) d\<rparr> \<and> i \<in> set ms"
    if "(i, r) \<in> set al" for i r
  proof -
    have "map_of al i = Some r" using that al(2) by (simp add: map_of_mem_iff)
    moreover from this have "i \<in> set ms" using dom by blast
    ultimately show ?thesis using row_of_member [of x "remdups ms" i d p'] assms by (simp add: al(1))
  qed
  have "row_id r = i" if "(i, r) \<in> set al" for i r
    using conjunct1 [OF row [OF that]] by simp
  then have ids: "map row_id (map snd al) = map fst al" by auto
  have "mset (map row_id (snapshot d p')) = mset (map fst al)"
    unfolding ids [symmetric] by (simp add: snapshot_def al_def multiset.map_comp)
  then have "distinct (map row_id (snapshot d p'))" "set (map row_id (snapshot d p')) = set ms"
    using al(2) dom by (metis mset_eq_imp_distinct_iff, metis dom_map_of_conv_image_fst mset_eq_setD set_map)
  moreover have "sorted (map row_v6 (snapshot d p'))" by (simp add: snapshot_def)
  moreover have "set (snapshot d p') = avalues al" by (simp add: snapshot_def al_def)
  ultimately show ?thesis
    using row unfolding Let_def p_def [symmetric] p'_def [symmetric] by fastforce
qed

section \<open>Witnesses\<close>

theorem roster_rules_forwarding_witness:
  "let (p', fx) = set_routes plain_externs [Eid [2]] (foldl (peers_step plain_externs) no_peers [Register (Eid [1]) 7])
   in link p' (Eid [1]) = None \<and> Close 7 4 \<in> set fx"
proof -
  define p where "p = foldl (peers_step plain_externs) no_peers [Register (Eid [1]) 7]"
  obtain p' fx where sr: "set_routes plain_externs [Eid [2]] p = (p', fx)" by force
  have "link p (Eid [1]) = Some 7"
    by (simp add: p_def peers_step_def register_def no_peers_def link_def)
  then have "\<exists>i. i \<notin> set [Eid [2]] \<and> link p i = Some 7" by (intro exI [of _ "Eid [1]"]) simp
  then show ?thesis
    using roster_rules_forwarding [of plain_externs "[Register (Eid [1]) 7]" "[Eid [2]]"]
    unfolding p_def [symmetric] sr Let_def prod.case CLOSE_REMOVED_def by auto
qed

end
