(* ===== verification/Files.thy ===== *)
theory Files
  imports Peers Names Proto
begin

text \<open>
  \<open>daemon/src/files/mod.rs\<close> and the registry operations of \<open>transfer.rs\<close>: the offers in flight
  on this node, in both directions. Instants and durations are nanoseconds. The streams of an
  offer are known only by whether they have been stored yet; random ids are drawn from a list
  of candidates. Each operation runs under the registry's lock and is one step.

  The invariant says who may have an offer waiting here (members only, at most twenty each) and
  that an id names one offer across the three tables.
\<close>

section \<open>State\<close>

type_synonym instant = nat

definition secs :: "nat \<Rightarrow> nat" where "secs n = n * 1000000000"

definition HISTORY :: nat where "HISTORY = secs (60 * 60)"

definition DONE :: nat where "DONE = 0"
definition CANCELLED :: nat where "CANCELLED = 1"
definition EXPIRED :: nat where "EXPIRED = 2"
definition NOT_MEMBER :: nat where "NOT_MEMBER = 3"
definition FAILED :: nat where "FAILED = 4"
definition REJECTED :: nat where "REJECTED = 5"

definition clamp_ttl :: "nat \<Rightarrow> nat" where
  "clamp_ttl ttl_secs = secs (max 1 (min MAX_FILE_TTL ttl_secs))"

record incoming =
  i_peer :: eid
  i_name :: rstr
  i_size :: u64
  i_received_at :: instant
  i_expires_at :: instant
  i_conn :: conn
  i_link :: bool

record outgoing =
  o_peer :: eid
  o_to :: rstr
  o_name :: rstr
  o_size :: u64
  o_state :: offer_state
  o_created_at :: instant
  o_expires_at :: "instant option"
  o_finished_at :: "instant option"
  o_detail :: "rstr option"
  o_conn :: "conn option"

record registry =
  f_roster :: "(eid \<times> rstr) list"
  f_incoming :: "(rstr \<times> incoming) list"
  f_outgoing :: "(rstr \<times> outgoing) list"
  f_receiving :: "(rstr \<times> eid \<times> conn) list"
  f_gone :: "(rstr \<times> instant \<times> rstr) list"

definition no_files :: registry where
  "no_files = \<lparr>f_roster = [], f_incoming = [], f_outgoing = [], f_receiving = [], f_gone = []\<rparr>"

section \<open>Operations\<close>

text \<open>
  \<open>retain\<close> with a closure that closes what it drops: the effects come in the order of the
  table.
\<close>

definition files_set_roster :: "(eid \<times> rstr) list \<Rightarrow> registry \<Rightarrow> registry \<times> effect list" where
  "files_set_roster ms r =
     (let roster = fold (\<lambda>(i, n). AList.update i n) ms [];
          current = akeys roster
      in (r\<lparr>f_roster := roster,
            f_incoming := retain (\<lambda>_ offer. i_peer offer \<in> current) (f_incoming r),
            f_receiving := retain (\<lambda>_ (peer, c). peer \<in> current) (f_receiving r)\<rparr>,
          map (\<lambda>(_, offer). Close (i_conn offer) NOT_MEMBER)
            (filter (\<lambda>(_, offer). i_peer offer \<notin> current) (f_incoming r)) @
          map (\<lambda>(_, _, c). Close c NOT_MEMBER) (filter (\<lambda>(_, peer, _). peer \<notin> current) (f_receiving r)) @
          List.map_filter (\<lambda>(_, offer).
            if o_peer offer \<in> current then None else map_option (\<lambda>c. Close c NOT_MEMBER) (o_conn offer))
            (f_outgoing r)))"

definition files_is_member :: "eid \<Rightarrow> registry \<Rightarrow> bool" where
  "files_is_member peer r \<longleftrightarrow> map_of (f_roster r) peer \<noteq> None"

definition files_display :: "externs \<Rightarrow> eid \<Rightarrow> registry \<Rightarrow> rstr" where
  "files_display x peer r =
     (case map_of (f_roster r) peer of Some n \<Rightarrow> n | None \<Rightarrow> fallback (id_show x peer))"

definition remaining :: "instant \<Rightarrow> instant \<Rightarrow> nat" where
  "remaining deadline now = (deadline - now) div 1000000000"

definition forget_history :: "instant \<Rightarrow> registry \<Rightarrow> registry" where
  "forget_history now r =
     r\<lparr>f_outgoing := retain (\<lambda>_ offer. case o_finished_at offer of
            Some at \<Rightarrow> now - at < HISTORY | None \<Rightarrow> True) (f_outgoing r),
       f_gone := retain (\<lambda>_ (at, _). now - at < HISTORY) (f_gone r)\<rparr>"

definition files_list ::
    "externs \<Rightarrow> instant \<Rightarrow> registry \<Rightarrow> (incoming_offer list \<times> outgoing_offer list) \<times> registry" where
  "files_list x now r =
     (let r = forget_history now r;
          waiting = sort_key (\<lambda>(_, offer). i_received_at offer)
            (filter (\<lambda>(_, offer). i_link offer \<and> i_expires_at offer > now) (f_incoming r));
          inc = map (\<lambda>(i, offer).
            \<lparr>in_id = i, in_from = files_display x (i_peer offer) r, in_name = i_name offer,
             in_size = unat (i_size offer), in_expires_in_secs = remaining (i_expires_at offer) now\<rparr>) waiting;
          out = map (\<lambda>(i, offer).
            \<lparr>out_id = i, out_to = o_to offer, out_name = o_name offer, out_size = unat (o_size offer),
             out_state = o_state offer,
             out_expires_in_secs = map_option (\<lambda>at. remaining at now) (o_expires_at offer),
             out_detail = o_detail offer\<rparr>)
            (sort_key (\<lambda>(_, offer). o_created_at offer) (f_outgoing r))
      in ((inc, out), r))"

text \<open>The loop draws candidates until one is not taken; \<open>None\<close> when those given are all taken.\<close>

definition new_id :: "rstr list \<Rightarrow> registry \<Rightarrow> rstr option" where
  "new_id candidates r =
     List.find (\<lambda>i. i \<notin> akeys (f_incoming r) \<and> i \<notin> akeys (f_outgoing r) \<and> i \<notin> akeys (f_gone r)) candidates"

datatype admit_error = AdmitNotMember | AdmitTooMany | AdmitNoId

definition admit ::
    "rstr list \<Rightarrow> eid \<Rightarrow> rstr \<Rightarrow> u64 \<Rightarrow> nat \<Rightarrow> conn \<Rightarrow> instant \<Rightarrow> registry \<Rightarrow>
     (admit_error, rstr) result \<times> registry" where
  "admit candidates peer name sz ttl c now r =
     (if map_of (f_roster r) peer = None then (Inl AdmitNotMember, r)
      else if MAX_PENDING_PER_PEER \<le> length (filter (\<lambda>(_, offer). i_peer offer = peer) (f_incoming r))
      then (Inl AdmitTooMany, r)
      else case new_id candidates r of
        None \<Rightarrow> (Inl AdmitNoId, r)
      | Some i \<Rightarrow>
          (Inr i, r\<lparr>f_incoming := AList.update i
             \<lparr>i_peer = peer, i_name = name, i_size = sz, i_received_at = now, i_expires_at = now + ttl,
              i_conn = c, i_link = False\<rparr> (f_incoming r)\<rparr>))"

definition set_state ::
    "rstr \<Rightarrow> offer_state \<Rightarrow> rstr option \<Rightarrow> instant \<Rightarrow> registry \<Rightarrow> registry" where
  "set_state i state detail now r =
     (case map_of (f_outgoing r) i of
        None \<Rightarrow> r
      | Some offer \<Rightarrow>
          let offer = offer\<lparr>o_state := state\<rparr>;
              offer = (if state \<noteq> Offered then offer\<lparr>o_expires_at := None\<rparr> else offer);
              offer = (if is_finished state
                then offer\<lparr>o_finished_at := Some now, o_detail := detail, o_conn := None\<rparr> else offer)
          in r\<lparr>f_outgoing := AList.update i offer (f_outgoing r)\<rparr>)"

definition bury_incoming :: "rstr \<Rightarrow> conn \<Rightarrow> rstr \<Rightarrow> instant \<Rightarrow> registry \<Rightarrow> bool \<times> registry" where
  "bury_incoming i c why now r =
     (case map_of (f_incoming r) i of
        Some offer \<Rightarrow>
          if i_conn offer = c
          then (True, r\<lparr>f_incoming := AList.delete i (f_incoming r),
                        f_gone := AList.update i (now, why) (f_gone r)\<rparr>)
          else (False, r)
      | None \<Rightarrow> (False, r))"

datatype take_error = OfferHasExpired | OfferGone rstr | NoPendingOffer rstr

definition take_answerable ::
    "rstr \<Rightarrow> instant \<Rightarrow> registry \<Rightarrow> (take_error, incoming) result \<times> registry" where
  "take_answerable i now r =
     (let r = forget_history now r;
          absent = (case map_of (f_gone r) i of
            Some (_, why) \<Rightarrow> (Inl (OfferGone why), r)
          | None \<Rightarrow> (Inl (NoPendingOffer i), r))
      in case map_of (f_incoming r) i of
           Some offer \<Rightarrow>
             if i_link offer \<and> i_expires_at offer > now
             then (Inr (offer\<lparr>i_link := False\<rparr>), r\<lparr>f_incoming := AList.delete i (f_incoming r)\<rparr>)
             else if i_link offer then (Inl OfferHasExpired, r)
             else absent
         | None \<Rightarrow> absent)"

subsection \<open>The steps of the transfer tasks on the registry\<close>

text \<open>
  In \<open>receive_offer\<close>: the offer could not be queued, or its streams are stored, which fails when
  the roster removed it meanwhile.
\<close>

definition drop_incoming :: "rstr \<Rightarrow> registry \<Rightarrow> registry" where
  "drop_incoming i r = r\<lparr>f_incoming := AList.delete i (f_incoming r)\<rparr>"

definition store_link :: "rstr \<Rightarrow> registry \<Rightarrow> instant option \<times> registry" where
  "store_link i r =
     (case map_of (f_incoming r) i of
        Some offer \<Rightarrow>
          (Some (i_expires_at offer), r\<lparr>f_incoming := AList.update i (offer\<lparr>i_link := True\<rparr>) (f_incoming r)\<rparr>)
      | None \<Rightarrow> (None, r))"

text \<open>In \<open>send\<close>: the entry made at once, the connection stored, and the entry taken out again.\<close>

definition list_outgoing ::
    "rstr list \<Rightarrow> eid \<Rightarrow> rstr \<Rightarrow> rstr \<Rightarrow> u64 \<Rightarrow> nat \<Rightarrow> instant \<Rightarrow> registry \<Rightarrow> rstr option \<times> registry" where
  "list_outgoing candidates peer to name sz ttl now r =
     (let r = forget_history now r in
      case new_id candidates r of
        None \<Rightarrow> (None, r)
      | Some i \<Rightarrow>
          (Some i, r\<lparr>f_outgoing := AList.update i
             \<lparr>o_peer = peer, o_to = to, o_name = name, o_size = sz, o_state = Offered, o_created_at = now,
              o_expires_at = Some (now + ttl), o_finished_at = None, o_detail = None, o_conn = None\<rparr>
             (f_outgoing r)\<rparr>))"

definition store_conn :: "rstr \<Rightarrow> conn \<Rightarrow> instant \<Rightarrow> registry \<Rightarrow> bool \<times> registry" where
  "store_conn i c expires_at r =
     (case map_of (f_outgoing r) i of
        Some offer \<Rightarrow>
          (True, r\<lparr>f_outgoing := AList.update i (offer\<lparr>o_expires_at := Some expires_at, o_conn := Some c\<rparr>)
             (f_outgoing r)\<rparr>)
      | None \<Rightarrow> (False, r))"

definition drop_outgoing :: "rstr \<Rightarrow> registry \<Rightarrow> registry" where
  "drop_outgoing i r = r\<lparr>f_outgoing := AList.delete i (f_outgoing r)\<rparr>"

text \<open>In \<open>accept\<close>: the transfer under way, and its guard \<open>Unregister\<close>.\<close>

definition begin_receiving :: "rstr \<Rightarrow> eid \<Rightarrow> conn \<Rightarrow> registry \<Rightarrow> registry" where
  "begin_receiving i peer c r = r\<lparr>f_receiving := AList.update i (peer, c) (f_receiving r)\<rparr>"

definition end_receiving :: "rstr \<Rightarrow> registry \<Rightarrow> registry" where
  "end_receiving i r = r\<lparr>f_receiving := AList.delete i (f_receiving r)\<rparr>"

lemmas files_evals [evals] = secs_def HISTORY_def DONE_def CANCELLED_def EXPIRED_def NOT_MEMBER_def
  FAILED_def REJECTED_def clamp_ttl_def no_files_def files_set_roster_def files_is_member_def
  files_display_def remaining_def forget_history_def new_id_def admit_def set_state_def
  bury_incoming_def take_answerable_def drop_incoming_def store_link_def list_outgoing_def
  store_conn_def drop_outgoing_def begin_receiving_def end_receiving_def is_finished_def

section \<open>The invariant\<close>

definition waiting :: "registry \<Rightarrow> eid \<Rightarrow> nat" where
  "waiting r peer = length (filter (\<lambda>(_, offer). i_peer offer = peer) (f_incoming r))"

definition files_inv :: "registry \<Rightarrow> bool" where
  "files_inv r \<longleftrightarrow>
     keys_distinct (f_incoming r) \<and> keys_distinct (f_outgoing r) \<and> keys_distinct (f_receiving r) \<and>
     keys_distinct (f_gone r) \<and>
     i_peer ` avalues (f_incoming r) \<subseteq> akeys (f_roster r) \<and>
     (\<forall>peer. waiting r peer \<le> MAX_PENDING_PER_PEER) \<and>
     akeys (f_incoming r) \<inter> akeys (f_outgoing r) = {} \<and> akeys (f_incoming r) \<inter> akeys (f_gone r) = {} \<and>
     akeys (f_outgoing r) \<inter> akeys (f_gone r) = {}"

text \<open>The invariant in terms of what a step does to the tables.\<close>

lemma files_invI:
  assumes "files_inv r"
    and "keys_distinct (f_incoming s)" "keys_distinct (f_outgoing s)" "keys_distinct (f_receiving s)"
      "keys_distinct (f_gone s)"
    and "i_peer ` avalues (f_incoming s) \<subseteq> akeys (f_roster s)"
    and "\<And>peer. waiting s peer \<le> max (waiting r peer) MAX_PENDING_PER_PEER"
    and "akeys (f_incoming s) \<inter> akeys (f_outgoing s) = {}" "akeys (f_incoming s) \<inter> akeys (f_gone s) = {}"
      "akeys (f_outgoing s) \<inter> akeys (f_gone s) = {}"
  shows "files_inv s"
proof -
  have "waiting s peer \<le> MAX_PENDING_PER_PEER" for peer
    using assms(1) assms(7) [of peer] by (auto simp: files_inv_def max_def split: if_splits)
  then show ?thesis using assms by (simp add: files_inv_def)
qed

lemma no_files_inv [inv_intros]: "files_inv no_files"
  by (simp add: files_inv_def no_files_def waiting_def)

lemma files_inv_parts:
  assumes "files_inv r"
  shows "keys_distinct (f_incoming r)" "keys_distinct (f_outgoing r)" "keys_distinct (f_receiving r)"
    "keys_distinct (f_gone r)" "waiting r peer \<le> MAX_PENDING_PER_PEER"
    "akeys (f_incoming r) \<inter> akeys (f_outgoing r) = {}" "akeys (f_incoming r) \<inter> akeys (f_gone r) = {}"
    "akeys (f_outgoing r) \<inter> akeys (f_gone r) = {}"
    "i_peer ` avalues (f_incoming r) \<subseteq> akeys (f_roster r)"
  using assms by (simp_all add: files_inv_def)

lemma forget_history_inv [inv_intros]: "files_inv r \<Longrightarrow> files_inv (forget_history now r)"
proof -
  assume r: "files_inv r"
  let ?s = "forget_history now r"
  have o: "akeys (f_outgoing ?s) \<subseteq> akeys (f_outgoing r)" "akeys (f_gone ?s) \<subseteq> akeys (f_gone r)"
    by (simp_all add: forget_history_def akeys_retain)
  have d: "keys_distinct (f_outgoing ?s)" "keys_distinct (f_gone ?s)"
    using r by (simp_all add: forget_history_def files_inv_def keys_distinct_retain)
  have same: "f_incoming ?s = f_incoming r" "f_receiving ?s = f_receiving r" "f_roster ?s = f_roster r"
    by (simp_all add: forget_history_def)
  have disj: "akeys (f_incoming ?s) \<inter> akeys (f_outgoing ?s) = {}" "akeys (f_incoming ?s) \<inter> akeys (f_gone ?s) = {}"
    "akeys (f_outgoing ?s) \<inter> akeys (f_gone ?s) = {}"
    unfolding same
    by (rule disjoint_mono [OF files_inv_parts(6) [OF r] order.refl o(1)])
      (rule disjoint_mono [OF files_inv_parts(7) [OF r] order.refl o(2)],
       rule disjoint_mono [OF files_inv_parts(8) [OF r] o])
  show ?thesis
    by (rule files_invI [OF r _ d(1) _ d(2) _ _ disj])
      (use files_inv_parts [OF r] in \<open>simp_all add: same waiting_def\<close>)
qed

lemma files_set_roster_inv [inv_intros]: "files_inv r \<Longrightarrow> files_inv (fst (files_set_roster ms r))"
proof -
  assume r: "files_inv r"
  let ?s = "fst (files_set_roster ms r)"
  have k: "akeys (f_incoming ?s) \<subseteq> akeys (f_incoming r)"
    by (simp add: files_set_roster_def Let_def akeys_retain)
  have d: "keys_distinct (f_incoming ?s)" "keys_distinct (f_receiving ?s)"
    using r by (simp_all add: files_set_roster_def Let_def files_inv_def keys_distinct_retain)
  have m: "i_peer ` avalues (f_incoming ?s) \<subseteq> akeys (f_roster ?s)"
    by (simp add: files_set_roster_def Let_def retain_owners)
  have w: "waiting ?s peer \<le> max (waiting r peer) MAX_PENDING_PER_PEER" for peer
    by (simp add: files_set_roster_def Let_def waiting_def filter_retain_le le_max_iff_disj)
  have same: "f_outgoing ?s = f_outgoing r" "f_gone ?s = f_gone r"
    by (simp_all add: files_set_roster_def Let_def)
  have disj: "akeys (f_incoming ?s) \<inter> akeys (f_outgoing ?s) = {}" "akeys (f_incoming ?s) \<inter> akeys (f_gone ?s) = {}"
    unfolding same
    by (rule disjoint_mono [OF files_inv_parts(6) [OF r] k order.refl],
        rule disjoint_mono [OF files_inv_parts(7) [OF r] k order.refl])
  show ?thesis
    by (rule files_invI [OF r d(1) _ d(2) _ m w disj])
      (use files_inv_parts(2,4,8) [OF r] in \<open>simp_all add: same\<close>)
qed

lemma new_id_fresh:
  "new_id cs r = Some i \<Longrightarrow> i \<notin> akeys (f_incoming r) \<and> i \<notin> akeys (f_outgoing r) \<and> i \<notin> akeys (f_gone r)"
  unfolding new_id_def by (drule find_Some_mem) simp

lemma admit_inv [inv_intros]: "files_inv r \<Longrightarrow> files_inv (snd (admit cs peer n sz ttl c now r))"
proof (cases "fst (admit cs peer n sz ttl c now r)")
  case (Inl e)
  then have "snd (admit cs peer n sz ttl c now r) = r"
    by (auto simp: admit_def split: if_splits option.splits)
  moreover assume "files_inv r"
  ultimately show ?thesis by simp
next
  case (Inr i)
  assume r: "files_inv r"
  let ?s = "snd (admit cs peer n sz ttl c now r)"
  define offer where "offer = \<lparr>i_peer = peer, i_name = n, i_size = sz, i_received_at = now,
    i_expires_at = now + ttl, i_conn = c, i_link = False\<rparr>"
  have i: "map_of (f_roster r) peer \<noteq> None" "waiting r peer < MAX_PENDING_PER_PEER" "new_id cs r = Some i"
    and s: "?s = r\<lparr>f_incoming := AList.update i offer (f_incoming r)\<rparr>"
    using Inr by (auto simp: admit_def waiting_def offer_def split: if_splits option.splits)
  note fresh = new_id_fresh [OF i(3)]
  have app: "AList.update i offer (f_incoming r) = f_incoming r @ [(i, offer)]"
    using fresh by (intro update_fresh) simp
  have w: "waiting ?s p \<le> max (waiting r p) MAX_PENDING_PER_PEER" for p
    using i(2) by (cases "p = peer") (simp_all add: s waiting_def app, simp_all add: offer_def)
  have p: "peer \<in> akeys (f_roster r)" using i(1) by (meson map_of_eq_None_iff)
  have d: "keys_distinct (f_incoming ?s)" using r by (simp add: s keys_distinct_update files_inv_def)
  have k: "akeys (f_incoming ?s) = insert i (akeys (f_incoming r))" by (simp add: s akeys_update)
  have "i_peer offer = peer" by (simp add: offer_def)
  then have m: "i_peer ` avalues (f_incoming ?s) \<subseteq> akeys (f_roster ?s)"
    using files_inv_parts(9) [OF r] p by (simp add: s app)
  have same: "f_outgoing ?s = f_outgoing r" "f_gone ?s = f_gone r" "f_receiving ?s = f_receiving r"
    by (simp_all add: s)
  show ?thesis
    by (rule files_invI [OF r d _ _ _ m w])
      (use files_inv_parts(2-4,6-8) [OF r] fresh in \<open>simp_all add: k same\<close>)
qed

text \<open>Entries of \<open>f_incoming\<close> removed or rewritten under the same peer.\<close>

lemma drop_incoming_inv [inv_intros]: "files_inv r \<Longrightarrow> files_inv (drop_incoming i r)"
proof -
  assume r: "files_inv r"
  let ?s = "drop_incoming i r"
  have k: "akeys (f_incoming ?s) = akeys (f_incoming r) - {i}" by (simp add: drop_incoming_def akeys_delete)
  have d: "keys_distinct (f_incoming ?s)"
    using r by (simp add: drop_incoming_def files_inv_def keys_distinct_delete)
  have "avalues (f_incoming ?s) \<subseteq> avalues (f_incoming r)" by (auto simp: drop_incoming_def set_delete)
  then have m: "i_peer ` avalues (f_incoming ?s) \<subseteq> akeys (f_roster ?s)"
    using files_inv_parts(9) [OF r] by (simp add: drop_incoming_def) blast
  have w: "waiting ?s peer \<le> max (waiting r peer) MAX_PENDING_PER_PEER" for peer
    by (simp add: drop_incoming_def waiting_def filter_delete_le le_max_iff_disj)
  have same: "f_outgoing ?s = f_outgoing r" "f_gone ?s = f_gone r" "f_receiving ?s = f_receiving r"
    by (simp_all add: drop_incoming_def)
  show ?thesis
    by (rule files_invI [OF r d _ _ _ m w])
      (use files_inv_parts(2-4,6-8) [OF r] in \<open>simp_all add: k same Diff_Int_distrib2\<close>)
qed

lemma store_link_inv [inv_intros]: "files_inv r \<Longrightarrow> files_inv (snd (store_link i r))"
proof (cases "map_of (f_incoming r) i")
  case (Some offer)
  assume r: "files_inv r"
  let ?s = "snd (store_link i r)"
  have s: "?s = r\<lparr>f_incoming := AList.update i (offer\<lparr>i_link := True\<rparr>) (f_incoming r)\<rparr>"
    using Some by (simp add: store_link_def)
  have mem: "offer \<in> avalues (f_incoming r)" "i \<in> akeys (f_incoming r)"
    using Some by (rule map_of_avalues, rule map_of_akeys)
  have k: "akeys (f_incoming ?s) = akeys (f_incoming r)" using mem by (simp add: s akeys_update insert_absorb)
  have d: "keys_distinct (f_incoming ?s)" using r by (simp add: s files_inv_def keys_distinct_update)
  have "avalues (f_incoming ?s) \<subseteq> insert (offer\<lparr>i_link := True\<rparr>) (avalues (f_incoming r))"
    by (simp add: s avalues_update)
  then have "i_peer ` avalues (f_incoming ?s) \<subseteq> i_peer ` avalues (f_incoming r)" using mem(1) by force
  then have m: "i_peer ` avalues (f_incoming ?s) \<subseteq> akeys (f_roster ?s)"
    using files_inv_parts(9) [OF r] by (simp add: s)
  have w: "waiting ?s peer \<le> max (waiting r peer) MAX_PENDING_PER_PEER" for peer
    using filter_update_same [OF Some, of "\<lambda>(_, offer). i_peer offer = peer" "offer\<lparr>i_link := True\<rparr>"]
    by (simp add: s waiting_def)
  have same: "f_outgoing ?s = f_outgoing r" "f_gone ?s = f_gone r" "f_receiving ?s = f_receiving r"
    by (simp_all add: s)
  show ?thesis
    by (rule files_invI [OF r d _ _ _ m w])
      (use files_inv_parts(2-4,6-8) [OF r] in \<open>simp_all add: k same\<close>)
qed (simp add: store_link_def)

lemma bury_incoming_inv [inv_intros]: "files_inv r \<Longrightarrow> files_inv (snd (bury_incoming i c why now r))"
proof (cases "fst (bury_incoming i c why now r)")
  case True
  assume r: "files_inv r"
  let ?s = "snd (bury_incoming i c why now r)" and ?d = "drop_incoming i r"
  have i: "i \<in> akeys (f_incoming r)" and s: "?s = ?d\<lparr>f_gone := AList.update i (now, why) (f_gone r)\<rparr>"
    using True map_of_akeys [of "f_incoming r" i]
    by (simp_all add: bury_incoming_def drop_incoming_def split: option.splits if_splits)
  have dr: "files_inv ?d" using r by (rule drop_incoming_inv)
  have k: "akeys (f_incoming ?s) = akeys (f_incoming r) - {i}" "f_outgoing ?s = f_outgoing r"
      "akeys (f_gone ?s) = insert i (akeys (f_gone r))"
    by (simp_all add: s drop_incoming_def akeys_delete akeys_update)
  have "i \<notin> akeys (f_outgoing r)" using files_inv_parts(6) [OF r] i by (metis disjoint_iff)
  then have disj: "akeys (f_incoming ?s) \<inter> akeys (f_outgoing ?s) = {}" "akeys (f_incoming ?s) \<inter> akeys (f_gone ?s) = {}"
    "akeys (f_outgoing ?s) \<inter> akeys (f_gone ?s) = {}"
    unfolding k
    using disjoint_mono [OF files_inv_parts(6) [OF r] Diff_subset order.refl]
      disjoint_moved [OF files_inv_parts(7) [OF r]] disjoint_insert [OF files_inv_parts(8) [OF r]]
    by simp_all
  have same: "f_incoming ?s = f_incoming ?d" "f_roster ?s = f_roster ?d" "f_receiving ?s = f_receiving ?d"
    by (simp_all add: s)
  have "keys_distinct (f_gone ?s)" using files_inv_parts(4) [OF r] by (simp add: s keys_distinct_update)
  then show ?thesis
    by (intro files_invI [OF dr _ _ _ _ _ _ disj])
      (use files_inv_parts [OF dr] in \<open>simp_all add: same waiting_def\<close>, simp add: s)
next
  case False
  then have "snd (bury_incoming i c why now r) = r"
    by (auto simp: bury_incoming_def split: option.splits if_splits)
  moreover assume "files_inv r"
  ultimately show ?thesis by simp
qed

lemma take_answerable_inv [inv_intros]: "files_inv r \<Longrightarrow> files_inv (snd (take_answerable i now r))"
proof -
  assume "files_inv r"
  then have f: "files_inv (forget_history now r)" by (rule forget_history_inv)
  have "snd (take_answerable i now r) = forget_history now r \<or>
      snd (take_answerable i now r) = drop_incoming i (forget_history now r)"
    by (auto simp: take_answerable_def Let_def drop_incoming_def split: option.split)
  then show ?thesis using f drop_incoming_inv [OF f] by auto
qed

text \<open>Changes of the outgoing table: its keys shrink, stay, or gain a fresh one.\<close>

lemma outgoing_inv:
  assumes "files_inv r" and "keys_distinct out"
    and "akeys out \<inter> akeys (f_incoming r) = {}" and "akeys out \<inter> akeys (f_gone r) = {}"
  shows "files_inv (r\<lparr>f_outgoing := out\<rparr>)"
  using assms(2-4) files_inv_parts [OF assms(1)]
  by (intro files_invI [OF assms(1)]) (simp_all add: waiting_def Int_commute)

lemma outgoing_sub_inv:
  assumes "files_inv r" and "keys_distinct out" and "akeys out \<subseteq> akeys (f_outgoing r)"
  shows "files_inv (r\<lparr>f_outgoing := out\<rparr>)"
proof (rule outgoing_inv [OF assms(1,2)])
  show "akeys out \<inter> akeys (f_incoming r) = {}"
    by (rule disjoint_mono [OF _ assms(3) order.refl]) (use files_inv_parts(6) [OF assms(1)] in \<open>simp add: Int_commute\<close>)
  show "akeys out \<inter> akeys (f_gone r) = {}"
    by (rule disjoint_mono [OF files_inv_parts(8) [OF assms(1)] assms(3) order.refl])
qed

lemma update_outgoing_inv:
  assumes "files_inv r" and "map_of (f_outgoing r) i = Some old"
  shows "files_inv (r\<lparr>f_outgoing := AList.update i offer (f_outgoing r)\<rparr>)"
proof (rule outgoing_sub_inv [OF assms(1)])
  show "keys_distinct (AList.update i offer (f_outgoing r))"
    using files_inv_parts(2) [OF assms(1)] by (rule keys_distinct_update)
  show "akeys (AList.update i offer (f_outgoing r)) \<subseteq> akeys (f_outgoing r)"
    using map_of_akeys [OF assms(2)] by (simp add: akeys_update)
qed

lemma set_state_inv [inv_intros]: "files_inv r \<Longrightarrow> files_inv (set_state i st d now r)"
  by (auto simp: set_state_def Let_def update_outgoing_inv split: option.split)

lemma store_conn_inv [inv_intros]: "files_inv r \<Longrightarrow> files_inv (snd (store_conn i c e r))"
  by (auto simp: store_conn_def update_outgoing_inv split: option.split)

lemma drop_outgoing_inv [inv_intros]: "files_inv r \<Longrightarrow> files_inv (drop_outgoing i r)"
proof -
  assume r: "files_inv r"
  have "akeys (AList.delete i (f_outgoing r)) \<subseteq> akeys (f_outgoing r)" unfolding akeys_delete by (rule Diff_subset)
  then show ?thesis
    unfolding drop_outgoing_def
    by (rule outgoing_sub_inv [OF r keys_distinct_delete [OF files_inv_parts(2) [OF r]]])
qed

lemma list_outgoing_inv [inv_intros]: "files_inv r \<Longrightarrow> files_inv (snd (list_outgoing cs peer to n sz ttl now r))"
proof -
  assume "files_inv r"
  then have f: "files_inv (forget_history now r)" by (rule forget_history_inv)
  let ?f = "forget_history now r"
  show ?thesis
  proof (cases "new_id cs ?f")
    case (Some i)
    note fresh = new_id_fresh [OF Some]
    have "files_inv (?f\<lparr>f_outgoing := AList.update i offer (f_outgoing ?f)\<rparr>)" for offer
    proof (rule outgoing_inv [OF f keys_distinct_update [OF files_inv_parts(2) [OF f]]])
      show "akeys (AList.update i offer (f_outgoing ?f)) \<inter> akeys (f_incoming ?f) = {}"
        using fresh files_inv_parts(6) [OF f] by (simp add: akeys_update Int_commute)
      show "akeys (AList.update i offer (f_outgoing ?f)) \<inter> akeys (f_gone ?f) = {}"
        using fresh files_inv_parts(8) [OF f] by (simp add: akeys_update)
    qed
    with Some show ?thesis by (simp add: list_outgoing_def Let_def)
  qed (simp add: list_outgoing_def f)
qed

lemma receiving_inv:
  assumes "files_inv r" and "keys_distinct rc"
  shows "files_inv (r\<lparr>f_receiving := rc\<rparr>)"
  using assms(2) files_inv_parts [OF assms(1)] by (intro files_invI [OF assms(1)]) (simp_all add: waiting_def)

lemma begin_receiving_inv [inv_intros]: "files_inv r \<Longrightarrow> files_inv (begin_receiving i p c r)"
  unfolding begin_receiving_def by (rule receiving_inv) (simp_all add: files_inv_parts(3) keys_distinct_update)

lemma end_receiving_inv [inv_intros]: "files_inv r \<Longrightarrow> files_inv (end_receiving i r)"
  unfolding end_receiving_def by (rule receiving_inv) (simp_all add: files_inv_parts(3) keys_distinct_delete)

section \<open>The registry as a machine\<close>

datatype files_op =
    FilesSetRoster "(eid \<times> rstr) list"
  | FilesList instant
  | Admit "rstr list" eid rstr u64 nat conn instant
  | StoreLink rstr
  | DropIncoming rstr
  | Bury rstr conn rstr instant
  | Take rstr instant
  | ListOutgoing "rstr list" eid rstr rstr u64 nat instant
  | StoreConn rstr conn instant
  | DropOutgoing rstr
  | SetState rstr offer_state "rstr option" instant
  | BeginReceiving rstr eid conn
  | EndReceiving rstr

definition files_step :: "registry \<Rightarrow> files_op \<Rightarrow> registry" where
  "files_step r op =
     (case op of
        FilesSetRoster ms \<Rightarrow> fst (files_set_roster ms r)
      | FilesList now \<Rightarrow> forget_history now r
      | Admit cs p n sz ttl c now \<Rightarrow> snd (admit cs p n sz ttl c now r)
      | StoreLink i \<Rightarrow> snd (store_link i r)
      | DropIncoming i \<Rightarrow> drop_incoming i r
      | Bury i c why now \<Rightarrow> snd (bury_incoming i c why now r)
      | Take i now \<Rightarrow> snd (take_answerable i now r)
      | ListOutgoing cs p to n sz ttl now \<Rightarrow> snd (list_outgoing cs p to n sz ttl now r)
      | StoreConn i c e \<Rightarrow> snd (store_conn i c e r)
      | DropOutgoing i \<Rightarrow> drop_outgoing i r
      | SetState i st d now \<Rightarrow> set_state i st d now r
      | BeginReceiving i p c \<Rightarrow> begin_receiving i p c r
      | EndReceiving i \<Rightarrow> end_receiving i r)"

lemma files_list_snd: "snd (files_list x now r) = forget_history now r"
  by (simp add: files_list_def Let_def)

interpretation files_machine: safe_machine files_step "\<lambda>_ _. True" files_inv
  by unfold_locales (auto simp: files_step_def intro: inv_intros split: files_op.split)

lemma files_reachable_inv: "files_inv (foldl files_step no_files ops)"
  by (rule files_machine.run_inv_total) (rule TrueI, rule no_files_inv)

lemma roster_keys: "akeys (fold (\<lambda>(i, n). AList.update i n) ms al) = fst ` set ms \<union> akeys al"
  by (induction ms arbitrary: al) (auto simp: akeys_update split: prod.splits)

interpretation offer_table: roster_bound
  "\<lambda>ms r. fst (files_set_roster ms r)" fst "\<lambda>r. i_peer ` avalues (f_incoming r)" files_inv
  by unfold_locales (simp_all add: files_set_roster_inv, simp add: files_set_roster_def Let_def retain_owners roster_keys)

interpretation transfer_table: roster_bound
  "\<lambda>ms r. fst (files_set_roster ms r)" fst "\<lambda>r. fst ` avalues (f_receiving r)" files_inv
proof
  fix ms :: "(eid \<times> rstr) list" and r
  show "fst ` avalues (f_receiving (fst (files_set_roster ms r))) = fst ` avalues (f_receiving r) \<inter> fst ` set ms"
    by (simp add: files_set_roster_def Let_def retain_fst retain_owners roster_keys)
qed (rule files_set_roster_inv)

text \<open>An id that is not waiting stays so until an offer is admitted under it.\<close>

definition may_admit :: "rstr \<Rightarrow> files_op \<Rightarrow> bool" where
  "may_admit i op = (case op of Admit cs _ _ _ _ _ _ \<Rightarrow> i \<in> set cs | _ \<Rightarrow> False)"

lemma new_id_candidate: "new_id cs r = Some i \<Longrightarrow> i \<in> set cs"
  unfolding new_id_def by (drule find_Some_mem) simp

lemma files_step_absent:
  assumes "map_of (f_incoming r) i = None" and "\<not> may_admit i op"
  shows "map_of (f_incoming (files_step r op)) i = None"
proof -
  have none: "map_of (retain p al) i = None" if "map_of al i = None" for p and al :: "(rstr \<times> incoming) list"
    using that by (induction al) (auto split: if_splits)
  show ?thesis
  proof (cases op)
    case (Admit cs p n sz ttl c now)
    with assms show ?thesis
      by (auto simp: files_step_def admit_def map_of_aupdate may_admit_def dest: new_id_candidate split: option.split)
  qed (use assms in \<open>auto simp: files_step_def files_set_roster_def Let_def none forget_history_def
      store_link_def drop_incoming_def bury_incoming_def take_answerable_def list_outgoing_def store_conn_def
      drop_outgoing_def set_state_def begin_receiving_def end_receiving_def map_of_adelete map_of_aupdate
      split: option.split\<close>)
qed

lemma files_run_absent:
  "map_of (f_incoming r) i = None \<Longrightarrow> \<not> list_ex (may_admit i) ops \<Longrightarrow>
   map_of (f_incoming (foldl files_step r ops)) i = None"
  by (induction ops arbitrary: r) (auto simp: files_step_absent)

lemma take_absent:
  assumes "map_of (f_incoming r) i = None"
  shows "\<exists>e. fst (take_answerable i now r) = Inl e"
  using assms by (auto simp: take_answerable_def Let_def forget_history_def split: option.split)

lemma take_answerable_ok:
  "fst (take_answerable i now r) = Inr offer \<longleftrightarrow>
     (\<exists>o'. map_of (f_incoming r) i = Some o' \<and> i_link o' \<and> now < i_expires_at o' \<and> offer = o'\<lparr>i_link := False\<rparr>)"
  by (auto simp: take_answerable_def Let_def forget_history_def split: option.split)

lemma take_answerable_removes:
  "fst (take_answerable i now r) = Inr offer \<Longrightarrow>
   map_of (f_incoming (snd (take_answerable i now r))) i = None"
  by (auto simp: take_answerable_def Let_def forget_history_def map_of_adelete split: option.splits if_splits)

section \<open>Properties\<close>

text \<open>
  C29: In every state the file registry can reach, whatever its tasks do and in whatever order,
  only current members have offers waiting here, none has more than twenty, and an id names
  one offer: the incoming, the outgoing and the remembered offers share no id.
\<close>

theorem offers_bounded_and_distinct:
  "let r = foldl files_step no_files ops in
    (\<forall>i offer. map_of (f_incoming r) i = Some offer \<longrightarrow> files_is_member (i_peer offer) r) \<and>
    (\<forall>peer. waiting r peer \<le> MAX_PENDING_PER_PEER) \<and>
    (\<forall>i. (map_of (f_incoming r) i \<noteq> None \<longrightarrow> map_of (f_outgoing r) i = None \<and> map_of (f_gone r) i = None) \<and>
         (map_of (f_outgoing r) i \<noteq> None \<longrightarrow> map_of (f_gone r) i = None))"
proof -
  define r where "r = foldl files_step no_files ops"
  have inv: "files_inv r" unfolding r_def by (rule files_reachable_inv)
  have "files_is_member (i_peer offer) r" if "map_of (f_incoming r) i = Some offer" for i offer
    using files_inv_parts(9) [OF inv] map_of_avalues [OF that]
    by (simp add: files_is_member_def) (metis image_subset_iff map_of_eq_None_iff not_Some_eq)
  moreover have "map_of al i \<noteq> None \<longrightarrow> map_of bl i = None" if "akeys al \<inter> akeys bl = {}"
    for al :: "(rstr \<times> 'a) list" and bl :: "(rstr \<times> 'b) list" and i
    using that by (metis disjoint_iff map_of_eq_None_iff)
  ultimately show ?thesis
    using files_inv_parts(5-8) [OF inv] unfolding r_def [symmetric] Let_def by (meson map_of_eq_None_iff disjoint_iff)
qed

text \<open>
  C16: An offer is answered at most once, and only in time. Taking an offer to answer it succeeds
  exactly when it is queued and its window is open; it is then no longer waiting, and no
  sequence of steps that admits nothing under the same id lets anyone take it again.
\<close>

theorem offer_taken_at_most_once:
  assumes "fst (take_answerable i now r) = Inr offer" and "\<not> list_ex (may_admit i) ops"
  shows "(\<exists>o'. map_of (f_incoming r) i = Some o' \<and> i_link o' \<and> now < i_expires_at o' \<and> offer = o'\<lparr>i_link := False\<rparr>) \<and>
    (\<exists>e. fst (take_answerable i later (foldl files_step (snd (take_answerable i now r)) ops)) = Inl e)"
  using assms take_answerable_ok [of i now r offer]
    take_absent [OF files_run_absent [OF take_answerable_removes [OF assms(1)] assms(2)]]
  by blast

text \<open>
  A roster change ends every offer and transfer of whoever is no longer a member, and no
  other: afterwards each incoming offer and each transfer under way is a member's and was
  there before, those of members are all still there, the connections closed are exactly
  those of the rest, with the code for it, and the sender's own list keeps its entries.
\<close>

theorem roster_change_ends_strangers:
  "let (r', fx) = files_set_roster ms r; gone = (\<lambda>peer. peer \<notin> fst ` set ms) in
    set (f_incoming r') = {(i, offer) \<in> set (f_incoming r). \<not> gone (i_peer offer)} \<and>
    set (f_receiving r') = {(i, peer, c) \<in> set (f_receiving r). \<not> gone peer} \<and>
    f_outgoing r' = f_outgoing r \<and>
    set fx = {Close c NOT_MEMBER | c.
      (\<exists>i offer. (i, offer) \<in> set (f_incoming r) \<and> gone (i_peer offer) \<and> i_conn offer = c) \<or>
      (\<exists>i peer. (i, peer, c) \<in> set (f_receiving r) \<and> gone peer) \<or>
      (\<exists>i offer. (i, offer) \<in> set (f_outgoing r) \<and> gone (o_peer offer) \<and> o_conn offer = Some c)}"
proof -
  define cur where "cur = fst ` set ms"
  have k: "akeys (fold (\<lambda>(i, n). AList.update i n) ms []) = cur" by (simp add: roster_keys cur_def)
  have out: "set (List.map_filter (\<lambda>(_, offer). if o_peer offer \<in> cur then None
        else map_option (\<lambda>c. Close c NOT_MEMBER) (o_conn offer)) os) =
      {Close c NOT_MEMBER | c. \<exists>i offer. (i, offer) \<in> set os \<and> o_peer offer \<notin> cur \<and> o_conn offer = Some c}"
    for os :: "(rstr \<times> outgoing) list"
    by (induction os) (auto simp: List.map_filter_simps split: option.splits if_splits, blast)
  have inc: "set (map (\<lambda>(_, offer). Close (i_conn offer) NOT_MEMBER) (filter (\<lambda>(_, offer). i_peer offer \<notin> cur) os)) =
      {Close c NOT_MEMBER | c. \<exists>i offer. (i, offer) \<in> set os \<and> i_peer offer \<notin> cur \<and> i_conn offer = c}"
    for os :: "(rstr \<times> incoming) list" by force
  have rec: "set (map (\<lambda>(_, _, c). Close c NOT_MEMBER) (filter (\<lambda>(_, peer, _). peer \<notin> cur) os)) =
      {Close c NOT_MEMBER | c. \<exists>i peer. (i, peer, c) \<in> set os \<and> peer \<notin> cur}"
    for os :: "(rstr \<times> eid \<times> conn) list" by force
  show ?thesis
    unfolding files_set_roster_def Let_def prod.case k set_append out inc rec
    by (auto simp: set_retain cur_def [symmetric]; blast)
qed

section \<open>Interleavings the code allows\<close>

text \<open>
  A sender removed between the answer and the registration of the transfer is not cut off:
  \<open>accept\<close> registers it without looking at the roster again.
\<close>

lemma removed_sender_keeps_receiving:
  "let r = foldl files_step no_files
       [FilesSetRoster [(Eid [1], lit ''nas'')], Admit [lit ''a1''] (Eid [1]) (lit ''f'') 5 (secs 60) 7 0,
        StoreLink (lit ''a1''), Take (lit ''a1'') 1, FilesSetRoster [], BeginReceiving (lit ''a1'') (Eid [1]) 7]
   in \<not> files_is_member (Eid [1]) r \<and> map_of (f_receiving r) (lit ''a1'') = Some (Eid [1], 7)"
  by (simp add: files_step_def evals MAX_PENDING_PER_PEER_def Let_def)

text \<open>An id still in use by a transfer under way may be given to a new offer.\<close>

lemma new_id_may_repeat_receiving:
  "new_id [i] (begin_receiving i p c no_files) = Some i"
  by (simp add: new_id_def begin_receiving_def no_files_def)

section \<open>Witnesses\<close>

definition demo_files_ops :: "files_op list" where
  "demo_files_ops =
     [FilesSetRoster [(Eid [1], lit ''nas'')], Admit [lit ''a1''] (Eid [1]) (lit ''f'') 5 (secs 60) 7 0,
      StoreLink (lit ''a1'')]"

lemma demo_files_offer:
  "map_of (f_incoming (foldl files_step no_files demo_files_ops)) (lit ''a1'') =
   Some \<lparr>i_peer = Eid [1], i_name = lit ''f'', i_size = 5, i_received_at = 0, i_expires_at = secs 60,
     i_conn = 7, i_link = True\<rparr>"
  by (simp add: demo_files_ops_def files_step_def evals MAX_PENDING_PER_PEER_def Let_def)

theorem offers_bounded_and_distinct_witness:
  "files_is_member (Eid [1]) (foldl files_step no_files demo_files_ops) \<and>
   map_of (f_outgoing (foldl files_step no_files demo_files_ops)) (lit ''a1'') = None"
  using offers_bounded_and_distinct [of demo_files_ops] demo_files_offer by (simp add: Let_def) fastforce

theorem offer_taken_at_most_once_witness:
  "let r = foldl files_step no_files demo_files_ops in
    \<exists>e. fst (take_answerable (lit ''a1'') 3 (foldl files_step (snd (take_answerable (lit ''a1'') 1 r)) [FilesList 2])) = Inl e"
proof -
  have "fst (take_answerable (lit ''a1'') 1 (foldl files_step no_files demo_files_ops)) =
      Inr \<lparr>i_peer = Eid [1], i_name = lit ''f'', i_size = 5, i_received_at = 0, i_expires_at = secs 60,
        i_conn = 7, i_link = False\<rparr>"
    unfolding take_answerable_ok demo_files_offer by (simp add: secs_def)
  from offer_taken_at_most_once [OF this, of "[FilesList 2]" 3] show ?thesis
    by (simp add: may_admit_def)
qed

end
