(* ===== verification/Ip_Text.thy ===== *)
theory Ip_Text
  imports Addr
begin

text \<open>
  The text form of IP addresses, as the standard library's \<open>Display\<close> writes it: what the
  program puts into routing commands, status answers and log lines. An IPv4 address read back
  is the address written, for every address.
\<close>

section \<open>Display\<close>

definition show_ipv4 :: "ipv4 \<Rightarrow> rstr" where
  "show_ipv4 a =
     (case map unat (ipv4_octets a) of
        [b0, b1, b2, b3] \<Rightarrow> decimal b0 @ [46] @ decimal b1 @ [46] @ decimal b2 @ [46] @ decimal b3
      | _ \<Rightarrow> [])"

definition hex_digit :: "nat \<Rightarrow> rchar" where
  "hex_digit d = (if d < 10 then 48 + d else 87 + d)"

fun lower_hex :: "nat \<Rightarrow> rstr" where
  "lower_hex n = (if n < 16 then [hex_digit n] else lower_hex (n div 16) @ [hex_digit (n mod 16)])"

declare lower_hex.simps [simp del]

fun segments :: "u8 list \<Rightarrow> nat list" where
  "segments (a # b # bs) = (256 * unat a + unat b) # segments bs"
| "segments _ = []"

text \<open>The first of the longest runs of zero segments: its start and its length.\<close>

fun longest_zeros :: "nat \<Rightarrow> nat \<times> nat \<Rightarrow> nat \<times> nat \<Rightarrow> nat list \<Rightarrow> nat \<times> nat" where
  "longest_zeros i current longest [] = longest"
| "longest_zeros i current longest (s # ss) =
     (if s = 0 then
        (let current = (if snd current = 0 then (i, 1) else (fst current, Suc (snd current)));
             longest = (if snd current > snd longest then current else longest)
         in longest_zeros (Suc i) current longest ss)
      else longest_zeros (Suc i) (0, 0) longest ss)"

fun join_with :: "rstr \<Rightarrow> rstr list \<Rightarrow> rstr" where
  "join_with sep [] = []"
| "join_with sep [s] = s"
| "join_with sep (s # t # ts) = s @ sep @ join_with sep (t # ts)"

definition fmt_subslice :: "nat list \<Rightarrow> rstr" where
  "fmt_subslice ss = join_with [58] (map lower_hex ss)"

definition show_ipv6 :: "ipv6 \<Rightarrow> rstr" where
  "show_ipv6 a =
     (if take 12 a = replicate 10 0 @ [0xff, 0xff]
      then lit ''::ffff:'' @ show_ipv4 (ipv4_of_octets (drop 12 a))
      else case longest_zeros 0 (0, 0) (0, 0) (segments a) of (start, len) \<Rightarrow>
        if len > 1
        then fmt_subslice (take start (segments a)) @ [58, 58] @ fmt_subslice (drop (start + len) (segments a))
        else fmt_subslice (segments a))"

definition show_ip :: "ipaddr \<Rightarrow> rstr" where
  "show_ip a = (case a of V4 v4 \<Rightarrow> show_ipv4 v4 | V6 v6 \<Rightarrow> show_ipv6 v6)"

lemmas ip_text_evals [evals] = hex_digit_def lower_hex.simps fmt_subslice_def show_ipv6_def show_ip_def

section \<open>An IPv4 address is read back\<close>

lemma to_digit_decimal: "48 \<le> c \<Longrightarrow> c \<le> 57 \<Longrightarrow> to_digit 10 c = Some (c - 48)"
  by (auto simp: to_digit_def is_ascii_digit_def Let_def)

lemma to_digit_dot: "to_digit radix 46 = None"
  by (simp add: to_digit_def is_ascii_digit_def)

text \<open>Reading what \<open>decimal\<close> wrote: digits accumulate, and the rest starts at a non-digit.\<close>

lemma read_digits_run:
  assumes "\<And>c. c \<in> set ds \<Longrightarrow> 48 \<le> c \<and> c \<le> 57"
    and "digits + length ds \<le> maxd" and "foldl (\<lambda>n c. 10 * n + (c - 48)) v ds < limit"
    and "rest = [] \<or> to_digit 10 (hd rest) = None"
  shows "read_digits 10 maxd limit digits v (ds @ rest) =
     Some (foldl (\<lambda>n c. 10 * n + (c - 48)) v ds, digits + length ds, rest)"
  using assms
proof (induction ds arbitrary: digits v)
  case Nil
  then show ?case by (cases rest) auto
next
  case (Cons c ds)
  have mono: "v' \<le> foldl (\<lambda>n c. 10 * n + (c - 48)) v' ds" for v' :: nat
  proof (induction ds arbitrary: v')
    case (Cons c ds)
    show ?case using Cons [of "10 * v' + (c - 48)"] by simp
  qed simp
  have "10 * v + (c - 48) < limit"
    using mono [of "10 * v + (c - 48)"] Cons.prems(3) by simp
  moreover have "to_digit 10 c = Some (c - 48)" using Cons.prems(1) [of c] by (simp add: to_digit_decimal)
  moreover have "read_digits 10 maxd limit (Suc digits) (10 * v + (c - 48)) (ds @ rest) =
      Some (foldl (\<lambda>n c. 10 * n + (c - 48)) (10 * v + (c - 48)) ds, Suc digits + length ds, rest)"
    by (rule Cons.IH) (use Cons.prems in auto)
  ultimately show ?case using Cons.prems(2) by (simp add: mult.commute)
qed

lemma decimal_no_zero_prefix: "starts_with 48 (decimal n @ t) \<Longrightarrow> length (decimal n) = 1"
proof (induction n arbitrary: t rule: decimal.induct)
  case (1 n)
  show ?case
  proof (cases "n < 10")
    case False
    then have d: "decimal n = decimal (n div 10) @ [48 + n mod 10]" by (simp add: decimal.simps [of n])
    with 1 have "length (decimal (n div 10)) = 1" by (metis False append.assoc)
    then have "n div 10 < 10"
      by (cases "n div 10 < 10") (simp_all add: decimal.simps [of "n div 10"])
    with d 1(2) have "n div 10 = 0" by (simp add: decimal.simps [of "n div 10"] starts_with_def)
    with False show ?thesis by simp
  qed (simp add: decimal.simps)
qed

lemma read_number_decimal:
  assumes "n < 256" and "rest = [] \<or> hd rest = 46"
  shows "read_number 10 3 256 False (decimal n @ rest) = Some (n, rest)"
proof -
  have "length (decimal n) \<le> 3" by (rule length_decimal) (use assms in auto)
  moreover have "foldl (\<lambda>n c. 10 * n + (c - 48)) 0 (decimal n) = n"
    using undecimal_decimal [of n] by (simp add: undecimal_def)
  ultimately have "read_digits 10 3 256 0 0 (decimal n @ rest) = Some (n, length (decimal n), rest)"
    using read_digits_run [of "decimal n" 0 3 0 256 rest] decimal_digits [of _ n] assms
    by (auto simp: to_digit_dot)
  moreover have "\<not> (starts_with 48 (decimal n @ rest) \<and> 1 < length (decimal n))"
    using decimal_no_zero_prefix [of n rest] by auto
  ultimately show ?thesis by (simp add: read_number_def)
qed

lemma ipv4_octets_cases:
  obtains b0 b1 b2 b3 where "ipv4_octets a = [b0, b1, b2, b3]"
proof -
  obtain b0 b1 b2 b3 where "u32_to_be a = [b0, b1, b2, b3]" by (simp add: u32_to_be_def)
  then show ?thesis using that by (simp add: ipv4_octets_def)
qed

lemma read_octets:
  fixes b0 b1 b2 b3 :: u8
  shows "read_ipv4_addr (decimal (unat b0) @ [46] @ decimal (unat b1) @ [46] @ decimal (unat b2) @ [46] @
     decimal (unat b3)) = Some ([b0, b1, b2, b3], [])"
proof -
  have b: "unat b < 256" for b :: u8 using unsigned_less [of b, where ?'a = nat] by simp
  have last: "read_number 10 3 256 False (decimal (unat b3)) = Some (unat b3, [])"
    using read_number_decimal [OF b [of b3], of "[]"] by simp
  show ?thesis
    by (simp add: read_ipv4_addr_def read_separator_def read_number_decimal [OF b] last)
qed

lemma read_show_ipv4: "read_ipv4_addr (show_ipv4 a) = Some (ipv4_octets a, [])"
  by (rule ipv4_octets_cases [of a]) (simp add: show_ipv4_def read_octets [simplified])

lemma parse_show_ipv4: "parse_ip (show_ipv4 a) = Some (V4 a)"
  by (simp add: parse_ip_def read_show_ipv4)

lemma show_ipv4_inj: "show_ipv4 a = show_ipv4 b \<Longrightarrow> a = b"
  by (metis parse_show_ipv4 option.inject ipaddr.inject(1))

end
