(* ===== verification/Routes.thy ===== *)
theory Routes
  imports Peers Ip_Text
begin

text \<open>
  \<open>daemon/src/routes.rs\<close>: the host routes the daemon keeps in the system's routing table, one
  per overlay address of a member, and the commands that install and remove them. Running a
  program is a parameter; the set of addresses is a hash set, so the order of the commands of
  one reconciliation is not fixed and its commands are a set.
\<close>

section \<open>Running the routing tool\<close>

record proc_output =
  succeeded :: bool
  out_bytes :: "u8 list"
  err_bytes :: "u8 list"

text \<open>The platform, the interface, and what running a program with arguments gives.\<close>

record route_tool =
  rt_windows :: bool
  rt_iface :: rstr
  rt_exec :: "rstr \<Rightarrow> rstr list \<Rightarrow> (rstr, proc_output) result"

definition run_program :: "route_tool \<Rightarrow> rstr \<Rightarrow> rstr list \<Rightarrow> (rstr, unit) result" where
  "run_program rt program args =
     (case rt_exec rt program args of
        Inl e \<Rightarrow> Inl e
      | Inr out \<Rightarrow>
          if succeeded out then Inr ()
          else let message = trim (utf8_text (err_bytes out));
                   message = (if message = [] then trim (utf8_text (out_bytes out)) else message)
               in Inl (program @ [32] @ join_with [32] args @ lit '': '' @ message))"

text \<open>A single-address prefix.\<close>

definition V4_PREFIX_LEN :: nat where "V4_PREFIX_LEN = 32"

definition V6_PREFIX_LEN :: nat where "V6_PREFIX_LEN = 128"

definition cidr :: "ipaddr \<Rightarrow> rstr" where
  "cidr a =
     (case a of
        V4 v4 \<Rightarrow> show_ipv4 v4 @ [47] @ decimal V4_PREFIX_LEN
      | V6 v6 \<Rightarrow> show_ipv6 v6 @ [47] @ decimal V6_PREFIX_LEN)"

definition is_ipv4 :: "ipaddr \<Rightarrow> bool" where
  "is_ipv4 a = (case a of V4 _ \<Rightarrow> True | V6 _ \<Rightarrow> False)"

definition ip_tool :: "route_tool \<Rightarrow> rstr list \<Rightarrow> ipaddr \<Rightarrow> (rstr, unit) result" where
  "ip_tool rt args a =
     run_program rt (lit ''ip'') ((if is_ipv4 a then lit ''-4'' else lit ''-6'') # args)"

definition netsh :: "route_tool \<Rightarrow> rstr \<Rightarrow> ipaddr \<Rightarrow> (rstr, unit) result" where
  "netsh rt verb a =
     run_program rt (lit ''netsh'')
       [lit ''interface'', if is_ipv4 a then lit ''ipv4'' else lit ''ipv6'', verb, lit ''route'',
        lit ''prefix='' @ cidr a, lit ''interface='' @ rt_iface rt, lit ''store=active'']"

fun str_contains :: "rstr \<Rightarrow> rstr \<Rightarrow> bool" where
  "str_contains pat [] = (pat = [])"
| "str_contains pat (c # s) = (take (length pat) (c # s) = pat \<or> str_contains pat s)"

definition route_add :: "route_tool \<Rightarrow> ipaddr \<Rightarrow> (rstr, unit) result" where
  "route_add rt a =
     (if rt_windows rt
      then case netsh rt (lit ''add'') a of
          Inl e \<Rightarrow> if str_contains (lit ''already exists'') e then Inr () else Inl e
        | Inr u \<Rightarrow> Inr u
      else ip_tool rt [lit ''route'', lit ''replace'', cidr a, lit ''dev'', rt_iface rt] a)"

definition route_remove :: "route_tool \<Rightarrow> ipaddr \<Rightarrow> (rstr, unit) result" where
  "route_remove rt a =
     (if rt_windows rt then netsh rt (lit ''delete'') a
      else ip_tool rt [lit ''route'', lit ''del'', cidr a, lit ''dev'', rt_iface rt] a)"

section \<open>Reconciling\<close>

text \<open>A command of a reconciliation, and whether it succeeded.\<close>

datatype route_cmd = AddRoute ipaddr bool | DelRoute ipaddr bool

definition routes_sync :: "route_tool \<Rightarrow> ipaddr set \<Rightarrow> ipaddr set \<Rightarrow> ipaddr set \<times> route_cmd set" where
  "routes_sync rt wanted installed =
     (let added = (\<lambda>a. AddRoute a (is_ok (route_add rt a))) ` (wanted - installed);
          removed = (\<lambda>a. DelRoute a (is_ok (route_remove rt a))) ` (installed - wanted)
      in (wanted, added \<union> removed))"

lemmas routes_evals [evals] = run_program_def V4_PREFIX_LEN_def V6_PREFIX_LEN_def cidr_def is_ipv4_def
  ip_tool_def netsh_def route_add_def route_remove_def

section \<open>The table behind the commands\<close>

text \<open>
  What the system's table holds after the commands, taking a command that succeeded to have done
  what it says, and the log of every command run.
\<close>

definition table_after :: "route_cmd set \<Rightarrow> ipaddr set \<Rightarrow> ipaddr set" where
  "table_after cmds t = (t \<union> {a. AddRoute a True \<in> cmds}) - {a. DelRoute a True \<in> cmds}"

definition sync_logged ::
    "ipaddr set \<times> ipaddr set \<times> route_cmd set \<Rightarrow> route_tool \<times> ipaddr set \<Rightarrow>
     ipaddr set \<times> ipaddr set \<times> route_cmd set" where
  "sync_logged st e =
     (case st of (installed, t, log) \<Rightarrow> case e of (rt, wanted) \<Rightarrow>
        case routes_sync rt wanted installed of (installed, cmds) \<Rightarrow>
          (installed, table_after cmds t, log \<union> cmds))"

definition table_inv :: "ipaddr set \<times> ipaddr set \<times> route_cmd set \<Rightarrow> bool" where
  "table_inv st =
     (case st of (installed, t, log) \<Rightarrow>
        t - installed \<subseteq> {a. DelRoute a False \<in> log} \<and> installed - t \<subseteq> {a. AddRoute a False \<in> log})"

lemma sync_commands:
  assumes "routes_sync rt wanted installed = (now, cmds)"
  shows "now = wanted" and
    "AddRoute a ok \<in> cmds \<longleftrightarrow> a \<in> wanted \<and> a \<notin> installed \<and> ok = is_ok (route_add rt a)" and
    "DelRoute a ok \<in> cmds \<longleftrightarrow> a \<in> installed \<and> a \<notin> wanted \<and> ok = is_ok (route_remove rt a)"
  using assms by (auto simp: routes_sync_def)

lemma sync_logged_inv: "table_inv st \<Longrightarrow> table_inv (sync_logged st e)"
proof -
  obtain installed t log rt wanted where st: "st = (installed, t, log)" and e: "e = (rt, wanted)"
    by (metis prod_cases3 surj_pair)
  obtain now cmds where s: "routes_sync rt wanted installed = (now, cmds)" by force
  assume inv: "table_inv st"
  have "a \<in> wanted \<or> DelRoute a False \<in> log \<union> cmds" if "a \<in> table_after cmds t" for a
    using that inv by (cases "is_ok (route_remove rt a)") (auto simp: table_after_def table_inv_def st sync_commands [OF s])
  moreover have "a \<in> table_after cmds t \<or> AddRoute a False \<in> log \<union> cmds" if "a \<in> wanted" for a
    using that inv by (cases "is_ok (route_add rt a)") (auto simp: table_after_def table_inv_def st sync_commands [OF s])
  ultimately show ?thesis by (auto simp: sync_logged_def st e s table_inv_def sync_commands(1) [OF s])
qed

interpretation route_machine: safe_machine sync_logged "\<lambda>_ _. True" table_inv
  by unfold_locales (rule sync_logged_inv)

text \<open>The table of a fresh daemon reconciled with a history of wanted sets.\<close>

definition routed :: "(route_tool \<times> ipaddr set) list \<Rightarrow> ipaddr set \<times> ipaddr set \<times> route_cmd set" where
  "routed es = foldl sync_logged ({}, {}, {}) es"

lemma routed_inv: "table_inv (routed es)"
  unfolding routed_def by (rule route_machine.run_inv_total) (simp_all add: table_inv_def)

lemma installed_is_wanted: "fst (routed (es @ [(rt, wanted)])) = wanted"
  by (cases "foldl sync_logged ({}, {}, {}) es") (simp add: routed_def sync_logged_def routes_sync_def)

text \<open>
  A second reconciliation with the same addresses runs nothing: a route whose installation
  failed is recorded as installed, and is only tried again after it was unwanted for a while.
\<close>

lemma failed_route_is_not_retried:
  assumes "\<not> is_ok (route_add rt a)"
  shows "sync_logged (sync_logged ({}, {}, {}) (rt, {a})) (rt, {a}) = ({a}, {}, {AddRoute a False})"
  using assms by (simp add: sync_logged_def routes_sync_def table_after_def Let_def)

section \<open>Properties\<close>

text \<open>
  C33: The routing table follows the roster through any history of reconciliations. Once the last
  one asked for \<open>wanted\<close>, an address in the table that is not wanted is one whose removal
  failed, an address wanted and missing is one whose installation failed, and each
  reconciliation runs one command per address that changed and none for the others.
\<close>

theorem routes_follow_the_roster:
  "let (installed, t, log) = routed (es @ [(rt, wanted)]);
       (before, t0, log0) = routed es
   in t - wanted \<subseteq> {a. DelRoute a False \<in> log} \<and> wanted - t \<subseteq> {a. AddRoute a False \<in> log} \<and>
      installed = wanted \<and>
      log = log0 \<union> {AddRoute a ok |a ok. a \<in> wanted - before \<and> ok = is_ok (route_add rt a)} \<union>
        {DelRoute a ok |a ok. a \<in> before - wanted \<and> ok = is_ok (route_remove rt a)}"
proof -
  obtain before t0 log0 where b: "routed es = (before, t0, log0)" by (metis prod_cases3)
  obtain installed t log where r: "routed (es @ [(rt, wanted)]) = (installed, t, log)" by (metis prod_cases3)
  have "installed = wanted" using installed_is_wanted [of es rt wanted] r by simp
  moreover have "table_inv (installed, t, log)" using routed_inv [of "es @ [(rt, wanted)]"] r by simp
  moreover have "log = log0 \<union> snd (routes_sync rt wanted before)"
    using r b by (simp add: routed_def sync_logged_def split: prod.splits)
  moreover have "snd (routes_sync rt wanted before) =
      {AddRoute a ok |a ok. a \<in> wanted - before \<and> ok = is_ok (route_add rt a)} \<union>
        {DelRoute a ok |a ok. a \<in> before - wanted \<and> ok = is_ok (route_remove rt a)}"
    by (auto simp: routes_sync_def)
  ultimately show ?thesis by (simp add: r b table_inv_def Un_assoc)
qed

end
