(* ===== verification/Authz.thy ===== *)
theory Authz
  imports Proto
begin

text \<open>
  \<open>daemon/src/authz.rs\<close> and \<open>daemon/src/settings.rs\<close>: who is on the other end of the local socket,
  which commands they may run, and the settings that name the operator. What the operating
  system tells of its accounts, and the JSON parser, are parameters.
\<close>

section \<open>Callers\<close>

text \<open>The platform the daemon was built for, and its table of accounts.\<close>

record accounts =
  on_windows :: bool
  name_of_uid :: "u32 \<Rightarrow> rstr option"
  uid_of_name :: "rstr \<Rightarrow> u32 option"

datatype caller =
    Uid u32
  | WindowsCaller (sid: rstr) (account: "rstr option") (elevated: bool)
  | UnknownCaller

text \<open>\<open>Caller::of\<close>, from what the platform reported of the connection.\<close>

datatype credentials =
    UnixPeer "u32 option"
  | WindowsPeer "(rstr \<times> rstr option \<times> bool) option"
  | OtherPeer

definition caller_of :: "credentials \<Rightarrow> caller" where
  "caller_of creds =
     (case creds of
        UnixPeer (Some uid) \<Rightarrow> Uid uid
      | UnixPeer None \<Rightarrow> UnknownCaller
      | WindowsPeer (Some (s, a, e)) \<Rightarrow> WindowsCaller s a e
      | WindowsPeer None \<Rightarrow> UnknownCaller
      | OtherPeer \<Rightarrow> UnknownCaller)"

record operator =
  op_uid :: "u32 option"
  op_sid :: "rstr option"

definition is_superuser :: "caller \<Rightarrow> bool" where
  "is_superuser c =
     (case c of Uid uid \<Rightarrow> uid = 0 | WindowsCaller _ _ e \<Rightarrow> e | UnknownCaller \<Rightarrow> False)"

definition is_operator :: "operator \<Rightarrow> caller \<Rightarrow> bool" where
  "is_operator oper c =
     (case c of
        Uid uid \<Rightarrow> op_uid oper = Some uid
      | WindowsCaller s _ _ \<Rightarrow> op_sid oper = Some s
      | UnknownCaller \<Rightarrow> False)"

definition user_name :: "accounts \<Rightarrow> u32 \<Rightarrow> rstr option" where
  "user_name os uid = (if on_windows os then None else name_of_uid os uid)"

definition describe :: "accounts \<Rightarrow> caller \<Rightarrow> rstr" where
  "describe os c =
     (case c of
        Uid uid \<Rightarrow>
          (case user_name os uid of
             Some name \<Rightarrow> name @ lit '' (uid '' @ decimal (unat uid) @ lit '')''
           | None \<Rightarrow> lit ''uid '' @ decimal (unat uid))
      | WindowsCaller s a _ \<Rightarrow>
          (case a of Some name \<Rightarrow> name @ lit '' ('' @ s @ lit '')'' | None \<Rightarrow> s)
      | UnknownCaller \<Rightarrow> lit ''unidentified caller'')"

section \<open>The check\<close>

definition is_read_only :: "request \<Rightarrow> bool" where
  "is_read_only req =
     (case req of
        Status \<Rightarrow> True
      | Ping _ \<Rightarrow> True
      | CreateNetwork _ _ \<Rightarrow> False
      | Invite _ \<Rightarrow> False
      | Join _ _ \<Rightarrow> False
      | Leave \<Rightarrow> False
      | SetHostname _ _ \<Rightarrow> False
      | SetOperator _ \<Rightarrow> False
      | KickPeer _ \<Rightarrow> False
      | FileSend _ _ _ _ \<Rightarrow> False
      | FileList \<Rightarrow> False
      | FileAccept _ \<Rightarrow> False
      | FileReject _ \<Rightarrow> False)"

abbreviation em_dash :: rchar where "em_dash \<equiv> 0x2014"

definition denial :: "accounts \<Rightarrow> caller \<Rightarrow> rstr" where
  "denial os c =
     describe os c @ lit '' is not authorized '' @ [em_dash] @
     (if on_windows os
      then lit '' run elevated, or reinstall to make this account the operator''
      else lit '' run as root, or have the operator set with `sudo quix set-operator <user>`'')"

text \<open>\<open>authz::check\<close>; the name \<open>check\<close> is taken by the file name check.\<close>

definition authorize :: "accounts \<Rightarrow> request \<Rightarrow> caller \<Rightarrow> operator \<Rightarrow> (rstr, unit) result" where
  "authorize os req c oper =
     (if is_read_only req \<or> is_superuser c \<or> is_operator oper c then Inr () else Inl (denial os c))"

section \<open>Resolving a user\<close>

definition parse_u32 :: "rstr \<Rightarrow> u32 option" where
  "parse_u32 s = map_option of_nat (parse_unsigned (2 ^ 32) s)"

datatype resolve_error = NoSuchUser rstr | OperatorUnsupported rstr

definition resolve_user :: "accounts \<Rightarrow> rstr \<Rightarrow> (resolve_error, u32) result" where
  "resolve_user os user =
     (if on_windows os then Inl (OperatorUnsupported user)
      else case parse_u32 user of
        Some uid \<Rightarrow> Inr uid
      | None \<Rightarrow> (case uid_of_name os user of Some uid \<Rightarrow> Inr uid | None \<Rightarrow> Inl (NoSuchUser user)))"

section \<open>Settings\<close>

record settings =
  operator_uid :: "u32 option"
  operator_sid :: "rstr option"
  operator_name :: "rstr option"

definition default_settings :: settings where
  "default_settings = \<lparr>operator_uid = None, operator_sid = None, operator_name = None\<rparr>"

text \<open>What reading the settings file gives, and serde's parser of its contents.\<close>

datatype file_read = FileMissing | FileUnreadable | FileText rstr

type_synonym settings_json = "rstr \<Rightarrow> settings option"

datatype settings_error = SettingsUnreadable | SettingsUnparsable

definition settings_parse :: "settings_json \<Rightarrow> rstr \<Rightarrow> settings option" where
  "settings_parse json data = json (trim_start_matches (\<lambda>c. c = 0xFEFF) data)"

definition settings_load :: "settings_json \<Rightarrow> file_read \<Rightarrow> (settings_error, settings) result" where
  "settings_load json f =
     (case f of
        FileText data \<Rightarrow>
          (case settings_parse json data of Some s \<Rightarrow> Inr s | None \<Rightarrow> Inl SettingsUnparsable)
      | FileMissing \<Rightarrow> Inr default_settings
      | FileUnreadable \<Rightarrow> Inl SettingsUnreadable)"

text \<open>The daemon starts without an operator when the settings cannot be loaded.\<close>

definition settings_at_start :: "settings_json \<Rightarrow> file_read \<Rightarrow> settings" where
  "settings_at_start json f =
     (case settings_load json f of Inr s \<Rightarrow> s | Inl _ \<Rightarrow> default_settings)"

definition operator_of :: "settings \<Rightarrow> operator" where
  "operator_of s = \<lparr>op_uid = operator_uid s, op_sid = operator_sid s\<rparr>"

definition set_operator :: "rstr \<Rightarrow> u32 \<Rightarrow> settings \<Rightarrow> settings" where
  "set_operator name uid s = s\<lparr>operator_uid := Some uid, operator_name := Some name\<rparr>"

lemmas authz_evals [evals] = caller_of_def is_superuser_def is_operator_def user_name_def
  describe_def is_read_only_def denial_def authorize_def parse_u32_def resolve_user_def
  default_settings_def settings_parse_def settings_load_def settings_at_start_def
  operator_of_def set_operator_def undecimal_def

section \<open>Lemmas\<close>

lemma is_read_only_iff: "is_read_only req \<longleftrightarrow> req = Status \<or> (\<exists>p. req = Ping p)"
  by (cases req) (simp_all add: is_read_only_def)

lemma authorize_read_only [simp]: "is_read_only req \<Longrightarrow> authorize os req c oper = Inr ()"
  by (simp add: authorize_def)

lemma authorize_mutating:
  "\<not> is_read_only req \<Longrightarrow>
   authorize os req c oper = (if is_superuser c \<or> is_operator oper c then Inr () else Inl (denial os c))"
  by (simp add: authorize_def)

lemma authorize_Inl: "authorize os req c oper = Inl e \<Longrightarrow> e = denial os c \<and> \<not> is_read_only req"
  by (simp add: authorize_def split: if_splits)

lemma authorize_Inr:
  "authorize os req c oper = Inr u \<longleftrightarrow> is_read_only req \<or> is_superuser c \<or> is_operator oper c"
  by (simp add: authorize_def)

text \<open>Settings that cannot be read name nobody: only a superuser passes.\<close>

lemma unreadable_settings_grant_nothing:
  "settings_load json f = Inl e \<Longrightarrow> \<not> is_operator (operator_of (settings_at_start json f)) c"
  by (cases c) (simp_all add: settings_at_start_def default_settings_def operator_of_def is_operator_def)

lemma byte_order_marks_are_skipped:
  "settings_load json (FileText (replicate n 0xFEFF @ data)) = settings_load json (FileText data)"
  by (induction n) (simp_all add: settings_load_def settings_parse_def trim_start_matches_def)

lemma parse_u32_decimal: "parse_u32 (decimal (unat u)) = Some u"
  using unsigned_less [of u, where ?'a = nat] by (simp add: parse_u32_def)

section \<open>Properties\<close>

text \<open>
  C40: Exactly the intended callers may change anything. Once \<open>set-operator\<close> has resolved a user
  to a uid and stored it, a command other than \<open>status\<close> and \<open>ping\<close> is allowed to root, to
  that uid and to no other uid, whoever was the operator before; to an elevated Windows
  caller or one with the stored SID, which the command does not touch; and never to a caller
  the platform could not identify. A refusal starts with the description of who was refused.
\<close>

theorem operator_takes_effect:
  assumes "resolve_user os user = Inr uid" and "\<not> is_read_only req"
  shows "(authorize os req c (operator_of (set_operator user uid s)) = Inr () \<longleftrightarrow>
      (case c of
         Uid u \<Rightarrow> u = 0 \<or> u = uid
       | WindowsCaller i _ e \<Rightarrow> e \<or> operator_sid s = Some i
       | UnknownCaller \<Rightarrow> False)) \<and>
    (\<exists>why. authorize os req c (operator_of (set_operator user uid s)) \<in>
      {Inr (), Inl (describe os c @ why)}) \<and>
    (parse_u32 user = Some uid \<or> uid_of_name os user = Some uid) \<and> \<not> on_windows os"
proof (intro conjI)
  show "authorize os req c (operator_of (set_operator user uid s)) = Inr () \<longleftrightarrow>
      (case c of Uid u \<Rightarrow> u = 0 \<or> u = uid | WindowsCaller i _ e \<Rightarrow> e \<or> operator_sid s = Some i
       | UnknownCaller \<Rightarrow> False)"
    using assms(2)
    by (cases c) (auto simp: authorize_Inr is_superuser_def is_operator_def operator_of_def set_operator_def)
  show "\<exists>why. authorize os req c (operator_of (set_operator user uid s)) \<in>
      {Inr (), Inl (describe os c @ why)}"
    by (auto simp: authorize_def denial_def)
  show "parse_u32 user = Some uid \<or> uid_of_name os user = Some uid" "\<not> on_windows os"
    using assms(1) by (auto simp: resolve_user_def split: if_splits option.splits)
qed

definition witness_accounts :: accounts where
  "witness_accounts = \<lparr>on_windows = False, name_of_uid = \<lambda>_. None, uid_of_name = \<lambda>_. None\<rparr>"

theorem operator_takes_effect_witness:
  "authorize witness_accounts Leave (Uid 1000)
     (operator_of (set_operator (lit ''1000'') 1000 default_settings)) = Inr () \<and>
   authorize witness_accounts Leave (Uid 1001)
     (operator_of (set_operator (lit ''1000'') 1000 default_settings)) \<noteq> Inr ()"
proof -
  have r: "resolve_user witness_accounts (lit ''1000'') = Inr 1000" "\<not> is_read_only Leave"
    by (simp_all add: evals witness_accounts_def)
  have "(1001 :: u32) \<noteq> 0" "(1001 :: u32) \<noteq> 1000" by simp_all
  then show ?thesis
    using operator_takes_effect [OF r, of "Uid 1000" default_settings]
      operator_takes_effect [OF r, of "Uid 1001" default_settings] by simp
qed

end
