(* ===== verification/Node.thy ===== *)
theory Node
  imports Membership Files Routes Authz
begin

text \<open>
  \<open>daemon/src/state.rs\<close>: the node, which owns the roster, the forwarding tables, the file
  registry, the host routes and the settings, and keeps the tables behind the roster. Writing
  \<open>network.json\<close> may fail (\<open>saves\<close>), which is an early return of every operation that saves.
  Closed connections, routing commands and dial requests are effects.

  \<open>refresh_routes\<close> first reads the roster under its lock and then applies what it read; the two
  halves are separate here, because another task may run in between.
\<close>

section \<open>State\<close>

record node =
  n_own :: eid
  n_membership :: membership
  n_settings :: settings
  n_peers :: peers
  n_installed :: "ipaddr set"
  n_conflicts :: "conflict list"
  n_dns :: dns_registration
  n_files :: registry

definition new_node :: "eid \<Rightarrow> membership \<Rightarrow> settings \<Rightarrow> node" where
  "new_node own m s =
     \<lparr>n_own = own, n_membership = m, n_settings = s, n_peers = no_peers, n_installed = {},
      n_conflicts = [], n_dns = DnsUnavailable None None, n_files = no_files\<rparr>"

record node_fx =
  fx_closed :: "effect list"
  fx_routes :: "route_cmd set"
  fx_dials :: "eid list"

definition no_fx :: node_fx where
  "no_fx = \<lparr>fx_closed = [], fx_routes = {}, fx_dials = []\<rparr>"

text \<open>What an operation meets: the routing tool, whether its save succeeds, and the clock.\<close>

record env =
  e_tool :: route_tool
  e_saves :: bool
  e_now :: int

abbreviation own_str :: "externs \<Rightarrow> node \<Rightarrow> rstr" where
  "own_str x n \<equiv> id_show x (n_own n)"

section \<open>Reading\<close>

definition state_hostname :: "externs \<Rightarrow> node \<Rightarrow> rstr option" where
  "state_hostname x n = hostname_of (n_membership n) (own_str x n)"

definition hostnames :: "node \<Rightarrow> (rstr \<times> rstr) list" where
  "hostnames n =
     fold (\<lambda>(i, h). AList.update i h)
       (List.map_filter (\<lambda>p. map_option (\<lambda>h. (mid p, h)) (hostname p)) (roster (n_membership n))) []"

text \<open>An id that does not parse gives the addresses of the empty key.\<close>

definition all_addrs :: "externs \<Rightarrow> node \<Rightarrow> (rstr \<times> ipv4 \<times> ipv6) list" where
  "all_addrs x n =
     map (\<lambda>p. (mid p, virtual_addrs (sha256 x) (case id_parse x (mid p) of Some i \<Rightarrow> as_bytes i | None \<Rightarrow> [])))
       (roster (n_membership n))"

datatype find_error = NotInNetwork rstr | ThisNode | UnusableId rstr

definition find_peer :: "externs \<Rightarrow> rstr \<Rightarrow> node \<Rightarrow> (find_error, eid \<times> rstr) result" where
  "find_peer x query n =
     (case find_member x (n_membership n) query of
        None \<Rightarrow> Inl (NotInNetwork (trim query))
      | Some p \<Rightarrow>
          if mid p = own_str x n then Inl ThisNode
          else case id_parse x (mid p) of
            None \<Rightarrow> Inl (UnusableId (mid p))
          | Some i \<Rightarrow> Inr (i, display (mid p) (hostname p)))"

section \<open>Refreshing the tables\<close>

definition refresh_read :: "externs \<Rightarrow> node \<Rightarrow> (eid \<times> rstr) list \<times> eid list" where
  "refresh_read x n =
     (filter (\<lambda>(i, _). i \<noteq> n_own n)
        (List.map_filter (\<lambda>p. map_option (\<lambda>i. (i, display (mid p) (hostname p))) (id_parse x (mid p)))
          (roster (n_membership n))),
      filter (\<lambda>i. i \<noteq> n_own n) (member_ids x (n_membership n)))"

definition refresh_apply ::
    "externs \<Rightarrow> route_tool \<Rightarrow> (eid \<times> rstr) list \<times> eid list \<Rightarrow> node \<Rightarrow> node \<times> node_fx" where
  "refresh_apply x tool read n =
     (case read of (named, ms) \<Rightarrow>
        case files_set_roster named (n_files n) of (files, offers_closed) \<Rightarrow>
        case set_routes x ms (n_peers n) of (p, links_closed) \<Rightarrow>
        case routes_sync tool (routed_addrs p) (n_installed n) of (installed, cmds) \<Rightarrow>
          (n\<lparr>n_files := files, n_peers := p, n_installed := installed\<rparr>,
           \<lparr>fx_closed = offers_closed @ links_closed, fx_routes = cmds, fx_dials = unlinked p\<rparr>))"

definition refresh_routes :: "externs \<Rightarrow> route_tool \<Rightarrow> node \<Rightarrow> node \<times> node_fx" where
  "refresh_routes x tool n = refresh_apply x tool (refresh_read x n) n"

section \<open>Changing\<close>

text \<open>The tail most operations share: \<open>m.save()?; drop(m); self.refresh_routes()\<close>.\<close>

datatype node_error = SaveFailed | NameRefused name_error

type_synonym 'a outcome = "(node_error, 'a) result \<times> node \<times> node_fx"

definition save_then_refresh :: "externs \<Rightarrow> env \<Rightarrow> 'a \<Rightarrow> node \<Rightarrow> 'a outcome" where
  "save_then_refresh x e a n =
     (if e_saves e then (case refresh_routes x (e_tool e) n of (n, fx) \<Rightarrow> (Inr a, n, fx))
      else (Inl SaveFailed, n, no_fx))"

definition state_create_network :: "externs \<Rightarrow> env \<Rightarrow> rstr \<Rightarrow> rstr \<Rightarrow> rstr option \<Rightarrow> node \<Rightarrow> unit outcome" where
  "state_create_network x e fresh name host n =
     save_then_refresh x e ()
       (n\<lparr>n_membership := create fresh name (own_str x n) host (n_membership n)\<rparr>)"

definition state_generate_invite :: "externs \<Rightarrow> env \<Rightarrow> token \<Rightarrow> int \<Rightarrow> node \<Rightarrow> (rstr \<times> int) outcome" where
  "state_generate_invite x e tok ttl n =
     (case generate_invite x tok (n_own n) ttl (e_now e) (n_membership n) of (res, m) \<Rightarrow>
        (if e_saves e then Inr res else Inl SaveFailed, n\<lparr>n_membership := m\<rparr>, no_fx))"

definition state_redeem_invite ::
    "externs \<Rightarrow> env \<Rightarrow> token \<Rightarrow> rstr \<Rightarrow> rstr option \<Rightarrow> node \<Rightarrow> (member list \<times> rstr option) option outcome" where
  "state_redeem_invite x e tok requester host n =
     (case redeem_invite tok requester (e_now e) (n_membership n) of
        (False, m) \<Rightarrow> (Inr None, n\<lparr>n_membership := m\<rparr>, no_fx)
      | (True, m) \<Rightarrow>
          (case (case host of
               None \<Rightarrow> (None, m)
             | Some requested \<Rightarrow>
                 (case claim_hostname requester requested False m of
                    (Inr name, m) \<Rightarrow> (Some name, m)
                  | (Inl _, m) \<Rightarrow> (None, m))) of
             (assigned, m) \<Rightarrow>
               save_then_refresh x e (Some (roster m, assigned)) (n\<lparr>n_membership := m\<rparr>)))"

definition state_claim_hostname ::
    "env \<Rightarrow> rstr \<Rightarrow> rstr \<Rightarrow> bool \<Rightarrow> node \<Rightarrow> (name_error, rstr) result outcome" where
  "state_claim_hostname e claimant requested force n =
     (case claim_hostname claimant requested force (n_membership n) of
        (outcome, m) \<Rightarrow>
          (if is_ok outcome \<and> \<not> e_saves e then Inl SaveFailed else Inr outcome,
           n\<lparr>n_membership := m\<rparr>, no_fx))"

definition state_adopt_hostname :: "externs \<Rightarrow> env \<Rightarrow> rstr \<Rightarrow> node \<Rightarrow> unit outcome" where
  "state_adopt_hostname x e host n =
     (case claim_hostname (own_str x n) host True (n_membership n) of
        (Inl err, m) \<Rightarrow> (Inl (NameRefused err), n\<lparr>n_membership := m\<rparr>, no_fx)
      | (Inr _, m) \<Rightarrow> (if e_saves e then Inr () else Inl SaveFailed, n\<lparr>n_membership := m\<rparr>, no_fx))"

definition state_set_joined ::
    "externs \<Rightarrow> env \<Rightarrow> rstr \<Rightarrow> rstr option \<Rightarrow> member list \<Rightarrow> node \<Rightarrow> unit outcome" where
  "state_set_joined x e coordinator name ps n =
     save_then_refresh x e ()
       (n\<lparr>n_membership := set_joined coordinator (own_str x n) name ps (n_membership n)\<rparr>)"

definition state_set_roster :: "externs \<Rightarrow> env \<Rightarrow> rstr option \<Rightarrow> member list \<Rightarrow> node \<Rightarrow> unit outcome" where
  "state_set_roster x e name ps n =
     (case set_roster (own_str x n) name ps (n_membership n) of
        (conflicts, m) \<Rightarrow>
          if e_saves e
          then save_then_refresh x e () (n\<lparr>n_membership := m, n_conflicts := conflicts\<rparr>)
          else (Inl SaveFailed, n\<lparr>n_membership := m\<rparr>, no_fx))"

text \<open>Links are closed before the routes are rebuilt, with the code for having left.\<close>

definition state_leave :: "externs \<Rightarrow> env \<Rightarrow> node \<Rightarrow> rstr option outcome" where
  "state_leave x e n =
     (let name = network_name (n_membership n);
          n = n\<lparr>n_membership := leave (n_membership n)\<rparr>
      in if e_saves e
         then case close_all (n_peers n) of (p, closed) \<Rightarrow>
              (case save_then_refresh x e name (n\<lparr>n_peers := p\<rparr>) of
                 (res, n, fx) \<Rightarrow> (res, n, fx\<lparr>fx_closed := closed @ fx_closed fx\<rparr>))
         else (Inl SaveFailed, n, no_fx))"

definition state_kick :: "externs \<Rightarrow> env \<Rightarrow> rstr \<Rightarrow> node \<Rightarrow> (kick_error, member) result outcome" where
  "state_kick x e query n =
     (case kick x query (own_str x n) (n_membership n) of
        (Inl err, m) \<Rightarrow> (Inr (Inl err), n\<lparr>n_membership := m\<rparr>, no_fx)
      | (Inr p, m) \<Rightarrow> save_then_refresh x e (Inr p) (n\<lparr>n_membership := m\<rparr>))"

definition state_remove_member :: "externs \<Rightarrow> env \<Rightarrow> rstr \<Rightarrow> node \<Rightarrow> bool outcome" where
  "state_remove_member x e i n =
     (case remove_member i (n_membership n) of
        (False, m) \<Rightarrow> (Inr False, n\<lparr>n_membership := m\<rparr>, no_fx)
      | (True, m) \<Rightarrow> save_then_refresh x e True (n\<lparr>n_membership := m\<rparr>))"

definition state_operator :: "node \<Rightarrow> operator" where
  "state_operator n = operator_of (n_settings n)"

definition state_set_operator :: "env \<Rightarrow> rstr \<Rightarrow> u32 \<Rightarrow> node \<Rightarrow> unit outcome" where
  "state_set_operator e name uid n =
     (if e_saves e then Inr () else Inl SaveFailed,
      n\<lparr>n_settings := set_operator name uid (n_settings n)\<rparr>, no_fx)"

definition state_set_dns :: "dns_registration \<Rightarrow> node \<Rightarrow> node" where
  "state_set_dns d n = n\<lparr>n_dns := d\<rparr>"

lemmas node_evals [evals] = new_node_def no_fx_def refresh_read_def refresh_apply_def refresh_routes_def
  save_then_refresh_def state_create_network_def state_generate_invite_def state_redeem_invite_def
  state_claim_hostname_def state_adopt_hostname_def state_set_joined_def state_set_roster_def
  state_leave_def state_kick_def state_remove_member_def state_set_operator_def state_set_dns_def
  find_peer_def state_hostname_def hostnames_def all_addrs_def

section \<open>The tables in force\<close>

definition others :: "externs \<Rightarrow> node \<Rightarrow> eid list" where
  "others x n = snd (refresh_read x n)"

definition in_force :: "externs \<Rightarrow> node \<Rightarrow> bool" where
  "in_force x n \<longleftrightarrow>
     routes (n_peers n) = routes_of x (remdups (others x n)) \<and>
     n_installed n = routed_addrs (n_peers n) \<and>
     akeys (f_roster (n_files n)) = set (others x n)"

definition node_inv :: "externs \<Rightarrow> node \<Rightarrow> bool" where
  "node_inv x n \<longleftrightarrow>
     roster_inv (n_membership n) \<and> peers_inv (n_peers n) \<and> files_inv (n_files n) \<and> in_force x n"

lemma others_def': "others x n = filter (\<lambda>i. i \<noteq> n_own n) (member_ids x (n_membership n))"
  by (simp add: others_def refresh_read_def)

lemma set_others:
  "set (others x n) = {i. i \<noteq> n_own n \<and> (\<exists>p \<in> set (members (n_membership n)). id_parse x (mid p) = Some i)}"
  by (force simp: others_def' member_ids_def set_map_filter)

lemma set_roster_sorted [simp]: "set (roster m) = set (members m)"
  by (simp add: roster_def)

lemma named_others: "fst ` set (fst (refresh_read x n)) = set (others x n)"
  by (force simp: set_others refresh_read_def set_map_filter)

lemma others_cong:
  "n_own n' = n_own n \<Longrightarrow> map mid (members (n_membership n')) = map mid (members (n_membership n)) \<Longrightarrow>
   others x n' = others x n"
proof -
  have m: "List.map_filter (\<lambda>p. id_parse x (mid p)) ps = List.map_filter (id_parse x) (map mid ps)" for ps
    by (simp add: List.map_filter_def filter_map comp_def)
  assume "n_own n' = n_own n" and "map mid (members (n_membership n')) = map mid (members (n_membership n))"
  then show ?thesis by (simp add: others_def' member_ids_def m)
qed

lemma in_force_cong:
  "in_force x n \<Longrightarrow> others x n' = others x n \<Longrightarrow> routes (n_peers n') = routes (n_peers n) \<Longrightarrow>
   n_installed n' = n_installed n \<Longrightarrow> f_roster (n_files n') = f_roster (n_files n) \<Longrightarrow> in_force x n'"
  by (simp add: in_force_def routed_addrs_def)

text \<open>Where the tables come from: the node after a refresh, and what it did.\<close>

lemma refresh_frame [frame_simps]:
  "n_own (fst (refresh_routes x tool n)) = n_own n"
  "n_membership (fst (refresh_routes x tool n)) = n_membership n"
  "n_settings (fst (refresh_routes x tool n)) = n_settings n"
  "n_conflicts (fst (refresh_routes x tool n)) = n_conflicts n"
  "n_dns (fst (refresh_routes x tool n)) = n_dns n"
  by (simp_all add: refresh_routes_def refresh_apply_def split: prod.split)

lemma refresh_parts:
  "n_peers (fst (refresh_routes x tool n)) = fst (set_routes x (others x n) (n_peers n))"
  "n_files (fst (refresh_routes x tool n)) = fst (files_set_roster (fst (refresh_read x n)) (n_files n))"
  "n_installed (fst (refresh_routes x tool n)) = routed_addrs (fst (set_routes x (others x n) (n_peers n)))"
  by (simp_all add: refresh_routes_def refresh_apply_def others_def routes_sync_def split: prod.split)

lemma refresh_fx:
  "fx_closed (snd (refresh_routes x tool n)) =
     snd (files_set_roster (fst (refresh_read x n)) (n_files n)) @ snd (set_routes x (others x n) (n_peers n))"
  "fx_dials (snd (refresh_routes x tool n)) = unlinked (n_peers (fst (refresh_routes x tool n)))"
  by (simp_all add: refresh_routes_def refresh_apply_def others_def split: prod.split)

lemma f_roster_files_set_roster: "akeys (f_roster (fst (files_set_roster ms r))) = fst ` set ms"
  by (simp add: files_set_roster_def Let_def roster_keys)

lemma refresh_inv:
  assumes "roster_inv (n_membership n)" and "peers_inv (n_peers n)" and "files_inv (n_files n)"
  shows "node_inv x (fst (refresh_routes x tool n))"
proof -
  have o: "others x (fst (refresh_routes x tool n)) = others x n"
    by (rule others_cong) (simp_all add: frame_simps)
  have "keys_distinct (links (n_peers n))" using assms(2) by (simp add: peers_inv_def)
  then have "in_force x (fst (refresh_routes x tool n))"
    unfolding in_force_def o
    by (simp add: refresh_parts set_routes_eq f_roster_files_set_roster named_others)
  then show ?thesis
    using assms by (simp add: node_inv_def frame_simps refresh_parts set_routes_inv files_set_roster_inv)
qed

lemma save_then_refresh_inv:
  assumes "e_saves e" and "roster_inv (n_membership n)" and "peers_inv (n_peers n)" and "files_inv (n_files n)"
  shows "node_inv x (fst (snd (save_then_refresh x e a n)))"
  using assms refresh_inv [of n x "e_tool e"] by (simp add: save_then_refresh_def split: prod.split)

lemma node_invD:
  assumes "node_inv x n"
  shows "roster_inv (n_membership n)" "peers_inv (n_peers n)" "files_inv (n_files n)" "in_force x n"
  using assms by (simp_all add: node_inv_def)

lemma same_ids_inv:
  "node_inv x n \<Longrightarrow> roster_inv m \<Longrightarrow> map mid (members m) = map mid (members (n_membership n)) \<Longrightarrow>
   node_inv x (n\<lparr>n_membership := m\<rparr>)"
  unfolding node_inv_def
  by (auto intro!: in_force_cong [of x n "n\<lparr>n_membership := m\<rparr>"] others_cong)

subsection \<open>Every operation keeps the tables behind the roster\<close>

lemma claim_hostname_ids: "map mid (members (snd (claim_hostname c r f m))) = map mid (members m)"
  by (auto simp: claim_hostname_def Let_def release_def split: sum.splits)

lemma generate_invite_members: "members (snd (generate_invite x t own ttl now m)) = members m"
  by (simp add: generate_invite_def Let_def prune_expired_def)

lemma redeem_refused_members: "redeem_invite t r now m = (False, m') \<Longrightarrow> members m' = members m"
  by (auto simp: redeem_invite_def Let_def prune_expired_def split: option.splits if_splits)

lemma remove_nobody: "remove_member i m = (False, m') \<Longrightarrow> m' = m"
proof -
  assume "remove_member i m = (False, m')"
  then have len: "length (filter (\<lambda>x. mid x \<noteq> i) (members m)) = length (members m)"
    and m': "m' = m\<lparr>members := filter (\<lambda>x. mid x \<noteq> i) (members m)\<rparr>"
    by (auto simp: remove_member_def Let_def)
  from len have "filter (\<lambda>x. mid x \<noteq> i) (members m) = members m"
    by (metis filter_True length_filter_less nat_neq_iff)
  with m' show "m' = m" by simp
qed

lemma state_create_network_inv [inv_intros]:
  "node_inv x n \<Longrightarrow> e_saves e \<Longrightarrow> node_inv x (fst (snd (state_create_network x e fresh name host n)))"
  unfolding state_create_network_def
  by (rule save_then_refresh_inv) (auto simp: node_invD intro!: create_inv roster_inv_finite)

lemma state_generate_invite_inv [inv_intros]:
  assumes "node_inv x n"
  shows "node_inv x (fst (snd (state_generate_invite x e t ttl n)))"
  using same_ids_inv [OF assms generate_invite_inv [OF node_invD(1) [OF assms]], of x t "n_own n" ttl "e_now e"]
  by (simp add: state_generate_invite_def generate_invite_members case_prod_unfold)

text \<open>The roster after an admission: the invite redeemed and the name claimed, if one was asked for.\<close>

definition admission ::
    "env \<Rightarrow> token \<Rightarrow> rstr \<Rightarrow> rstr option \<Rightarrow> membership \<Rightarrow> rstr option \<times> membership" where
  "admission e tok requester host m =
     (case host of
        None \<Rightarrow> (None, snd (redeem_invite tok requester (e_now e) m))
      | Some requested \<Rightarrow>
          (case claim_hostname requester requested False (snd (redeem_invite tok requester (e_now e) m)) of
             (r, m) \<Rightarrow> (case r of Inr name \<Rightarrow> Some name | Inl _ \<Rightarrow> None, m)))"

lemma state_redeem_invite_eq:
  "state_redeem_invite x e tok requester host n =
     (if fst (redeem_invite tok requester (e_now e) (n_membership n))
      then (case admission e tok requester host (n_membership n) of
        (assigned, m) \<Rightarrow> save_then_refresh x e (Some (roster m, assigned)) (n\<lparr>n_membership := m\<rparr>))
      else (Inr None, n\<lparr>n_membership := snd (redeem_invite tok requester (e_now e) (n_membership n))\<rparr>, no_fx))"
  by (auto simp: state_redeem_invite_def admission_def split: prod.split bool.split option.split sum.split)

lemma admission_inv:
  assumes "roster_inv m" and "room (snd (redeem_invite tok requester (e_now e) m))"
  shows "roster_inv (snd (admission e tok requester host m))"
  using claim_hostname_inv [OF redeem_invite_inv [OF assms(1)] assms(2)] redeem_invite_inv [OF assms(1)]
  by (auto simp: admission_def split: option.split prod.split) (metis snd_conv)

lemma state_redeem_invite_inv [inv_intros]:
  assumes "node_inv x n" and "e_saves e"
    and "room (snd (redeem_invite tok requester (e_now e) (n_membership n)))"
  shows "node_inv x (fst (snd (state_redeem_invite x e tok requester host n)))"
proof (cases "fst (redeem_invite tok requester (e_now e) (n_membership n))")
  case True
  obtain a m where am: "admission e tok requester host (n_membership n) = (a, m)" by force
  then have "roster_inv m" using admission_inv [OF node_invD(1) [OF assms(1)] assms(3), of host] by simp
  then show ?thesis
    unfolding state_redeem_invite_eq am
    using save_then_refresh_inv [OF assms(2), of "n\<lparr>n_membership := m\<rparr>" x "Some (roster m, a)"] assms(1) True
    by (simp add: node_invD)
next
  case False
  then obtain m where m: "redeem_invite tok requester (e_now e) (n_membership n) = (False, m)"
    by (metis prod.exhaust_sel)
  then have "roster_inv m" using redeem_invite_inv [OF node_invD(1) [OF assms(1)], of tok requester "e_now e"] by simp
  then show ?thesis
    unfolding state_redeem_invite_eq m
    using same_ids_inv [OF assms(1), of m] redeem_refused_members [OF m] by simp
qed

lemma state_claim_hostname_inv [inv_intros]:
  assumes "node_inv x n" and "room (n_membership n)"
  shows "node_inv x (fst (snd (state_claim_hostname e c r f n)))"
  using same_ids_inv [OF assms(1) claim_hostname_inv [OF node_invD(1) [OF assms(1)] assms(2)], of c r f]
    claim_hostname_ids [of c r f "n_membership n"]
  by (simp add: state_claim_hostname_def case_prod_unfold)

lemma state_adopt_hostname_inv [inv_intros]:
  assumes "node_inv x n" and "room (n_membership n)"
  shows "node_inv x (fst (snd (state_adopt_hostname x e h n)))"
  using same_ids_inv [OF assms(1) claim_hostname_inv [OF node_invD(1) [OF assms(1)] assms(2)], of "own_str x n" h True]
    claim_hostname_ids [of "own_str x n" h True "n_membership n"]
  by (simp add: state_adopt_hostname_def case_prod_unfold split: sum.split)

lemma state_set_joined_inv [inv_intros]:
  "node_inv x n \<Longrightarrow> e_saves e \<Longrightarrow> node_inv x (fst (snd (state_set_joined x e c name ps n)))"
  unfolding state_set_joined_def
  by (rule save_then_refresh_inv) (simp_all add: node_invD set_joined_inv)

lemma state_set_roster_inv [inv_intros]:
  assumes "node_inv x n" and "e_saves e"
  shows "node_inv x (fst (snd (state_set_roster x e name ps n)))"
proof -
  obtain cs m where s: "set_roster (own_str x n) name ps (n_membership n) = (cs, m)" by force
  then have "roster_inv m" using set_roster_inv [OF node_invD(1) [OF assms(1)], of "own_str x n" name ps] by simp
  then show ?thesis
    using save_then_refresh_inv [OF assms(2), of "n\<lparr>n_membership := m, n_conflicts := cs\<rparr>"] assms
    by (simp add: state_set_roster_def s node_invD)
qed

lemma state_leave_eq:
  "e_saves e \<Longrightarrow> state_leave x e n =
     (case refresh_routes x (e_tool e)
        (n\<lparr>n_membership := leave (n_membership n), n_peers := fst (close_all (n_peers n))\<rparr>) of
      (n', fx) \<Rightarrow> (Inr (network_name (n_membership n)), n',
        fx\<lparr>fx_closed := snd (close_all (n_peers n)) @ fx_closed fx\<rparr>))"
  by (simp add: state_leave_def Let_def save_then_refresh_def split: prod.split)

lemma state_leave_inv [inv_intros]:
  assumes "node_inv x n" and "e_saves e"
  shows "node_inv x (fst (snd (state_leave x e n)))"
  using refresh_inv [of "n\<lparr>n_membership := leave (n_membership n), n_peers := fst (close_all (n_peers n))\<rparr>" x "e_tool e"]
    node_invD [OF assms(1)] leave_inv close_all_inv
  by (simp add: state_leave_eq [OF assms(2)] case_prod_unfold)

lemma state_kick_inv [inv_intros]:
  assumes "node_inv x n" and "e_saves e"
  shows "node_inv x (fst (snd (state_kick x e q n)))"
proof -
  obtain r m where k: "kick x q (own_str x n) (n_membership n) = (r, m)" by force
  have m: "roster_inv m" using kick_inv [OF node_invD(1) [OF assms(1)], of x q "own_str x n"] k by simp
  show ?thesis
  proof (cases r)
    case (Inl err)
    then have "m = n_membership n" using k by (auto simp: kick_def split: option.splits if_splits)
    then show ?thesis using assms(1) Inl by (simp add: state_kick_def k)
  next
    case (Inr p)
    then show ?thesis
      using save_then_refresh_inv [OF assms(2), of "n\<lparr>n_membership := m\<rparr>" x "Inr p"] m assms(1)
      by (simp add: state_kick_def k node_invD)
  qed
qed

lemma state_remove_member_inv [inv_intros]:
  assumes "node_inv x n" and "e_saves e"
  shows "node_inv x (fst (snd (state_remove_member x e i n)))"
proof -
  obtain r m where k: "remove_member i (n_membership n) = (r, m)" by force
  have m: "roster_inv m" using remove_member_inv [OF node_invD(1) [OF assms(1)], of i] k by simp
  show ?thesis
  proof (cases r)
    case False
    then have "m = n_membership n" using k by (simp add: remove_nobody)
    then show ?thesis using assms(1) False by (simp add: state_remove_member_def k)
  next
    case True
    then show ?thesis
      using save_then_refresh_inv [OF assms(2), of "n\<lparr>n_membership := m\<rparr>" x True] m assms(1)
      by (simp add: state_remove_member_def k node_invD)
  qed
qed

section \<open>The node as a machine\<close>

text \<open>
  The operations of the node, and what runs beside them: link tasks register and unregister
  their link, and the file tasks work on the registry (its roster only changes in a refresh).
\<close>

datatype node_op =
    NCreate env rstr rstr "rstr option"
  | NInvite env token int
  | NRedeem env token rstr "rstr option"
  | NClaim env rstr rstr bool
  | NAdopt env rstr
  | NJoined env rstr "rstr option" "member list"
  | NRoster env "rstr option" "member list"
  | NLeave env
  | NKick env rstr
  | NRemove env rstr
  | NOperator env rstr u32
  | NDns dns_registration
  | NLinkUp eid conn
  | NLinkDown eid
  | NFiles files_op

definition node_step :: "externs \<Rightarrow> node \<Rightarrow> node_op \<Rightarrow> node" where
  "node_step x n op =
     (case op of
        NCreate e fresh name h \<Rightarrow> fst (snd (state_create_network x e fresh name h n))
      | NInvite e t ttl \<Rightarrow> fst (snd (state_generate_invite x e t ttl n))
      | NRedeem e t r h \<Rightarrow> fst (snd (state_redeem_invite x e t r h n))
      | NClaim e c r f \<Rightarrow> fst (snd (state_claim_hostname e c r f n))
      | NAdopt e h \<Rightarrow> fst (snd (state_adopt_hostname x e h n))
      | NJoined e c name ps \<Rightarrow> fst (snd (state_set_joined x e c name ps n))
      | NRoster e name ps \<Rightarrow> fst (snd (state_set_roster x e name ps n))
      | NLeave e \<Rightarrow> fst (snd (state_leave x e n))
      | NKick e q \<Rightarrow> fst (snd (state_kick x e q n))
      | NRemove e i \<Rightarrow> fst (snd (state_remove_member x e i n))
      | NOperator e name uid \<Rightarrow> fst (snd (state_set_operator e name uid n))
      | NDns d \<Rightarrow> state_set_dns d n
      | NLinkUp i c \<Rightarrow> n\<lparr>n_peers := snd (register i c (n_peers n))\<rparr>
      | NLinkDown i \<Rightarrow> n\<lparr>n_peers := unregister i (n_peers n)\<rparr>
      | NFiles f \<Rightarrow> n\<lparr>n_files := files_step (n_files n) f\<rparr>)"

definition node_ok :: "node \<Rightarrow> node_op \<Rightarrow> bool" where
  "node_ok n op =
     (case op of
        NCreate e _ _ _ \<Rightarrow> e_saves e
      | NRedeem e t r _ \<Rightarrow> e_saves e \<and> room (snd (redeem_invite t r (e_now e) (n_membership n)))
      | NClaim _ _ _ _ \<Rightarrow> room (n_membership n)
      | NAdopt _ _ \<Rightarrow> room (n_membership n)
      | NJoined e _ _ _ \<Rightarrow> e_saves e
      | NRoster e _ _ \<Rightarrow> e_saves e
      | NLeave e \<Rightarrow> e_saves e
      | NKick e _ \<Rightarrow> e_saves e
      | NRemove e _ \<Rightarrow> e_saves e
      | NFiles f \<Rightarrow> (case f of FilesSetRoster _ \<Rightarrow> False | _ \<Rightarrow> True)
      | _ \<Rightarrow> True)"

lemma files_step_roster: "(case f of FilesSetRoster _ \<Rightarrow> False | _ \<Rightarrow> True) \<Longrightarrow> f_roster (files_step r f) = f_roster r"
  by (cases f) (auto simp: files_step_def forget_history_def admit_def store_link_def drop_incoming_def
      bury_incoming_def take_answerable_def Let_def list_outgoing_def store_conn_def drop_outgoing_def
      set_state_def begin_receiving_def end_receiving_def split: option.split)

lemma side_inv:
  assumes "node_inv x n" and "n_own n' = n_own n" and "n_membership n' = n_membership n"
    and "n_installed n' = n_installed n" and "peers_inv (n_peers n')" and "routes (n_peers n') = routes (n_peers n)"
    and "files_inv (n_files n')" and "f_roster (n_files n') = f_roster (n_files n)"
  shows "node_inv x n'"
proof -
  have "others x n' = others x n" by (rule others_cong) (simp_all add: assms)
  then show ?thesis
    using in_force_cong [OF node_invD(4) [OF assms(1)], of n'] assms by (simp add: node_inv_def)
qed

lemma link_steps_inv:
  assumes "node_inv x n"
  shows "node_inv x (n\<lparr>n_peers := snd (register i c (n_peers n))\<rparr>)"
    and "node_inv x (n\<lparr>n_peers := unregister i (n_peers n)\<rparr>)"
proof -
  have "routes (snd (register i c (n_peers n))) = routes (n_peers n)"
    by (simp add: register_def split: option.split)
  then show "node_inv x (n\<lparr>n_peers := snd (register i c (n_peers n))\<rparr>)"
    using node_invD [OF assms] by (intro side_inv [OF assms]) (simp_all add: register_inv)
  show "node_inv x (n\<lparr>n_peers := unregister i (n_peers n)\<rparr>)"
    using node_invD [OF assms] unregister_inv [OF node_invD(2) [OF assms], of i]
    by (intro side_inv [OF assms]) (simp_all, simp add: unregister_def)
qed

lemma files_steps_inv:
  assumes "node_inv x n" and "case f of FilesSetRoster _ \<Rightarrow> False | _ \<Rightarrow> True"
  shows "node_inv x (n\<lparr>n_files := files_step (n_files n) f\<rparr>)"
  using node_invD [OF assms(1)] files_machine.step_inv [OF node_invD(3) [OF assms(1)], of f]
  by (intro side_inv [OF assms(1)]) (simp_all add: files_step_roster [OF assms(2)])

lemma settings_inv:
  "node_inv x n \<Longrightarrow> node_inv x (n\<lparr>n_settings := s\<rparr>)" "node_inv x n \<Longrightarrow> node_inv x (n\<lparr>n_dns := d\<rparr>)"
  by (rule side_inv; simp add: node_invD)+

lemma node_step_inv: "node_inv x n \<Longrightarrow> node_ok n op \<Longrightarrow> node_inv x (node_step x n op)"
  by (cases op) (simp_all add: node_step_def node_ok_def inv_intros link_steps_inv files_steps_inv
      state_set_operator_def state_set_dns_def settings_inv)

interpretation node_machine: safe_machine "node_step x" node_ok "node_inv x" for x
  by unfold_locales (rule node_step_inv)

text \<open>A daemon starts with the stored roster and brings its tables up once.\<close>

definition started :: "externs \<Rightarrow> route_tool \<Rightarrow> eid \<Rightarrow> membership \<Rightarrow> settings \<Rightarrow> node" where
  "started x tool own m s = fst (refresh_routes x tool (new_node own m s))"

lemma started_inv: "roster_inv m \<Longrightarrow> node_inv x (started x tool own m s)"
  unfolding started_def by (rule refresh_inv) (simp_all add: new_node_def no_peers_inv no_files_inv)

lemma in_force_routes:
  assumes "node_inv x n" and "route (n_peers n) a = Some i"
  shows "i \<in> set (others x n) \<and> a \<in> overlay x i"
proof -
  have "routes (n_peers n) = routes_of x (remdups (others x n))"
    using node_invD(4) [OF assms(1)] by (simp add: in_force_def)
  then show ?thesis using routes_of_sound [of x "remdups (others x n)" a i] assms(2) by (simp add: route_def)
qed

lemma in_force_routed:
  assumes "node_inv x n" and "i \<in> set (others x n)" and "a \<in> overlay x i"
  shows "route (n_peers n) a \<noteq> None"
proof -
  have "routes (n_peers n) = routes_of x (remdups (others x n))"
    using node_invD(4) [OF assms(1)] by (simp add: in_force_def)
  then show ?thesis using routes_of_complete [of i "remdups (others x n)" a x] assms by (simp add: route_def)
qed

lemma in_force_installed:
  assumes "node_inv x n"
  shows "n_installed n = (\<Union>i \<in> set (others x n). overlay x i)"
proof -
  have "n_installed n = {a. route (n_peers n) a \<noteq> None}"
    using node_invD(4) [OF assms] unfolding in_force_def routed_addrs_def route_def
    by (simp add: set_eq_iff map_of_eq_None_iff)
  moreover have "route (n_peers n) a \<noteq> None \<longleftrightarrow> (\<exists>i \<in> set (others x n). a \<in> overlay x i)" for a
    using in_force_routes [OF assms, of a] in_force_routed [OF assms, of _ a]
    by (cases "route (n_peers n) a") auto
  ultimately show ?thesis by auto
qed

lemma in_force_offers:
  assumes "node_inv x n" and "map_of (f_incoming (n_files n)) i = Some offer"
  shows "i_peer offer \<in> set (others x n)"
proof -
  have "i_peer offer \<in> i_peer ` avalues (f_incoming (n_files n))"
    by (rule imageI [OF map_of_avalues [OF assms(2)]])
  also have "\<dots> \<subseteq> akeys (f_roster (n_files n))" by (rule files_inv_parts(9) [OF node_invD(3) [OF assms(1)]])
  also have "\<dots> = set (others x n)" using node_invD(4) [OF assms(1)] unfolding in_force_def by (elim conjE)
  finally show ?thesis .
qed

section \<open>Where the code departs from this\<close>

text \<open>
  A save that fails returns early with the roster already changed and the tables not: whoever
  was to be removed keeps its routes, its link and its offers, and is no longer a member.
\<close>

lemma failed_save_leaves_tables:
  assumes "\<not> e_saves e"
  shows "n_peers (fst (snd (state_kick x e q n))) = n_peers n"
    and "n_files (fst (snd (state_kick x e q n))) = n_files n"
    and "fst (kick x q (own_str x n) (n_membership n)) = Inr p \<Longrightarrow>
      \<not> is_member (n_membership (fst (snd (state_kick x e q n)))) (mid p)"
proof -
  obtain r m where k: "kick x q (own_str x n) (n_membership n) = (r, m)" by force
  show "n_peers (fst (snd (state_kick x e q n))) = n_peers n"
    "n_files (fst (snd (state_kick x e q n))) = n_files n"
    using assms by (simp_all add: state_kick_def k save_then_refresh_def split: sum.split)
  assume "fst (kick x q (own_str x n) (n_membership n)) = Inr p"
  with k have "m = snd (remove_member (mid p) (n_membership n))" and "r = Inr p"
    by (auto simp: kick_def split: option.splits if_splits)
  then show "\<not> is_member (n_membership (fst (snd (state_kick x e q n)))) (mid p)"
    using assms by (simp add: state_kick_def k save_then_refresh_def remove_member_gone)
qed

text \<open>
  Two refreshes that overlap may finish in the wrong order. One that read the roster before a
  removal and applies it after the removal's own refresh puts the removed member's routes and
  its right to make offers back, until the next roster change.
\<close>

lemma stale_refresh_restores_member:
  assumes "i \<in> set (others x n)" and "a \<in> overlay x i"
  shows "let late = fst (refresh_apply x tool (refresh_read x n) n') in
    route (n_peers late) a \<noteq> None \<and> files_is_member i (n_files late)"
proof -
  obtain named ms where r: "refresh_read x n = (named, ms)" by force
  then have ms: "ms = others x n" and named: "fst ` set named = set (others x n)"
    using named_others [of x n] by (simp_all add: others_def)
  obtain p fx where p: "set_routes x ms (n_peers n') = (p, fx)" by force
  have frame: "routes (fst (fold drop_link is (q, fx))) = routes q" for "is" q fx
    by (induction "is" arbitrary: q fx) (auto simp: drop_link_def split: option.split)
  have "routes p = routes_of x (remdups ms)"
    using p frame [of _ "n_peers n'\<lparr>routes := routes_of x (remdups ms)\<rparr>" "[]"]
    by (simp add: set_routes_def Let_def) (metis (no_types, lifting) fst_conv peers.select_convs(2) peers.surjective peers.update_convs(2))
  then have "route p a \<noteq> None"
    using routes_of_complete [of i "remdups ms" a x] assms by (simp add: route_def ms)
  moreover have "i \<in> akeys (f_roster (fst (files_set_roster named (n_files n'))))"
    using assms(1) by (simp add: f_roster_files_set_roster named)
  then have "files_is_member i (fst (files_set_roster named (n_files n')))"
    by (simp add: files_is_member_def map_of_eq_None_iff)
  ultimately show ?thesis
    by (simp add: refresh_apply_def r p routes_sync_def case_prod_unfold)
qed

section \<open>Properties\<close>


definition demo_env :: env where
  "demo_env =
     \<lparr>e_tool = \<lparr>rt_windows = False, rt_iface = lit ''quix0'',
        rt_exec = \<lambda>_ _. Inr \<lparr>succeeded = True, out_bytes = [], err_bytes = []\<rparr>\<rparr>,
      e_saves = True, e_now = 100\<rparr>"

definition demo_key :: "nat \<Rightarrow> eid" where "demo_key k = Eid (replicate 32 (of_nat k))"

definition demo_id :: "nat \<Rightarrow> rstr" where "demo_id k = id_show plain_externs (demo_key k)"

lemma demo_id_parses: "id_parse plain_externs (demo_id k) = Some (demo_key k)"
  by (simp add: demo_id_def demo_key_def plain_externs_def) (simp add: plain_text_def)

definition demo_node_ops :: "node_op list" where
  "demo_node_ops =
     [NJoined demo_env (demo_id 2) (Some (lit ''home'')) [\<lparr>mid = demo_id 3, hostname = Some (lit ''nas'')\<rparr>],
      NDns DnsRegistered]"

abbreviation demo_start :: node where
  "demo_start \<equiv> started plain_externs (e_tool demo_env) (demo_key 1) default_membership default_settings"

lemma demo_node_ops_ok: "node_machine.run_ok plain_externs demo_start demo_node_ops"
  by (simp add: demo_node_ops_def node_ok_def demo_env_def)


end
