(* ===== verification/Admin.thy ===== *)
theory Admin
  imports Node
begin

text \<open>
  \<open>daemon/src/admin.rs\<close> and \<open>daemon/src/connect.rs\<close>: the protocol between the members of a
  network, one request and one response per stream. The connection's handshake proves the
  requester's key, so the requester is an input the peer cannot choose. serde's JSON codec is a
  parameter; an exchange over the network is a parameter that gives a response or an error. A
  handler is one step: nothing runs between its check and its change of the state.
\<close>

section \<open>Messages\<close>

datatype admin_request =
    AdminJoin rstr "rstr option"
  | AdminLeave
  | AdminSetHostname rstr
  | AdminRoster "rstr option" "member list"
  | AdminKicked

datatype admin_error =
    MalformedRequest
  | OnlyCoordinatorRemoves
  | DoesNotAdmit
  | InvalidToken
  | InvalidTokenLength
  | InviteRefused
  | OnlyCoordinatorAssigns
  | RequesterNotMember
  | ClaimRefused name_error
  | OnlyCoordinatorMaintains
  | OnlyCoordinatorPushes
  | StateFailed node_error

datatype admin_response =
    AdminJoined "rstr option" "member list" "rstr option"
  | AdminHostnameSet rstr
  | AdminAck
  | AdminError admin_error

text \<open>A roster push that was spawned: to whom, and what it carries.\<close>

type_synonym push = "eid \<times> rstr option \<times> member list"

type_synonym admin_outcome = "admin_response \<times> node \<times> push list"

section \<open>The coordinator's and the member's side: \<open>AdminHandler\<close>\<close>

definition broadcast_roster :: "externs \<Rightarrow> rstr \<Rightarrow> rstr option \<Rightarrow> member list \<Rightarrow> node \<Rightarrow> push list" where
  "broadcast_roster x subject name ps n =
     (let targets = filter (\<lambda>i. i \<noteq> own_str x n \<and> i \<noteq> subject) (map mid ps)
      in List.map_filter (\<lambda>target. map_option (\<lambda>i. (i, name, ps)) (id_parse x target)) targets)"

definition decode_token :: "externs \<Rightarrow> rstr \<Rightarrow> (admin_error, token) result" where
  "decode_token x token_hex =
     (case hex_decode x token_hex of
        None \<Rightarrow> Inl InvalidToken
      | Some bytes \<Rightarrow> if length bytes = 16 then Inr bytes else Inl InvalidTokenLength)"

definition state_is_coordinator :: "externs \<Rightarrow> node \<Rightarrow> bool" where
  "state_is_coordinator x n = is_coordinator (n_membership n) (own_str x n)"

definition admin_kicked :: "externs \<Rightarrow> env \<Rightarrow> rstr \<Rightarrow> node \<Rightarrow> admin_outcome" where
  "admin_kicked x e requester n =
     (if coordinator_id (n_membership n) \<noteq> Some requester then (AdminError OnlyCoordinatorRemoves, n, [])
      else case state_leave x e n of
          (Inr _, n, _) \<Rightarrow> (AdminAck, n, [])
        | (Inl err, n, _) \<Rightarrow> (AdminError (StateFailed err), n, []))"

definition admin_join :: "externs \<Rightarrow> env \<Rightarrow> rstr \<Rightarrow> rstr option \<Rightarrow> rstr \<Rightarrow> node \<Rightarrow> admin_outcome" where
  "admin_join x e token_hex host requester n =
     (if \<not> state_is_coordinator x n then (AdminError DoesNotAdmit, n, [])
      else case decode_token x token_hex of
          Inl err \<Rightarrow> (AdminError err, n, [])
        | Inr tok \<Rightarrow>
            (case state_redeem_invite x e tok requester host n of
               (Inr (Some (ps, host)), n, _) \<Rightarrow>
                 (AdminJoined (network_name (n_membership n)) ps host, n,
                  broadcast_roster x requester (network_name (n_membership n)) ps n)
             | (Inr None, n, _) \<Rightarrow> (AdminError InviteRefused, n, [])
             | (Inl err, n, _) \<Rightarrow> (AdminError (StateFailed err), n, [])))"

definition admin_set_hostname :: "externs \<Rightarrow> env \<Rightarrow> rstr \<Rightarrow> rstr \<Rightarrow> node \<Rightarrow> admin_outcome" where
  "admin_set_hostname x e host requester n =
     (if \<not> state_is_coordinator x n then (AdminError OnlyCoordinatorAssigns, n, [])
      else if \<not> is_member (n_membership n) requester then (AdminError RequesterNotMember, n, [])
      else case state_claim_hostname e requester host False n of
          (Inr (Inr assigned), n, _) \<Rightarrow>
            (AdminHostnameSet assigned, n,
             broadcast_roster x requester (network_name (n_membership n)) (roster (n_membership n)) n)
        | (Inr (Inl err), n, _) \<Rightarrow> (AdminError (ClaimRefused err), n, [])
        | (Inl err, n, _) \<Rightarrow> (AdminError (StateFailed err), n, []))"

definition admin_leave :: "externs \<Rightarrow> env \<Rightarrow> rstr \<Rightarrow> node \<Rightarrow> admin_outcome" where
  "admin_leave x e requester n =
     (if \<not> state_is_coordinator x n then (AdminError OnlyCoordinatorMaintains, n, [])
      else case state_remove_member x e requester n of
          (Inr False, n, _) \<Rightarrow> (AdminAck, n, [])
        | (Inr True, n, _) \<Rightarrow>
            (AdminAck, n,
             broadcast_roster x requester (network_name (n_membership n)) (roster (n_membership n)) n)
        | (Inl err, n, _) \<Rightarrow> (AdminError (StateFailed err), n, []))"

definition admin_roster ::
    "externs \<Rightarrow> env \<Rightarrow> rstr option \<Rightarrow> member list \<Rightarrow> rstr \<Rightarrow> node \<Rightarrow> admin_outcome" where
  "admin_roster x e name ps requester n =
     (if coordinator_id (n_membership n) \<noteq> Some requester then (AdminError OnlyCoordinatorPushes, n, [])
      else case state_set_roster x e name ps n of
          (Inr _, n, _) \<Rightarrow> (AdminAck, n, [])
        | (Inl err, n, _) \<Rightarrow> (AdminError (StateFailed err), n, []))"

definition admin_dispatch :: "externs \<Rightarrow> env \<Rightarrow> admin_request \<Rightarrow> rstr \<Rightarrow> node \<Rightarrow> admin_outcome" where
  "admin_dispatch x e req requester n =
     (case req of
        AdminJoin token_hex host \<Rightarrow> admin_join x e token_hex host requester n
      | AdminLeave \<Rightarrow> admin_leave x e requester n
      | AdminSetHostname host \<Rightarrow> admin_set_hostname x e host requester n
      | AdminRoster name ps \<Rightarrow> admin_roster x e name ps requester n
      | AdminKicked \<Rightarrow> admin_kicked x e requester n)"

text \<open>
  \<open>accept\<close>: the request is read to its end, at most 64 KiB; a longer one fails the stream
  without an answer.
\<close>

definition admin_accept ::
    "externs \<Rightarrow> (u8 list \<Rightarrow> admin_request option) \<Rightarrow> env \<Rightarrow> eid \<Rightarrow> u8 list \<Rightarrow> node \<Rightarrow>
     admin_response option \<times> node \<times> push list" where
  "admin_accept x json e remote data n =
     (if 64 * 1024 < length data then (None, n, [])
      else case json data of
          None \<Rightarrow> (Some (AdminError MalformedRequest), n, [])
        | Some req \<Rightarrow>
            (case admin_dispatch x e req (id_show x remote) n of (resp, n, pushes) \<Rightarrow> (Some resp, n, pushes)))"

section \<open>The calling side: \<open>connect.rs\<close>\<close>

text \<open>One exchange with a node: its response, or why there was none (numbered by the transport).\<close>

type_synonym call = "eid \<Rightarrow> admin_request \<Rightarrow> (nat, admin_response) result"

datatype call_error =
    CallFailed nat
  | CoordinatorUnreachable nat
  | InviteUnusable invite_error
  | Answered admin_error
  | UnexpectedResponse admin_response
  | TimedOut

record admission_result =
  adm_coordinator :: eid
  adm_network :: "rstr option"
  adm_members :: "member list"
  adm_hostname :: "rstr option"

definition JOIN_ATTEMPTS :: nat where "JOIN_ATTEMPTS = 3"

text \<open>The attempts of a join: the exchanges made one after another, until one is answered.\<close>

fun join_attempts :: "(nat \<Rightarrow> (nat, admin_response) result) \<Rightarrow> nat \<Rightarrow> nat \<Rightarrow> (nat, admin_response) result" where
  "join_attempts exchange attempt 0 = Inl 0"
| "join_attempts exchange attempt (Suc left) =
     (case exchange attempt of
        Inr resp \<Rightarrow> Inr resp
      | Inl err \<Rightarrow> if left = 0 then Inl err else join_attempts exchange (Suc attempt) left)"

definition join_network ::
    "externs \<Rightarrow> (nat \<Rightarrow> call) \<Rightarrow> rstr \<Rightarrow> rstr option \<Rightarrow> (call_error, admission_result) result" where
  "join_network x calls code host =
     (case decode_invite x code of
        Inl err \<Rightarrow> Inl (InviteUnusable err)
      | Inr (coordinator, tok) \<Rightarrow>
          (case join_attempts (\<lambda>k. calls k coordinator (AdminJoin (hex_encode x tok) host)) 0 JOIN_ATTEMPTS of
             Inl err \<Rightarrow> Inl (CoordinatorUnreachable err)
           | Inr (AdminJoined name ps assigned) \<Rightarrow>
               Inr \<lparr>adm_coordinator = coordinator, adm_network = name, adm_members = ps, adm_hostname = assigned\<rparr>
           | Inr (AdminError err) \<Rightarrow> Inl (Answered err)
           | Inr other \<Rightarrow> Inl (UnexpectedResponse other)))"

definition expect_ack :: "(nat, admin_response) result \<Rightarrow> (call_error, unit) result" where
  "expect_ack r =
     (case r of
        Inl err \<Rightarrow> Inl (CallFailed err)
      | Inr AdminAck \<Rightarrow> Inr ()
      | Inr (AdminError err) \<Rightarrow> Inl (Answered err)
      | Inr other \<Rightarrow> Inl (UnexpectedResponse other))"

definition notify_leave :: "call \<Rightarrow> eid \<Rightarrow> (call_error, unit) result" where
  "notify_leave call coordinator = expect_ack (call coordinator AdminLeave)"

text \<open>The notice of a kick has five seconds: \<open>in_time\<close> says whether it was answered within them.\<close>

definition notify_kicked :: "call \<Rightarrow> bool \<Rightarrow> eid \<Rightarrow> (call_error, unit) result" where
  "notify_kicked call in_time i =
     (if in_time then expect_ack (call i AdminKicked) else Inl TimedOut)"

definition push_roster :: "call \<Rightarrow> push \<Rightarrow> (call_error, unit) result" where
  "push_roster call p = (case p of (i, name, ps) \<Rightarrow> expect_ack (call i (AdminRoster name ps)))"

definition call_claim_hostname :: "call \<Rightarrow> eid \<Rightarrow> rstr \<Rightarrow> (call_error, rstr) result" where
  "call_claim_hostname call coordinator host =
     (case call coordinator (AdminSetHostname host) of
        Inl err \<Rightarrow> Inl (CallFailed err)
      | Inr (AdminHostnameSet assigned) \<Rightarrow> Inr assigned
      | Inr (AdminError err) \<Rightarrow> Inl (Answered err)
      | Inr other \<Rightarrow> Inl (UnexpectedResponse other))"

text \<open>
  \<open>probe\<close>: the link is there, or the dialer brings one up in time (\<open>dialed\<close>); the round-trip
  time is the transport's.
\<close>

datatype probe_error = PeerIdInvalid | ProbeNotMember eid | NoLink

definition probe ::
    "externs \<Rightarrow> conn option \<Rightarrow> (conn \<Rightarrow> 'rtt option) \<Rightarrow> rstr \<Rightarrow> node \<Rightarrow>
     (probe_error, ipv4 \<times> ipv6 \<times> 'rtt option) result \<times> eid list" where
  "probe x dialed rtt peer n =
     (case id_parse x peer of
        None \<Rightarrow> (Inl PeerIdInvalid, [])
      | Some i \<Rightarrow>
          if \<not> is_member (n_membership n) (id_show x i) then (Inl (ProbeNotMember i), [])
          else case link (n_peers n) i of
            Some c \<Rightarrow> (Inr (fst (addrs_of x i), snd (addrs_of x i), rtt c), [])
          | None \<Rightarrow>
              (case dialed of
                 Some c \<Rightarrow> (Inr (fst (addrs_of x i), snd (addrs_of x i), rtt c), [i])
               | None \<Rightarrow> (Inl NoLink, [i])))"

lemmas admin_evals [evals] = broadcast_roster_def decode_token_def state_is_coordinator_def admin_kicked_def
  admin_join_def admin_set_hostname_def admin_leave_def admin_roster_def admin_dispatch_def admin_accept_def
  JOIN_ATTEMPTS_def join_network_def expect_ack_def notify_leave_def notify_kicked_def push_roster_def
  call_claim_hostname_def probe_def

section \<open>What a requester can touch\<close>

text \<open>Everything about the network, except one member's own entry and names, is as before.\<close>

definition only_touches :: "rstr \<Rightarrow> membership \<Rightarrow> membership \<Rightarrow> bool" where
  "only_touches r m m' \<longleftrightarrow>
     network_name m' = network_name m \<and> coordinator_id m' = coordinator_id m \<and> network_id m' = network_id m \<and>
     (\<forall>i. i \<noteq> r \<longrightarrow> member_of m' i = member_of m i) \<and>
     (\<forall>h k. bindings m h = Some k \<longrightarrow> k \<noteq> r \<longrightarrow> bindings m' h = Some k)"

lemma only_touches_refl [simp]: "only_touches r m m"
  by (simp add: only_touches_def)

lemma only_touches_trans: "only_touches r m m' \<Longrightarrow> only_touches r m' m'' \<Longrightarrow> only_touches r m m''"
  by (auto simp: only_touches_def)

lemma find_update_other:
  "(\<And>y. p y \<Longrightarrow> \<not> q y) \<Longrightarrow> (\<And>y. p y \<Longrightarrow> \<not> q (f y)) \<Longrightarrow> List.find q (update_first p f xs) = List.find q xs"
  by (induction xs) auto

lemma find_append_other: "\<not> q y \<Longrightarrow> List.find q (xs @ [y]) = List.find q xs"
  by (induction xs) auto

lemma find_filter_kept: "(\<And>y. q y \<Longrightarrow> p y) \<Longrightarrow> List.find q (filter p xs) = List.find q xs"
  by (induction xs) auto

lemma redeem_only_touches: "only_touches r m (snd (redeem_invite t r now m))"
  by (auto simp: only_touches_def redeem_invite_def prune_expired_def Let_def member_of_def new_member_def
      find_append_other split: option.split)

lemma claim_only_touches:
  assumes "roster_inv m" and "room m"
  shows "only_touches r m (snd (claim_hostname r h False m))"
proof (cases "fst (claim_hostname r h False m)")
  case (Inr a)
  then obtain w where w: "validate h r = Inr w" "a = dedupe w r (\<lambda>n. spoken_for (before_claim w False m) n r)"
    "snd (claim_hostname r h False m) = bind r a (before_claim w False m)"
    by (rule claim_hostname_Inr)
  have "\<not> spoken_for m a r"
    using claimed_name_free [OF assms w(1,2)] by (simp add: before_claim_def)
  then have free: "bindings m a = None \<or> bindings m a = Some r" by (rule not_spoken_for_binding)
  have m: "snd (claim_hostname r h False m) = bind r a m" using w(3) by (simp add: before_claim_def)
  have "member_of (bind r a m) i = member_of m i" if "i \<noteq> r" for i
    unfolding member_of_def bind_def using that by (simp add: find_update_other)
  then show ?thesis unfolding m only_touches_def using free by (auto simp: bind_def)
qed (simp add: claim_hostname_Inl)

lemma remove_only_touches: "only_touches r m (snd (remove_member r m))"
  by (auto simp: only_touches_def remove_member_def Let_def member_of_def find_filter_kept)

lemma admission_only_touches:
  assumes "roster_inv m" and "room (snd (redeem_invite tok r (e_now e) m))"
  shows "only_touches r m (snd (admission e tok r host m))"
proof (cases host)
  case None
  then show ?thesis by (simp add: admission_def redeem_only_touches)
next
  case (Some h)
  have "only_touches r (snd (redeem_invite tok r (e_now e) m))
      (snd (claim_hostname r h False (snd (redeem_invite tok r (e_now e) m))))"
    by (rule claim_only_touches [OF redeem_invite_inv [OF assms(1)] assms(2)])
  with redeem_only_touches have "only_touches r m
      (snd (claim_hostname r h False (snd (redeem_invite tok r (e_now e) m))))" by (rule only_touches_trans)
  with Some show ?thesis by (simp add: admission_def case_prod_unfold)
qed

text \<open>What the node's operations leave in the roster, whether or not it could be saved.\<close>

lemma save_then_refresh_frame [frame_simps]:
  "n_membership (fst (snd (save_then_refresh x e a n))) = n_membership n"
  "n_own (fst (snd (save_then_refresh x e a n))) = n_own n"
  "n_settings (fst (snd (save_then_refresh x e a n))) = n_settings n"
  by (simp_all add: save_then_refresh_def frame_simps case_prod_unfold)

lemma redeem_membership:
  "n_membership (fst (snd (state_redeem_invite x e tok r host n))) =
     (if fst (redeem_invite tok r (e_now e) (n_membership n)) then snd (admission e tok r host (n_membership n))
      else snd (redeem_invite tok r (e_now e) (n_membership n)))"
  "n_settings (fst (snd (state_redeem_invite x e tok r host n))) = n_settings n"
  by (simp_all add: state_redeem_invite_eq frame_simps case_prod_unfold)

lemma claim_membership:
  "n_membership (fst (snd (state_claim_hostname e r h f n))) = snd (claim_hostname r h f (n_membership n))"
  "n_settings (fst (snd (state_claim_hostname e r h f n))) = n_settings n"
  by (simp_all add: state_claim_hostname_def case_prod_unfold)

lemma remove_membership:
  "n_membership (fst (snd (state_remove_member x e r n))) = snd (remove_member r (n_membership n))"
  "n_settings (fst (snd (state_remove_member x e r n))) = n_settings n"
  by (cases "remove_member r (n_membership n)";
      auto simp: state_remove_member_def frame_simps split: bool.split)+

text \<open>The node each handler leaves behind, in terms of the operation it runs.\<close>

lemma admin_join_node:
  "fst (snd (admin_join x e token_hex host r n)) =
     (if state_is_coordinator x n
      then (case decode_token x token_hex of
          Inl _ \<Rightarrow> n | Inr tok \<Rightarrow> fst (snd (state_redeem_invite x e tok r host n)))
      else n)"
  by (auto simp: admin_join_def split: sum.split prod.split option.split)

lemma admin_set_hostname_node:
  "fst (snd (admin_set_hostname x e host r n)) =
     (if state_is_coordinator x n \<and> is_member (n_membership n) r
      then fst (snd (state_claim_hostname e r host False n)) else n)"
  by (auto simp: admin_set_hostname_def split: sum.split prod.split)

lemma admin_leave_node:
  "fst (snd (admin_leave x e r n)) =
     (if state_is_coordinator x n then fst (snd (state_remove_member x e r n)) else n)"
  by (auto simp: admin_leave_def split: sum.split prod.split bool.split)

text \<open>
  The room a claim needs: the suffix search finds a free name. Stated for the roster a claim
  meets, with or without the requester admitted first.
\<close>

definition claim_room :: "externs \<Rightarrow> env \<Rightarrow> admin_request \<Rightarrow> rstr \<Rightarrow> membership \<Rightarrow> bool" where
  "claim_room x e req r m =
     (case req of
        AdminJoin token_hex _ \<Rightarrow>
          (case decode_token x token_hex of
             Inl _ \<Rightarrow> True | Inr tok \<Rightarrow> room (snd (redeem_invite tok r (e_now e) m)))
      | AdminSetHostname _ \<Rightarrow> room m
      | _ \<Rightarrow> True)"

lemma redeem_touches:
  assumes "roster_inv (n_membership n)" and "room (snd (redeem_invite tok r (e_now e) (n_membership n)))"
  shows "only_touches r (n_membership n) (n_membership (fst (snd (state_redeem_invite x e tok r host n))))"
  using admission_only_touches [OF assms] redeem_only_touches by (simp add: redeem_membership)

lemma not_coordinator_refuses:
  assumes "coordinator_id (n_membership n) \<noteq> Some r" and "\<not> state_is_coordinator x n"
  shows "\<exists>err. admin_dispatch x e req r n = (AdminError err, n, [])"
  using assms
  by (cases req) (auto simp: admin_dispatch_def admin_join_def admin_leave_def admin_set_hostname_def
      admin_roster_def admin_kicked_def)

text \<open>The operation a request that is not refused comes down to.\<close>

lemma dispatch_node:
  assumes "coordinator_id (n_membership n) \<noteq> Some r" and "state_is_coordinator x n"
  shows "fst (snd (admin_dispatch x e req r n)) =
    (case req of
       AdminJoin token_hex host \<Rightarrow>
         (case decode_token x token_hex of
            Inl _ \<Rightarrow> n | Inr tok \<Rightarrow> fst (snd (state_redeem_invite x e tok r host n)))
     | AdminLeave \<Rightarrow> fst (snd (state_remove_member x e r n))
     | AdminSetHostname host \<Rightarrow>
         if is_member (n_membership n) r then fst (snd (state_claim_hostname e r host False n)) else n
     | AdminRoster _ _ \<Rightarrow> n
     | AdminKicked \<Rightarrow> n)"
  using assms
  by (cases req) (simp_all add: admin_dispatch_def admin_join_node admin_leave_node admin_set_hostname_node
      admin_roster_def admin_kicked_def)

lemma dispatch_touches:
  assumes "roster_inv (n_membership n)" and "coordinator_id (n_membership n) \<noteq> Some r"
    and "claim_room x e req r (n_membership n)" and "state_is_coordinator x n"
  shows "only_touches r (n_membership n) (n_membership (fst (snd (admin_dispatch x e req r n))))"
    and "n_settings (fst (snd (admin_dispatch x e req r n))) = n_settings n"
proof -
  have "only_touches r (n_membership n) (n_membership (fst (snd (admin_dispatch x e req r n)))) \<and>
      n_settings (fst (snd (admin_dispatch x e req r n))) = n_settings n"
  proof (cases req)
    case (AdminJoin token_hex host)
    show ?thesis
    proof (cases "decode_token x token_hex")
      case (Inr tok)
      then have "room (snd (redeem_invite tok r (e_now e) (n_membership n)))"
        using assms(3) AdminJoin by (simp add: claim_room_def)
      from redeem_touches [OF assms(1) this, of x host] Inr AdminJoin show ?thesis
        by (simp add: dispatch_node [OF assms(2,4)] redeem_membership(2))
    qed (use AdminJoin in \<open>simp add: dispatch_node [OF assms(2,4)]\<close>)
  next
    case (AdminSetHostname host)
    then show ?thesis
      using claim_only_touches [OF assms(1), of r host] assms(3)
      by (simp add: dispatch_node [OF assms(2,4)] claim_membership claim_room_def)
  qed (simp_all add: dispatch_node [OF assms(2,4)] remove_membership remove_only_touches)
  then show "only_touches r (n_membership n) (n_membership (fst (snd (admin_dispatch x e req r n))))"
    "n_settings (fst (snd (admin_dispatch x e req r n))) = n_settings n" by simp_all
qed

lemma admission_member:
  "is_member (snd (admission e tok r host m)) i \<longleftrightarrow> is_member (snd (redeem_invite tok r (e_now e) m)) i"
  by (simp add: admission_def case_prod_unfold split: option.split)

lemma redeemed_member:
  assumes "is_member (snd (redeem_invite tok r now m)) i"
  shows "is_member m i \<or> i = r \<and> fst (redeem_invite tok r now m)"
  using assms
  by (auto simp: redeem_invite_def Let_def prune_expired_def is_member_iff new_member_def
      split: option.splits if_splits)

lemma redeemed_live:
  "fst (redeem_invite tok r now m) \<Longrightarrow>
   \<exists>invite. map_of (pending_invites m) tok = Some invite \<and> is_live invite (network_id m) now"
  by (auto simp: redeem_invite_def Let_def split: option.splits if_splits)

lemma dispatch_member:
  assumes "coordinator_id (n_membership n) \<noteq> Some r" and "state_is_coordinator x n"
    and "is_member (n_membership (fst (snd (admin_dispatch x e req r n)))) r"
  shows "is_member (n_membership n) r \<or>
    (\<exists>tok host token_hex. req = AdminJoin token_hex host \<and> decode_token x token_hex = Inr tok \<and>
       fst (redeem_invite tok r (e_now e) (n_membership n)))"
proof (cases req)
  case (AdminJoin token_hex host)
  show ?thesis
  proof (cases "decode_token x token_hex")
    case (Inr tok)
    have "is_member (snd (redeem_invite tok r (e_now e) (n_membership n))) r"
      using assms(3) unfolding dispatch_node [OF assms(1,2)] AdminJoin
      by (simp add: Inr redeem_membership admission_member split: if_splits)
    from redeemed_member [OF this] AdminJoin Inr show ?thesis by blast
  qed (use assms(3) AdminJoin in \<open>simp add: dispatch_node [OF assms(1,2)]\<close>)
qed (use assms(3) in \<open>simp_all add: dispatch_node [OF assms(1,2)] remove_membership claim_membership
    remove_member_gone split: if_splits\<close>)

section \<open>Properties\<close>

text \<open>
  C5: A peer that is not the coordinator can only change its own place in the network. Whatever
  it asks, on a node that does not coordinate nothing changes and it is refused; on the
  coordinator the network's identity, every other member's entry and every name bound to
  another key stay as they are, the settings too, and it becomes or stays a member only by a
  token that is outstanding and live.
\<close>

theorem peers_only_change_themselves:
  assumes "roster_inv (n_membership n)" and "coordinator_id (n_membership n) \<noteq> Some r"
    and "claim_room x e req r (n_membership n)"
  shows "let (resp, n', pushes) = admin_dispatch x e req r n; m = n_membership n in
    only_touches r m (n_membership n') \<and> n_settings n' = n_settings n \<and>
    (state_is_coordinator x n \<or> n' = n \<and> (\<exists>err. resp = AdminError err) \<and> pushes = []) \<and>
    (is_member (n_membership n') r \<longrightarrow> is_member m r \<or>
       (\<exists>tok invite host token_hex. req = AdminJoin token_hex host \<and> decode_token x token_hex = Inr tok \<and>
          map_of (pending_invites m) tok = Some invite \<and> is_live invite (network_id m) (e_now e)))"
proof (cases "state_is_coordinator x n")
  case True
  obtain resp n' pushes where d: "admin_dispatch x e req r n = (resp, n', pushes)" by (metis prod_cases3)
  have "only_touches r (n_membership n) (n_membership n')" "n_settings n' = n_settings n"
    using dispatch_touches [OF assms True] by (simp_all add: d)
  moreover have "is_member (n_membership n) r \<or>
       (\<exists>tok invite host token_hex. req = AdminJoin token_hex host \<and> decode_token x token_hex = Inr tok \<and>
          map_of (pending_invites (n_membership n)) tok = Some invite \<and>
          is_live invite (network_id (n_membership n)) (e_now e))" if "is_member (n_membership n') r"
    using dispatch_member [OF assms(2) True, of e req] that redeemed_live [of _ r "e_now e" "n_membership n"]
    unfolding d fst_conv snd_conv by blast
  ultimately show ?thesis using True unfolding d Let_def prod.case by simp
next
  case False
  then obtain err where "admin_dispatch x e req r n = (AdminError err, n, [])"
    using not_coordinator_refuses [OF assms(2)] by blast
  then show ?thesis by simp
qed

definition demo_home :: node where
  "demo_home = new_node (demo_key 1)
     (create (lit ''n1'') (lit ''home'') (demo_id 1) (Some (lit ''web'')) default_membership) default_settings"

definition demo_guest :: node where
  "demo_guest = new_node (demo_key 2) default_membership default_settings"

lemma demo_id_text [simp]: "plain_text (as_bytes (demo_key k)) = demo_id k"
  by (simp add: demo_id_def)

lemma demo_ids: "demo_id 1 \<noteq> demo_id 2"
proof -
  have "unat (1 :: u8) \<noteq> unat (2 :: u8)" by simp
  then show "demo_id 1 \<noteq> demo_id 2" by (simp add: demo_id_def demo_key_def plain_externs_def plain_text_def)
qed

lemma demo_home_facts:
  "roster_inv (n_membership demo_home)" "network_id (n_membership demo_home) = Some (lit ''n1'')"
  "state_is_coordinator plain_externs demo_home" "is_member (n_membership demo_home) (demo_id 1)"
  "n_own demo_home = demo_key 1" "n_own demo_guest = demo_key 2"
proof -
  show "roster_inv (n_membership demo_home)"
    unfolding demo_home_def new_node_def node.select_convs by (rule create_inv) (simp add: default_membership_def)
qed (simp_all add: demo_home_def demo_guest_def new_node_def state_is_coordinator_def is_coordinator_def
    create_def Let_def bind_def is_member_iff new_member_def)

lemma demo_home_room: "room (n_membership demo_home)"
  by (simp add: demo_home_def new_node_def create_def Let_def bind_def default_membership_def room_def MAX_SUFFIX_def)

theorem peers_only_change_themselves_witness:
  "case admin_dispatch plain_externs demo_env (AdminJoin (lit ''00'') None) (demo_id 2) demo_home of (_, n', _) \<Rightarrow>
     member_of (n_membership n') (demo_id 1) = member_of (n_membership demo_home) (demo_id 1) \<and>
     \<not> is_member (n_membership n') (demo_id 2)"
proof -
  let ?m = "n_membership demo_home"
  have none: "pending_invites ?m = []"
    by (simp add: demo_home_def new_node_def create_def Let_def bind_def default_membership_def)
  have own: "coordinator_id ?m \<noteq> Some (demo_id 2)" "\<not> is_member ?m (demo_id 2)"
    using demo_ids by (simp_all add: demo_home_def new_node_def create_def Let_def bind_def is_member_iff new_member_def)
  have room: "claim_room plain_externs demo_env (AdminJoin (lit ''00'') None) (demo_id 2) ?m"
    using demo_home_room none by (simp add: claim_room_def redeem_invite_def prune_expired_def Let_def room_def split: sum.split)
  obtain resp n' pushes where d:
    "admin_dispatch plain_externs demo_env (AdminJoin (lit ''00'') None) (demo_id 2) demo_home = (resp, n', pushes)"
    by (metis prod_cases3)
  show ?thesis
    using peers_only_change_themselves [OF demo_home_facts(1) own(1) room] own(2) demo_ids none
    unfolding d Let_def prod.case by (auto simp: only_touches_def)
qed

end
