(* ===== verification/Mesh.thy ===== *)
theory Mesh
  imports Peers
begin

text \<open>
  \<open>daemon/src/mesh.rs\<close> and \<open>daemon/src/stats.rs\<close>: the packet counters, the reader of the TUN
  device, the task that serves one link, and the dialer. The counters are 64-bit words that
  wrap around. What a connection does (its datagram limit, whether it takes a packet) and
  what the TUN device does are inputs of the steps; packets handed over, dials and closes are
  effects. A task that awaits is split at the awaits, so that steps of other tasks fit between.
\<close>

section \<open>Counters\<close>

record stats =
  tun_rx :: u64
  tun_tx :: u64
  mesh_tx :: u64
  mesh_rx :: u64
  no_route :: u64
  no_link :: u64
  oversize :: u64
  send_err :: u64
  tun_tx_err :: u64

definition no_stats :: stats where
  "no_stats =
     \<lparr>tun_rx = 0, tun_tx = 0, mesh_tx = 0, mesh_rx = 0, no_route = 0, no_link = 0, oversize = 0,
      send_err = 0, tun_tx_err = 0\<rparr>"

definition count_tun_rx :: "stats \<Rightarrow> stats" where "count_tun_rx s = s\<lparr>tun_rx := tun_rx s + 1\<rparr>"
definition count_tun_tx :: "stats \<Rightarrow> stats" where "count_tun_tx s = s\<lparr>tun_tx := tun_tx s + 1\<rparr>"
definition count_mesh_tx :: "stats \<Rightarrow> stats" where "count_mesh_tx s = s\<lparr>mesh_tx := mesh_tx s + 1\<rparr>"
definition count_mesh_rx :: "stats \<Rightarrow> stats" where "count_mesh_rx s = s\<lparr>mesh_rx := mesh_rx s + 1\<rparr>"
definition count_no_route :: "stats \<Rightarrow> stats" where "count_no_route s = s\<lparr>no_route := no_route s + 1\<rparr>"
definition count_no_link :: "stats \<Rightarrow> stats" where "count_no_link s = s\<lparr>no_link := no_link s + 1\<rparr>"
definition count_oversize :: "stats \<Rightarrow> stats" where "count_oversize s = s\<lparr>oversize := oversize s + 1\<rparr>"
definition count_send_err :: "stats \<Rightarrow> stats" where "count_send_err s = s\<lparr>send_err := send_err s + 1\<rparr>"
definition count_tun_tx_err :: "stats \<Rightarrow> stats" where
  "count_tun_tx_err s = s\<lparr>tun_tx_err := tun_tx_err s + 1\<rparr>"

lemmas count_defs = count_tun_rx_def count_tun_tx_def count_mesh_tx_def count_mesh_rx_def
  count_no_route_def count_no_link_def count_oversize_def count_send_err_def count_tun_tx_err_def

section \<open>From the TUN device into the mesh\<close>

type_synonym packet = "u8 list"

datatype tun_effect = Send conn packet | RequestDial eid

text \<open>What the connections do: their datagram limit, and whether one accepts a packet.\<close>

record conns =
  max_datagram_size :: "conn \<Rightarrow> nat option"
  accepts :: "conn \<Rightarrow> packet \<Rightarrow> bool"

definition tun_packet :: "conns \<Rightarrow> peers \<Rightarrow> packet \<Rightarrow> stats \<Rightarrow> stats \<times> tun_effect list" where
  "tun_packet k p packet s =
     (case dst_addr packet of
        None \<Rightarrow> (s, [])
      | Some dst \<Rightarrow>
          let s = count_tun_rx s in
          case route p dst of
            None \<Rightarrow> (count_no_route s, [])
          | Some peer \<Rightarrow>
              (case link p peer of
                 None \<Rightarrow> (count_no_link s, [RequestDial peer])
               | Some c \<Rightarrow>
                   if (case max_datagram_size k c of Some m \<Rightarrow> length packet > m | None \<Rightarrow> False)
                   then (count_oversize s, [])
                   else if accepts k c packet then (count_mesh_tx s, [Send c packet])
                   else (count_send_err s, [Send c packet])))"

text \<open>
  The loop: each \<open>recv\<close> gives a packet, or an error that ends it. The forwarding state is read
  afresh for every packet.
\<close>

fun tun_to_mesh :: "(conns \<times> peers \<times> packet option) list \<Rightarrow> stats \<Rightarrow> stats \<times> tun_effect list" where
  "tun_to_mesh [] s = (s, [])"
| "tun_to_mesh ((k, p, None) # es) s = (s, [])"
| "tun_to_mesh ((k, p, Some packet) # es) s =
     (case tun_packet k p packet s of (s, fx) \<Rightarrow>
        (case tun_to_mesh es s of (s, fxs) \<Rightarrow> (s, fx @ fxs)))"

section \<open>Serving a link\<close>

definition CLOSE_NOT_MEMBER :: nat where "CLOSE_NOT_MEMBER = 1"

definition CLOSE_DUPLICATE :: nat where "CLOSE_DUPLICATE = 2"

text \<open>
  Where the task is: before the membership check, between it and the registration, in the
  read loop, after the loop but before it has unregistered, and finished.
\<close>

datatype link_phase = Checking | Registering | Reading | Leaving | Finished

record link_task =
  task_peer :: eid
  task_conn :: conn
  task_phase :: link_phase

datatype link_event =
    Checked bool
  | Registered
  | Datagram packet bool
  | LinkClosed
  | Unregistered

datatype link_effect = CloseConn conn nat | ToTun packet | CatchUp eid

definition serve_link ::
    "bool \<Rightarrow> link_event \<Rightarrow> link_task \<times> peers \<times> stats \<Rightarrow> (link_task \<times> peers \<times> stats) \<times> link_effect list" where
  "serve_link coordinator e st =
     (case st of (t, p, s) \<Rightarrow>
        (case (task_phase t, e) of
           (Checking, Checked member) \<Rightarrow>
             if member then ((t\<lparr>task_phase := Registering\<rparr>, p, s), [])
             else ((t\<lparr>task_phase := Finished\<rparr>, p, s), [CloseConn (task_conn t) CLOSE_NOT_MEMBER])
         | (Registering, Registered) \<Rightarrow>
             (case register (task_peer t) (task_conn t) p of
                (True, p) \<Rightarrow>
                  ((t\<lparr>task_phase := Reading\<rparr>, p, s), if coordinator then [CatchUp (task_peer t)] else [])
              | (False, p) \<Rightarrow>
                  ((t\<lparr>task_phase := Finished\<rparr>, p, s), [CloseConn (task_conn t) CLOSE_DUPLICATE]))
         | (Reading, Datagram packet tun_ok) \<Rightarrow>
             let s = count_mesh_rx s in
             if tun_ok then ((t, p, count_tun_tx s), [ToTun packet])
             else ((t\<lparr>task_phase := Leaving\<rparr>, p, count_tun_tx_err s), [])
         | (Reading, LinkClosed) \<Rightarrow> ((t\<lparr>task_phase := Leaving\<rparr>, p, s), [])
         | (Leaving, Unregistered) \<Rightarrow>
             ((t\<lparr>task_phase := Finished\<rparr>, unregister (task_peer t) p, s), [])
         | _ \<Rightarrow> ((t, p, s), [])))"

section \<open>The dialer\<close>

definition dial_target ::
    "eid \<Rightarrow> peers \<Rightarrow> eid \<Rightarrow> eid set \<times> eid list \<Rightarrow> eid set \<times> eid list" where
  "dial_target own p i st =
     (case st of (in_flight, dials) \<Rightarrow>
        if own > i then st
        else if link p i \<noteq> None then st
        else if i \<in> in_flight then st
        else (insert i in_flight, dials @ [i]))"

definition dial_targets :: "eid \<Rightarrow> peers \<Rightarrow> eid list \<Rightarrow> eid set \<Rightarrow> eid set \<times> eid list" where
  "dial_targets own p targets in_flight = fold (dial_target own p) targets (in_flight, [])"

text \<open>
  What wakes the loop: the sweep, a request, or the end of a dial, which takes the peer out of
  the set whether the connection came up or not.
\<close>

datatype dial_event = Sweep | Request eid | DialDone eid

definition dialer :: "eid \<Rightarrow> peers \<Rightarrow> dial_event \<Rightarrow> eid set \<Rightarrow> eid set \<times> eid list" where
  "dialer own p e in_flight =
     (case e of
        Sweep \<Rightarrow> dial_targets own p (unlinked p) in_flight
      | Request i \<Rightarrow> dial_targets own p [i] in_flight
      | DialDone i \<Rightarrow> (in_flight - {i}, []))"

lemmas mesh_evals [evals] = no_stats_def count_defs tun_packet_def CLOSE_NOT_MEMBER_def
  CLOSE_DUPLICATE_def serve_link_def dial_target_def dial_targets_def dialer_def

section \<open>Lemmas\<close>

text \<open>Packets read from the device that no counter accounts for.\<close>

definition unaccounted :: "stats \<Rightarrow> u64" where
  "unaccounted s = tun_rx s - (no_route s + no_link s + oversize s + mesh_tx s + send_err s)"

lemma unaccounted_tun_packet: "unaccounted (fst (tun_packet k p packet s)) = unaccounted s"
  by (auto simp: tun_packet_def Let_def unaccounted_def count_defs algebra_simps split: option.split)

lemma unaccounted_tun_to_mesh: "unaccounted (fst (tun_to_mesh es s)) = unaccounted s"
proof (induction es s rule: tun_to_mesh.induct)
  case (3 k p packet es s)
  then show ?case
    using unaccounted_tun_packet [of k p packet s] by (auto split: prod.split)
qed simp_all

lemma tun_packet_Send:
  "Send c packet' \<in> set (snd (tun_packet k p packet s)) \<longleftrightarrow>
     packet' = packet \<and>
     (\<exists>dst i. dst_addr packet = Some dst \<and> route p dst = Some i \<and> link p i = Some c \<and>
       (\<forall>m. max_datagram_size k c = Some m \<longrightarrow> length packet \<le> m))"
  by (auto simp: tun_packet_def Let_def not_less split: option.split)

lemma tun_packet_RequestDial:
  "RequestDial i \<in> set (snd (tun_packet k p packet s)) \<longleftrightarrow>
     (\<exists>dst. dst_addr packet = Some dst \<and> route p dst = Some i \<and> link p i = None)"
  by (auto simp: tun_packet_def Let_def split: option.split)

lemma tun_to_mesh_effect:
  "f \<in> set (snd (tun_to_mesh es s)) \<Longrightarrow>
   \<exists>k p packet s'. (k, p, Some packet) \<in> set es \<and> f \<in> set (snd (tun_packet k p packet s'))"
proof (induction es s rule: tun_to_mesh.induct)
  case (3 k p packet es s)
  obtain s1 fx where one: "tun_packet k p packet s = (s1, fx)" by force
  have "f \<in> set fx \<or> f \<in> set (snd (tun_to_mesh es s1))"
    using "3.prems" one by (auto split: prod.splits)
  then show ?case
  proof
    assume "f \<in> set fx"
    then have "f \<in> set (snd (tun_packet k p packet s))" using one by simp
    then show ?thesis by (metis list.set_intros(1))
  next
    assume "f \<in> set (snd (tun_to_mesh es s1))"
    from "3.IH" [OF one [symmetric] this] show ?thesis by (meson list.set_intros(2))
  qed
qed simp_all

text \<open>What a batch of targets dials: each eligible target once, and nothing in flight already.\<close>

definition eligible :: "eid \<Rightarrow> peers \<Rightarrow> eid \<Rightarrow> bool" where
  "eligible own p i \<longleftrightarrow> own \<le> i \<and> link p i = None"

lemma dial_targets_fold:
  "fold (dial_target own p) ts (fl, ds) =
     (fl \<union> {i \<in> set ts. eligible own p i},
      ds @ filter (\<lambda>i. eligible own p i \<and> i \<notin> fl) (rev (remdups (rev ts))))"
proof (induction ts arbitrary: fl ds)
  case (Cons t ts)
  have rr: "rev (remdups (rev (t # ts))) = t # filter (\<lambda>i. i \<noteq> t) (rev (remdups (rev ts)))"
  proof -
    have "remdups (xs @ [t]) = filter (\<lambda>i. i \<noteq> t) (remdups xs) @ [t]" for xs
      by (induction xs) auto
    then show ?thesis by (simp add: rev_filter)
  qed
  show ?case
    unfolding fold_simps rr
    by (auto simp: Cons.IH dial_target_def eligible_def not_less intro!: filter_cong)
qed simp

lemma set_dials: "set (snd (dial_targets own p ts fl)) = {i \<in> set ts. eligible own p i} - fl"
  by (auto simp: dial_targets_def dial_targets_fold)

lemma distinct_dials: "distinct (snd (dial_targets own p ts fl))"
  by (simp add: dial_targets_def dial_targets_fold)

lemma in_flight_dials: "fst (dial_targets own p ts fl) = fl \<union> set (snd (dial_targets own p ts fl))"
  by (auto simp: dial_targets_def dial_targets_fold)

subsection \<open>One link, from its check to its end\<close>

fun serve_run ::
    "bool \<Rightarrow> link_event list \<Rightarrow> link_task \<times> peers \<times> stats \<Rightarrow> (link_task \<times> peers \<times> stats) \<times> link_effect list" where
  "serve_run co [] st = (st, [])"
| "serve_run co (e # es) st =
     (case serve_link co e st of (st, fx) \<Rightarrow> (case serve_run co es st of (st, fxs) \<Rightarrow> (st, fx @ fxs)))"

lemma serve_run_snoc:
  "serve_run co (es @ [e]) st =
     (case serve_run co es st of (st, fx) \<Rightarrow> (case serve_link co e st of (st, fx') \<Rightarrow> (st, fx @ fx')))"
  by (induction es arbitrary: st) (auto split: prod.splits)

definition new_task :: "eid \<Rightarrow> conn \<Rightarrow> link_task" where
  "new_task i c = \<lparr>task_peer = i, task_conn = c, task_phase = Checking\<rparr>"

text \<open>The link table a registered task sees: its own entry and nothing else changed.\<close>

definition holds_link :: "eid \<Rightarrow> conn \<Rightarrow> peers \<Rightarrow> peers \<Rightarrow> bool" where
  "holds_link i c p p' \<longleftrightarrow> link p i = None \<and> (\<forall>j. link p' j = (if j = i then Some c else link p j))"

definition life :: "eid \<Rightarrow> conn \<Rightarrow> peers \<Rightarrow> stats \<Rightarrow> (link_task \<times> peers \<times> stats) \<times> link_effect list \<Rightarrow> bool" where
  "life i c p s r \<longleftrightarrow>
     (case r of ((t, p', s'), fx) \<Rightarrow>
        task_peer t = i \<and> task_conn t = c \<and>
        (case task_phase t of
           Checking \<Rightarrow> link p' = link p \<and> fx = []
         | Registering \<Rightarrow> link p' = link p \<and> fx = []
         | Reading \<Rightarrow> holds_link i c p p' \<and> (\<forall>d code. CloseConn d code \<notin> set fx)
         | Leaving \<Rightarrow> holds_link i c p p' \<and> (\<forall>d code. CloseConn d code \<notin> set fx)
         | Finished \<Rightarrow>
             link p' = link p \<and>
             (fx = [CloseConn c CLOSE_NOT_MEMBER] \<or>
              fx = [CloseConn c CLOSE_DUPLICATE] \<and> link p i \<noteq> None \<or>
              link p i = None \<and> (\<forall>d code. CloseConn d code \<notin> set fx))) \<and>
        mesh_rx s' - mesh_rx s = (tun_tx s' - tun_tx s) + (tun_tx_err s' - tun_tx_err s))"

lemma link_register:
  "register i c p = (b, p') \<Longrightarrow> b = (link p i = None) \<and> link p' = (if b then (link p)(i \<mapsto> c) else link p)"
  by (auto simp: register_def link_def map_of_aupdate fun_eq_iff split: option.splits)

lemma link_unregister: "link (unregister i p) = (link p)(i := None)"
  by (simp add: fun_eq_iff unregister_def link_def map_of_adelete)

lemma life_step:
  assumes "life i c p s ((t, p', s'), fx)" and "serve_link co e (t, p', s') = (st, fx')"
  shows "life i c p s (st, fx @ fx')"
proof (cases "task_phase t")
  case Checking
  with assms show ?thesis by (cases e) (auto simp: life_def serve_link_def split: if_splits)
next
  case Registering
  obtain b q where reg: "register i c p' = (b, q)" by force
  from link_register [OF reg] Registering assms reg show ?thesis
    by (cases e) (auto simp: life_def serve_link_def holds_link_def split: bool.splits if_splits)
next
  case Reading
  with assms show ?thesis
    by (cases e) (auto simp: life_def serve_link_def Let_def count_defs algebra_simps split: if_splits)
next
  case Leaving
  have "(link p')(i := None) = link p" if "holds_link i c p p'"
    using that by (auto simp: holds_link_def fun_eq_iff)
  with Leaving assms show ?thesis
    by (cases e) (auto simp: life_def serve_link_def link_unregister holds_link_def)
next
  case Finished
  with assms show ?thesis by (cases e) (auto simp: life_def serve_link_def)
qed

lemma serve_run_life: "life i c p s (serve_run co es (new_task i c, p, s))"
proof (induction es rule: rev_induct)
  case Nil
  then show ?case by (simp add: life_def new_task_def)
next
  case (snoc e es)
  obtain t p' s' fx where run: "serve_run co es (new_task i c, p, s) = ((t, p', s'), fx)"
    by (metis prod_cases3 surj_pair)
  obtain st fx' where step: "serve_link co e (t, p', s') = (st, fx')"
    by (rule that [OF prod.collapse [symmetric]])
  show ?case
    unfolding serve_run_snoc run prod.case step by (rule life_step [OF snoc [unfolded run] step])
qed

section \<open>Interleavings the code allows\<close>

text \<open>
  A peer kicked between the check and the registration keeps a link: the roster closes only the
  links that are registered when it is adopted.
\<close>

lemma kick_between_check_and_register:
  "let i = Eid [1]; t = new_task i 7;
       ((t, p, s), _) = serve_link False (Checked True) (t, no_peers, no_stats);
       (p, fx) = set_routes x [] p;
       ((t, p, s), _) = serve_link False Registered (t, p, s)
   in task_phase t = Reading \<and> link p i = Some 7 \<and> fx = [] \<and> routes p = []"
  by (simp add: Let_def new_task_def serve_link_def set_routes_def departed_def no_peers_def
      routes_of_def register_def link_def)

text \<open>
  A task that unregisters late takes the peer's newer link with it: the table is keyed by peer,
  and the connection is not compared.
\<close>

lemma late_unregister_drops_newer_link:
  "let i = Eid [1]; old = \<lparr>task_peer = i, task_conn = 1, task_phase = Leaving\<rparr>;
       (p, _) = close_all (no_peers\<lparr>links := [(i, 1)]\<rparr>);
       ((new, p, s), _) = serve_run False [Checked True, Registered] (new_task i 2, p, no_stats);
       before = link p i;
       ((old, p, s), _) = serve_link False Unregistered (old, p, s)
   in before = Some 2 \<and> task_phase new = Reading \<and> link p i = None"
  by (simp add: Let_def new_task_def serve_link_def close_all_def no_peers_def register_def
      link_def unregister_def)

section \<open>Properties\<close>

lemma routes_after_roster:
  assumes "\<forall>op \<in> set later. \<forall>ns. op \<noteq> SetRoutes ns"
  shows "routes (foldl (peers_step x) p (SetRoutes ms # later)) = routes (fst (set_routes x ms p))"
proof -
  have "routes (foldl (peers_step x) q later) = routes q" for q
    using assms
    by (induction later arbitrary: q)
      (auto simp: peers_step_def register_def unregister_def close_all_def split: peers_op.splits option.split)
  then show ?thesis by (simp add: peers_step_def)
qed

text \<open>
  C4: A packet only ever goes to the member that owns its destination. In any state reached
  after a roster was adopted, whatever links came and went since, a packet handed to a
  connection carries a destination that is one of the overlay addresses of a member of that
  roster, the connection is that member's link, the packet fits its datagram limit; and a dial
  is requested only for such a member that has no link.
\<close>

theorem packets_go_to_their_owner:
  assumes "\<forall>op \<in> set later. \<forall>ns. op \<noteq> SetRoutes ns"
    and "p = foldl (peers_step x) no_peers (earlier @ SetRoutes ms # later)"
    and "f \<in> set (snd (tun_packet k p packet s))"
  shows "\<exists>dst i. dst_addr packet = Some dst \<and> i \<in> set ms \<and> dst \<in> overlay x i \<and>
    ((\<exists>c. f = Send c packet \<and> link p i = Some c \<and>
        (\<forall>m. max_datagram_size k c = Some m \<longrightarrow> length packet \<le> m)) \<or>
     (f = RequestDial i \<and> link p i = None))"
proof -
  define q where "q = foldl (peers_step x) no_peers earlier"
  have "keys_distinct (links q)" using reachable_inv [of x earlier] by (simp add: q_def peers_inv_def)
  then have "routes p = routes_of x (remdups ms)"
    using routes_after_roster [OF assms(1), of x q ms] by (simp add: assms(2) q_def set_routes_eq)
  then have owner: "route p dst = Some i \<Longrightarrow> i \<in> set ms \<and> dst \<in> overlay x i" for dst i
    using routes_of_sound [of x "remdups ms" dst i] by (simp add: route_def)
  show ?thesis
  proof (cases f)
    case (Send c packet')
    then show ?thesis using assms(3) owner tun_packet_Send [of c packet' k p packet s] by blast
  next
    case (RequestDial i)
    then show ?thesis using assms(3) owner tun_packet_RequestDial [of i k p packet s] by blast
  qed
qed

text \<open>
  Every packet read off the device is accounted for exactly once. Over any run of the
  reader, the number of IP packets it read is the number handed over, refused by the
  connection, too large, without a route and without a link, added up, in the 64-bit
  arithmetic of the counters, wrap-around included; the other counters do not move.
\<close>

theorem tun_packets_accounted:
  "let s' = fst (tun_to_mesh es s) in
    tun_rx s' - tun_rx s =
      (mesh_tx s' - mesh_tx s) + (send_err s' - send_err s) + (oversize s' - oversize s) +
      (no_route s' - no_route s) + (no_link s' - no_link s) \<and>
    (tun_tx s', mesh_rx s', tun_tx_err s') = (tun_tx s, mesh_rx s, tun_tx_err s)"
proof -
  have "(tun_tx (fst (tun_to_mesh es s)), mesh_rx (fst (tun_to_mesh es s)), tun_tx_err (fst (tun_to_mesh es s)))
      = (tun_tx s, mesh_rx s, tun_tx_err s)"
  proof (induction es s rule: tun_to_mesh.induct)
    case (3 k p packet es s)
    moreover have "tun_tx (fst (tun_packet k p packet s)) = tun_tx s"
      "mesh_rx (fst (tun_packet k p packet s)) = mesh_rx s"
      "tun_tx_err (fst (tun_packet k p packet s)) = tun_tx_err s"
      by (auto simp: tun_packet_def Let_def count_defs split: option.split)
    ultimately show ?case by (auto split: prod.split)
  qed simp_all
  then show ?thesis
    using unaccounted_tun_to_mesh [of es s] by (simp add: Let_def unaccounted_def algebra_simps)
qed


text \<open>
  The dialer covers every peer that needs it and exactly one side of each pair dials. A
  sweep dials, each once, precisely the routed peers without a link that this node is the
  side to dial for and that are not being dialled already; and of two nodes that want a link to each
  other, neither linked nor dialling, one dials and the other does not.
\<close>

lemma dialer_one_side:
  "set (snd (dialer own p Sweep fl)) =
     {i. (\<exists>a \<in> set (routes p). snd a = i) \<and> link p i = None \<and> own \<le> i \<and> i \<notin> fl} \<and>
   distinct (snd (dialer own p Sweep fl)) \<and>
   fst (dialer own p Sweep fl) = fl \<union> set (snd (dialer own p Sweep fl)) \<and>
   (own \<noteq> i \<longrightarrow> link p i = None \<longrightarrow> link q own = None \<longrightarrow> i \<notin> fl \<longrightarrow> own \<notin> gl \<longrightarrow>
     (i \<in> set (snd (dialer own p (Request i) fl))) \<noteq> (own \<in> set (snd (dialer i q (Request own) gl))))"
proof -
  have "set (snd (dialer own p Sweep fl)) =
      {i. (\<exists>a \<in> set (routes p). snd a = i) \<and> link p i = None \<and> own \<le> i \<and> i \<notin> fl}"
    by (auto simp: dialer_def set_dials set_unlinked eligible_def)
  moreover have "(i \<in> set (snd (dialer own p (Request i) fl))) \<noteq> (own \<in> set (snd (dialer i q (Request own) gl)))"
    if "own \<noteq> i" "link p i = None" "link q own = None" "i \<notin> fl" "own \<notin> gl"
    using that by (auto simp: dialer_def set_dials eligible_def)
  ultimately show ?thesis
    by (simp add: dialer_def distinct_dials) (simp add: in_flight_dials)
qed

section \<open>Witnesses\<close>

text \<open>A member with address 10.0.0.1, and a minimal packet to it.\<close>

definition zero_externs :: externs where
  "zero_externs = plain_externs\<lparr>sha256 := \<lambda>_. replicate 32 0\<rparr>"

definition demo_packet :: packet where
  "demo_packet = [0x45] @ replicate 15 0 @ [10, 0, 0, 1]"

lemma zero_bytes_value: "foldl (\<lambda>n b. 256 * n + unat b) 0 (replicate k (0 :: u8)) = 0"
  by (induction k) auto

lemma zero_address: "virtual_ipv4 (sha256 zero_externs) k = 0x0A000001"
  by (simp add: zero_externs_def virtual_ipv4_def Let_def u32_from_be_def zero_bytes_value min_def max_def)

lemma demo_packet_dst: "dst_addr demo_packet = Some (V4 0x0A000001)"
  by (simp add: demo_packet_def dst_addr_eq ipv4_of_octets_def u32_from_be_def)

theorem packets_go_to_their_owner_witness:
  "V4 0x0A000001 \<in> overlay zero_externs (Eid [1]) \<and> length demo_packet \<le> 1400"
proof -
  define p where "p = foldl (peers_step zero_externs) no_peers ([] @ SetRoutes [Eid [1]] # [Register (Eid [1]) 7])"
  have "routes p = routes_of zero_externs [Eid [1]]"
    by (simp add: p_def peers_step_def register_def no_peers_def set_routes_eq split: option.split)
  then have "route p (V4 0x0A000001) = Some (Eid [1])"
    using routes_of_snoc [of zero_externs "[]" "Eid [1]"]
    by (simp add: route_def overlay_def virtual_addrs_def zero_address)
  moreover have "link p (Eid [1]) = Some 7"
    by (simp add: p_def peers_step_def register_def no_peers_def set_routes_eq link_def)
  ultimately have "Send 7 demo_packet \<in> set (snd (tun_packet
      \<lparr>max_datagram_size = \<lambda>_. Some 1400, accepts = \<lambda>_ _. True\<rparr> p demo_packet no_stats))"
    unfolding tun_packet_Send by (simp add: demo_packet_dst) (simp add: demo_packet_def)
  from packets_go_to_their_owner [OF _ p_def this] show ?thesis
    using demo_packet_dst by auto
qed


end
