(* ===== verification/Filename.thy ===== *)
theory Filename
  imports Rust_Str
begin

text \<open>
  \<open>proto/src/filename.rs\<close>: whether a name a peer sent is safe to create a file under, and the
  alternatives tried when it is taken. The platform is a parameter, as in the source.
\<close>

section \<open>Definitions\<close>

datatype platform = Unix | Windows

text \<open>\<open>Platform::current()\<close>; whether the build is for Windows is a parameter.\<close>

definition platform_current :: "bool \<Rightarrow> platform" where
  "platform_current windows = (if windows then Windows else Unix)"

definition FILENAME_MAX_LEN :: nat where "FILENAME_MAX_LEN = 255"

text \<open>The superscripts one, two and three are U+00B9, U+00B2 and U+00B3.\<close>

definition WINDOWS_RESERVED :: "rstr list" where
  "WINDOWS_RESERVED =
     [lit ''CON'', lit ''PRN'', lit ''AUX'', lit ''NUL'', lit ''CONIN$'', lit ''CONOUT$''] @
     map (\<lambda>d. lit ''COM'' @ [d]) [49, 50, 51, 52, 53, 54, 55, 56, 57, 0xB9, 0xB2, 0xB3] @
     map (\<lambda>d. lit ''LPT'' @ [d]) [49, 50, 51, 52, 53, 54, 55, 56, 57, 0xB9, 0xB2, 0xB3]"

text \<open>\<open>< > : " | ? *\<close>\<close>

definition WINDOWS_INVALID :: "rchar list" where
  "WINDOWS_INVALID = [60, 62, 58, 34, 124, 63, 42]"

datatype filename_error =
    FileNameEmpty
  | NotAFileName rstr
  | PathSeparator rstr
  | FileNameTooLong nat
  | ControlCharacter rchar
  | WindowsInvalid rchar
  | WindowsTrailing
  | WindowsReserved rstr

definition is_control :: "rchar \<Rightarrow> bool" where
  "is_control c \<longleftrightarrow>
     is_cc c \<or> c = 0x200E \<or> c = 0x200F \<or> (0x202A \<le> c \<and> c \<le> 0x202E) \<or> (0x2066 \<le> c \<and> c \<le> 0x2069)"

definition device_stem :: "rstr \<Rightarrow> rstr" where
  "device_stem name = trim_end_matches (\<lambda>c. c = 32) (takeWhile (\<lambda>c. c \<noteq> 46) name)"

definition check :: "rstr \<Rightarrow> platform \<Rightarrow> (filename_error, unit) result" where
  "check name platform =
     (if name = [] then Inl FileNameEmpty
      else if name = lit ''.'' \<or> name = lit ''..'' then Inl (NotAFileName name)
      else if 47 \<in> set name \<or> 92 \<in> set name then Inl (PathSeparator name)
      else if blen name > FILENAME_MAX_LEN then Inl (FileNameTooLong (blen name))
      else case List.find is_control name of
        Some bad \<Rightarrow> Inl (ControlCharacter bad)
      | None \<Rightarrow>
          if platform = Windows then
            (case List.find (\<lambda>c. c \<in> set WINDOWS_INVALID) name of
               Some bad \<Rightarrow> Inl (WindowsInvalid bad)
             | None \<Rightarrow>
                 if ends_with 46 name \<or> ends_with 32 name then Inl WindowsTrailing
                 else if list_ex (\<lambda>r. ascii_lower r = ascii_lower (device_stem name)) WINDOWS_RESERVED
                 then Inl (WindowsReserved name)
                 else Inr ())
          else Inr ())"

text \<open>
  The characters that fit in \<open>room\<close> bytes: a byte index moved down to a character boundary.
\<close>

fun take_bytes :: "nat \<Rightarrow> rstr \<Rightarrow> rstr" where
  "take_bytes room [] = []"
| "take_bytes room (c # s) = (if utf8_len c \<le> room then c # take_bytes (room - utf8_len c) s else [])"

text \<open>\<open>rfind('.')\<close>, with a dot at the front not counted.\<close>

definition split_ext :: "rstr \<Rightarrow> rstr \<times> rstr" where
  "split_ext name =
     (let ext = rev (takeWhile (\<lambda>c. c \<noteq> 46) (rev name)); dot = length name - length ext - 1
      in if 46 \<in> set name \<and> 0 < dot then (take dot name, drop dot name) else (name, []))"

definition numbered :: "rstr \<Rightarrow> nat \<Rightarrow> rstr" where
  "numbered name n =
     (case split_ext name of (stem, ext) \<Rightarrow>
        let tag = [32, 40] @ decimal n @ [41];
            room = FILENAME_MAX_LEN - (blen tag + blen ext)
        in take_bytes (min (blen stem) room) stem @ tag @ ext)"

lemmas filename_evals [evals] = FILENAME_MAX_LEN_def WINDOWS_RESERVED_def WINDOWS_INVALID_def
  is_control_def device_stem_def check_def split_ext_def numbered_def

section \<open>Lemmas\<close>

lemma take_bytes_prefix: "\<exists>t. s = take_bytes room s @ t"
  by (induction room s rule: take_bytes.induct) auto

lemma blen_take_bytes: "blen (take_bytes room s) \<le> room"
  by (induction room s rule: take_bytes.induct) auto

lemma set_take_bytes: "set (take_bytes room s) \<subseteq> set s"
  using take_bytes_prefix [of s room] by (metis Un_upper1 set_append)

lemma take_bytes_all: "blen s \<le> room \<Longrightarrow> take_bytes room s = s"
  by (induction room s rule: take_bytes.induct) auto

lemma take_bytes_min: "take_bytes (min (blen s) room) s = take_bytes room s"
  by (cases "blen s \<le> room") (simp_all add: take_bytes_all min_def)

lemma split_ext_append: "split_ext name = (stem, ext) \<Longrightarrow> name = stem @ ext"
  by (auto simp: split_ext_def Let_def split: if_splits)

lemma split_ext_shape:
  assumes "split_ext name = (stem, ext)" and "ext \<noteq> []"
  shows "\<exists>e. ext = 46 # e \<and> 46 \<notin> set e \<and> stem \<noteq> []"
proof -
  let ?e = "rev (takeWhile (\<lambda>c. c \<noteq> 46) (rev name))"
  have c: "46 \<in> set name" "0 < length name - length ?e - 1"
    "stem = take (length name - length ?e - 1) name" "ext = drop (length name - length ?e - 1) name"
    using assms by (auto simp: split_ext_def Let_def split: if_splits)
  have "46 \<in> set (rev name)" using c(1) by simp
  then obtain u v where uv: "rev name = u @ 46 # v" "46 \<notin> set u" by (meson split_list_first)
  have "takeWhile (\<lambda>c. c \<noteq> 46) (u @ 46 # v) = u" using uv(2) by (subst takeWhile_append2) auto
  then have e: "?e = rev u" by (simp add: uv(1))
  have name: "name = rev v @ 46 # rev u" using uv(1) by (metis append.assoc append_Cons append_Nil rev.simps(2) rev_append rev_rev_ident)
  have "length name - length ?e - 1 = length (rev v)" unfolding e by (simp add: name)
  then have "0 < length (rev v)" "stem = take (length (rev v)) name" "ext = drop (length (rev v)) name"
    using c(2-4) by simp_all
  then have "v \<noteq> []" "stem = rev v" "ext = 46 # rev u" by (simp_all add: name del: length_rev)
  with uv(2) show ?thesis by auto
qed

lemma decimal_not_dot: "46 \<notin> set (decimal n)"
  using decimal_digits by fastforce

text \<open>Acceptance as one condition.\<close>

definition windows_ok :: "rstr \<Rightarrow> bool" where
  "windows_ok name \<longleftrightarrow>
     (\<forall>c \<in> set name. c \<notin> set WINDOWS_INVALID) \<and> \<not> ends_with 46 name \<and> \<not> ends_with 32 name \<and>
     (\<forall>r \<in> set WINDOWS_RESERVED. ascii_lower r \<noteq> ascii_lower (device_stem name))"

lemma check_ok_iff:
  "check name p = Inr () \<longleftrightarrow>
     name \<noteq> [] \<and> name \<noteq> lit ''.'' \<and> name \<noteq> lit ''..'' \<and> 47 \<notin> set name \<and> 92 \<notin> set name \<and>
     blen name \<le> FILENAME_MAX_LEN \<and> (\<forall>c \<in> set name. \<not> is_control c) \<and> (p = Windows \<longrightarrow> windows_ok name)"
proof -
  have "(case List.find is_control name of Some bad \<Rightarrow> Inl (ControlCharacter bad) | None \<Rightarrow> r) = Inr () \<longleftrightarrow>
      (\<forall>c \<in> set name. \<not> is_control c) \<and> r = Inr ()" for r
    by (auto simp: find_None_iff' split: option.split dest!: find_Some_mem)
  moreover have "(case List.find (\<lambda>c. c \<in> set WINDOWS_INVALID) name of Some bad \<Rightarrow> Inl (WindowsInvalid bad) | None \<Rightarrow> r) = Inr () \<longleftrightarrow>
      (\<forall>c \<in> set name. c \<notin> set WINDOWS_INVALID) \<and> r = Inr ()" for r
    by (auto simp: find_None_iff' split: option.split dest!: find_Some_mem)
  ultimately show ?thesis
    by (auto simp: check_def windows_ok_def list_ex_iff not_less)
qed

definition number_tag :: "nat \<Rightarrow> rstr" where
  "number_tag n = [32, 40] @ decimal n @ [41]"

lemma number_tag_chars: "c \<in> set (number_tag n) \<Longrightarrow> c = 32 \<or> c = 40 \<or> c = 41 \<or> (48 \<le> c \<and> c \<le> 57)"
  using decimal_digits [of c n] by (auto simp: number_tag_def)

lemma number_tag_safe:
  assumes "c \<in> set (number_tag n)"
  shows "c \<noteq> 47 \<and> c \<noteq> 92 \<and> c \<noteq> 46 \<and> \<not> is_control c \<and> c \<notin> set WINDOWS_INVALID"
  using number_tag_chars [OF assms] by (auto simp: is_control_def is_cc_def WINDOWS_INVALID_def)

lemma numbered_parts:
  assumes "split_ext name = (stem, ext)"
  shows "numbered name n =
    take_bytes (FILENAME_MAX_LEN - (blen (number_tag n) + blen ext)) stem @ number_tag n @ ext"
  using assms by (simp add: numbered_def Let_def number_tag_def take_bytes_min)

lemma reserved_last: "r \<in> set WINDOWS_RESERVED \<Longrightarrow> ascii_lower r \<noteq> s @ [41]"
  by (auto simp: WINDOWS_RESERVED_def lit_def char_defs dest: arg_cong [of _ _ last])

lemma device_stem_numbered:
  assumes "ext = [] \<or> hd ext = 46" and "name = stem @ ext" and "stem = s @ t"
  shows "device_stem (s @ number_tag n @ ext) = device_stem name \<or>
    (\<exists>u. device_stem (s @ number_tag n @ ext) = u @ [41])"
proof (cases "46 \<in> set s")
  case True
  then have "takeWhile (\<lambda>c. c \<noteq> 46) (s @ v) = takeWhile (\<lambda>c. c \<noteq> 46) s" for v
    by (intro takeWhile_append1) auto
  then show ?thesis using assms(2,3) by (simp add: device_stem_def)
next
  case False
  have "46 \<notin> set (number_tag n)" using number_tag_safe by blast
  with False have "takeWhile (\<lambda>c. c \<noteq> 46) ((s @ number_tag n) @ ext) = (s @ number_tag n) @ takeWhile (\<lambda>c. c \<noteq> 46) ext"
    by (intro takeWhile_append2) auto
  moreover have "takeWhile (\<lambda>c. c \<noteq> 46) ext = []" using assms(1) by (cases ext) auto
  ultimately have "device_stem (s @ number_tag n @ ext) = trim_end_matches (\<lambda>c. c = 32) (s @ number_tag n)"
    by (simp add: device_stem_def)
  also have "\<dots> = (s @ [32, 40] @ decimal n) @ [41]"
    by (subst trim_end_matches_id) (simp_all add: number_tag_def)
  finally show ?thesis by blast
qed

section \<open>Properties\<close>


text \<open>
  An alternative name is as safe as the name it replaces. When the extension leaves room
  for the number, \<open>numbered\<close> of an accepted name is accepted on the same platform, so it
  stays a plain component within 255 bytes; it keeps the extension and the number whole and
  shortens only the stem.
\<close>

lemma numbered_stays_safe:
  assumes "check name p = Inr ()" and "split_ext name = (stem, ext)"
    and "blen (number_tag n) + blen ext \<le> FILENAME_MAX_LEN"
  shows "check (numbered name n) p = Inr () \<and>
    (\<exists>kept cut. stem = kept @ cut \<and> numbered name n = kept @ number_tag n @ ext \<and>
      (blen stem + blen (number_tag n) + blen ext \<le> FILENAME_MAX_LEN \<longrightarrow> cut = []))"
proof -
  define room where "room = FILENAME_MAX_LEN - (blen (number_tag n) + blen ext)"
  define s where "s = take_bytes room stem"
  have r: "numbered name n = s @ number_tag n @ ext" by (simp add: numbered_parts [OF assms(2)] s_def room_def)
  obtain t where t: "stem = s @ t" using take_bytes_prefix [of stem room] by (auto simp: s_def)
  have name: "name = stem @ ext" by (rule split_ext_append [OF assms(2)])
  have dot: "ext = [] \<or> hd ext = 46" using split_ext_shape [OF assms(2)] by force
  have ok: "name \<noteq> []" "47 \<notin> set name" "92 \<notin> set name" "\<forall>c \<in> set name. \<not> is_control c" "p = Windows \<longrightarrow> windows_ok name"
    using assms(1) by (simp_all add: check_ok_iff)
  have sub: "set (numbered name n) \<subseteq> set name \<union> set (number_tag n)"
    by (simp only: r) (auto simp: name t)
  have "blen s \<le> room" by (simp add: s_def blen_take_bytes)
  then have "blen (numbered name n) \<le> FILENAME_MAX_LEN" using assms(3) by (simp add: r room_def)
  moreover have "numbered name n \<noteq> lit ''.''" "numbered name n \<noteq> lit ''..''" "numbered name n \<noteq> []"
    by (auto simp: r number_tag_def lit_def append_eq_Cons_conv)
  moreover have "windows_ok (numbered name n)" if "p = Windows"
  proof -
    have w: "windows_ok name" using ok(5) that by simp
    have "ends_with c (numbered name n) \<Longrightarrow> ends_with c name \<or> c = 41" for c
      unfolding r by (cases "ext = []") (auto simp: name ends_with_iff number_tag_def)
    moreover have "ascii_lower q \<noteq> ascii_lower (device_stem (numbered name n))" if "q \<in> set WINDOWS_RESERVED" for q
    proof (cases "device_stem (numbered name n) = device_stem name")
      case False
      then obtain u where "device_stem (numbered name n) = u @ [41]"
        using device_stem_numbered [OF dot name t, of n] unfolding r by blast
      then have "ascii_lower (device_stem (numbered name n)) = ascii_lower u @ [41]" by (simp add: char_defs)
      then show ?thesis using reserved_last [OF that] by simp
    qed (use w that in \<open>simp add: windows_ok_def\<close>)
    ultimately show ?thesis
      using w sub number_tag_safe unfolding windows_ok_def by (fastforce simp: ends_with_iff)
  qed
  ultimately have "check (numbered name n) p = Inr ()"
    using ok sub number_tag_safe unfolding check_ok_iff by blast
  moreover have "t = []" if "blen stem + blen (number_tag n) + blen ext \<le> FILENAME_MAX_LEN"
  proof -
    have "take_bytes room stem = stem" using that by (intro take_bytes_all) (simp add: room_def)
    with t show ?thesis by (simp add: s_def)
  qed
  ultimately show ?thesis using r t by blast
qed


section \<open>A long extension\<close>

text \<open>
  When the extension leaves no room, the alternative is longer than the limit the source's
  comment promises, and is refused where the original was accepted.
\<close>

lemma numbered_may_exceed_limit:
  "let name = lit ''a.'' @ replicate 253 120 in
     check name Unix = Inr () \<and> blen (numbered name 1) = 258 \<and>
     check (numbered name 1) Unix = Inl (FileNameTooLong 258)"
proof -
  define e where "e = replicate 253 (120 :: nat)"
  have e: "blen e = 253" "set e = {120}" "46 \<notin> set e" "length e = 253"
    by (simp_all add: e_def blen_ascii list_all_iff)
  have "takeWhile (\<lambda>c. c \<noteq> 46) (rev e @ [46, 97]) = rev e" using e by (subst takeWhile_append2) auto
  then have split: "split_ext (lit ''a.'' @ e) = ([97], 46 # e)"
    using e by (simp add: split_ext_def Let_def lit_def)
  have num: "numbered (lit ''a.'' @ e) 1 = [32, 40, 49, 41, 46] @ e"
    by (simp add: numbered_parts [OF split] number_tag_def decimal.simps FILENAME_MAX_LEN_def e)
  have "check (lit ''a.'' @ e) Unix = Inr ()"
    using e by (auto simp: check_ok_iff lit_def FILENAME_MAX_LEN_def is_control_def is_cc_def)
  moreover have "check (numbered (lit ''a.'' @ e) 1) Unix = Inl (FileNameTooLong 258)"
    unfolding num check_def using e by (simp add: FILENAME_MAX_LEN_def lit_def)
  moreover have "blen (numbered (lit ''a.'' @ e) 1) = 258" unfolding num using e by simp
  ultimately show ?thesis by (simp add: e_def Let_def)
qed

end
