(* ===== verification/Frame.thy ===== *)
theory Frame
  imports Rust_Str
begin

text \<open>
  \<open>proto/src/frame.rs\<close>: the binary framing of a file transfer, one tag byte, a 32-bit length
  in network order and the payload. A reader works on the bytes that will ever arrive, so
  reading past them is the end of the stream. The framing meets the \<open>stream_codec\<close> contract:
  frames written one after another are read back in order.
\<close>

section \<open>Frames\<close>

definition MAX_PAYLOAD :: nat where "MAX_PAYLOAD = 2 ^ 20"

definition CHUNK :: nat where "CHUNK = 64 * 1024"

definition TAG_DATA :: u8 where "TAG_DATA = 68"
definition TAG_HASH :: u8 where "TAG_HASH = 72"
definition TAG_END :: u8 where "TAG_END = 69"
definition TAG_CONTROL :: u8 where "TAG_CONTROL = 67"
definition TAG_ERROR :: u8 where "TAG_ERROR = 88"

lemmas tag_defs = TAG_DATA_def TAG_HASH_def TAG_END_def TAG_CONTROL_def TAG_ERROR_def

datatype frame =
    Data "u8 list"
  | Hash "u8 list"
  | End
  | Control "u8 list"
  | Error rstr

datatype frame_error =
    UnexpectedEof
  | FrameTooLong nat
  | HashNotThirtyTwo
  | EndNotEmpty
  | UnknownTag u8

section \<open>Writing and reading\<close>

definition tag_payload :: "frame \<Rightarrow> u8 \<times> u8 list" where
  "tag_payload f =
     (case f of
        Data d \<Rightarrow> (TAG_DATA, d)
      | Hash h \<Rightarrow> (TAG_HASH, h)
      | End \<Rightarrow> (TAG_END, [])
      | Control j \<Rightarrow> (TAG_CONTROL, j)
      | Error m \<Rightarrow> (TAG_ERROR, utf8_bytes m))"

definition frame_write :: "frame \<Rightarrow> (frame_error, u8 list) result" where
  "frame_write f =
     (case tag_payload f of (tag, payload) \<Rightarrow>
        if length payload > MAX_PAYLOAD then Inl (FrameTooLong (length payload))
        else Inr (tag # u32_to_be (of_nat (length payload)) @ payload))"

definition frame_read :: "u8 list \<Rightarrow> (frame_error, frame \<times> u8 list) result" where
  "frame_read bs =
     (if length bs < 5 then Inl UnexpectedEof
      else let header = take 5 bs; len = unat (u32_from_be (drop 1 header)) in
        if len > MAX_PAYLOAD then Inl (FrameTooLong len)
        else let payload = take len (drop 5 bs); rest = drop len (drop 5 bs); tag = header ! 0 in
          if length payload < len then Inl UnexpectedEof
          else if tag = TAG_DATA then Inr (Data payload, rest)
          else if tag = TAG_HASH then
            (if length payload = 32 then Inr (Hash payload, rest) else Inl HashNotThirtyTwo)
          else if tag = TAG_END then (if len = 0 then Inr (End, rest) else Inl EndNotEmpty)
          else if tag = TAG_CONTROL then Inr (Control payload, rest)
          else if tag = TAG_ERROR then Inr (Error (utf8_text payload), rest)
          else Inl (UnknownTag tag))"

lemma frame_read_consumes: "frame_read bs = Inr (f, rest) \<Longrightarrow> length rest < length bs"
  by (auto simp: frame_read_def Let_def split: if_splits)

text \<open>
  The task of a \<open>FrameReader\<close>: it reads frames until one fails, and sends that failure too. The
  channel between the task and \<open>next\<close> keeps order, so \<open>next\<close> takes the frames off the front;
  once they have run out, every call fails.
\<close>

function frame_reader :: "u8 list \<Rightarrow> (frame_error, frame) result list" where
  "frame_reader bs =
     (case frame_read bs of
        Inl e \<Rightarrow> [Inl e]
      | Inr (f, rest) \<Rightarrow> Inr f # frame_reader rest)"
  by pat_completeness auto
termination
  by (relation "measure length") (auto dest: frame_read_consumes)

declare frame_reader.simps [simp del]

definition reader_next ::
    "(frame_error, frame) result list \<Rightarrow> (frame_error, frame) result \<times> (frame_error, frame) result list" where
  "reader_next q = (case q of [] \<Rightarrow> (Inl UnexpectedEof, []) | r # q \<Rightarrow> (r, q))"

lemmas frame_evals [evals] = MAX_PAYLOAD_def tag_defs tag_payload_def frame_write_def frame_read_def

section \<open>Contents\<close>

text \<open>The file contents a frame carries, and counting them in 64 bits.\<close>

definition data_of :: "frame \<Rightarrow> u8 list" where
  "data_of f = (case f of Data d \<Rightarrow> d | _ \<Rightarrow> [])"

lemma data_of_simps [simp]:
  "data_of (Data d) = d" "data_of (Hash h) = []" "data_of End = []" "data_of (Control j) = []"
  "data_of (Error m) = []"
  by (simp_all add: data_of_def)

lemma unat_count:
  assumes "unat (n :: u64) \<le> unat (sz :: u64)" and "unat sz + MAX_PAYLOAD < 2 ^ 64" and "k \<le> MAX_PAYLOAD"
  shows "unat (n + of_nat k) = unat n + k"
proof -
  have "unat n + k < 2 ^ 64" using assms by linarith
  moreover from this have "unat (of_nat k :: u64) = k" by (simp add: unat_of_nat)
  ultimately show ?thesis by (simp add: unat_plus_if' )
qed

section \<open>The stream codec\<close>

text \<open>
  The frames a writer can build: a hash is 32 bytes and a message is made of scalar values by
  their types; the payload must fit.
\<close>

definition writable :: "frame \<Rightarrow> bool" where
  "writable f \<longleftrightarrow>
     length (snd (tag_payload f)) \<le> MAX_PAYLOAD \<and>
     (case f of Hash h \<Rightarrow> length h = 32 | Error m \<Rightarrow> list_all scalar m | _ \<Rightarrow> True)"

definition frame_bytes :: "frame \<Rightarrow> u8 list" where
  "frame_bytes f =
     (case tag_payload f of (tag, payload) \<Rightarrow> tag # u32_to_be (of_nat (length payload)) @ payload)"

lemma frame_write_writable: "writable f \<Longrightarrow> frame_write f = Inr (frame_bytes f)"
  by (auto simp: writable_def frame_write_def frame_bytes_def split: prod.split)

lemma frame_read_header:
  assumes "length payload \<le> MAX_PAYLOAD"
  shows "frame_read (tag # u32_to_be (of_nat (length payload)) @ payload @ rest) =
     (if tag = TAG_DATA then Inr (Data payload, rest)
      else if tag = TAG_HASH then
        (if length payload = 32 then Inr (Hash payload, rest) else Inl HashNotThirtyTwo)
      else if tag = TAG_END then (if payload = [] then Inr (End, rest) else Inl EndNotEmpty)
      else if tag = TAG_CONTROL then Inr (Control payload, rest)
      else if tag = TAG_ERROR then Inr (Error (utf8_text payload), rest)
      else Inl (UnknownTag tag))"
proof -
  define l where "l = u32_to_be (of_nat (length payload))"
  define bs where "bs = tag # l @ payload @ rest"
  have "length l = 4" by (simp add: l_def)
  then have h: "drop 1 (take 5 bs) = l" "take 5 bs ! 0 = tag" "drop 5 bs = payload @ rest" "5 \<le> length bs"
    by (simp_all add: bs_def take_Cons' drop_Cons')
  have n: "unat (u32_from_be l) = length payload"
    using assms by (simp add: l_def unat_of_nat MAX_PAYLOAD_def)
  have z: "length payload = 0 \<longleftrightarrow> payload = []" by simp
  have "frame_read bs =
     (if tag = TAG_DATA then Inr (Data payload, rest)
      else if tag = TAG_HASH then
        (if length payload = 32 then Inr (Hash payload, rest) else Inl HashNotThirtyTwo)
      else if tag = TAG_END then (if payload = [] then Inr (End, rest) else Inl EndNotEmpty)
      else if tag = TAG_CONTROL then Inr (Control payload, rest)
      else if tag = TAG_ERROR then Inr (Error (utf8_text payload), rest)
      else Inl (UnknownTag tag))"
    using h(4) assms unfolding frame_read_def Let_def h n z by simp
  then show ?thesis by (simp only: bs_def l_def)
qed

lemma frame_read_write:
  assumes "writable f"
  shows "frame_read (frame_bytes f @ rest) = Inr (f, rest)"
proof -
  obtain tag payload where tp: "tag_payload f = (tag, payload)" by force
  have len: "length payload \<le> MAX_PAYLOAD" using assms tp by (simp add: writable_def)
  have "frame_bytes f @ rest = tag # u32_to_be (of_nat (length payload)) @ payload @ rest"
    by (simp add: frame_bytes_def tp)
  then show ?thesis
    unfolding \<open>frame_bytes f @ rest = _\<close> frame_read_header [OF len]
    using assms tp by (cases f) (auto simp: tag_payload_def tag_defs writable_def utf8_text_bytes)
qed

text \<open>A frame cut short is the end of the stream, never another frame.\<close>

lemma frame_read_truncated:
  assumes "writable f" and "k < length (frame_bytes f)"
  shows "frame_read (take k (frame_bytes f)) = Inl UnexpectedEof"
proof -
  obtain tag payload where tp: "tag_payload f = (tag, payload)" by force
  have len: "length payload \<le> MAX_PAYLOAD" using assms tp by (simp add: writable_def)
  then have n: "unat (of_nat (length payload) :: u32) = length payload"
    by (simp add: unat_of_nat MAX_PAYLOAD_def)
  have b: "frame_bytes f = tag # u32_to_be (of_nat (length payload)) @ payload"
    by (simp add: frame_bytes_def tp)
  show ?thesis
  proof (cases "k < 5")
    case False
    define l where "l = u32_to_be (of_nat (length payload))"
    define bs where "bs = tag # l @ take (k - 5) payload"
    have "length l = 4" by (simp add: l_def)
    then have h: "drop 1 (take 5 bs) = l" "drop 5 bs = take (k - 5) payload" "5 \<le> length bs"
      and t: "take k (frame_bytes f) = bs"
      using False by (simp_all add: bs_def take_Cons' drop_Cons' b l_def)
    have "unat (u32_from_be l) = length payload" using n by (simp add: l_def)
    moreover have "length (take (length payload) (drop 5 bs)) < length payload"
      using assms(2) False by (simp add: h b)
    ultimately show ?thesis
      using h(3) len unfolding t frame_read_def Let_def h(1) by (simp del: length_take)
  next
    case True
    then have "length (take k (frame_bytes f)) < 5" by simp
    then show ?thesis unfolding frame_read_def by (simp only: if_True)
  qed
qed

definition frame_get :: "u8 list \<Rightarrow> (frame \<times> u8 list) option" where
  "frame_get bs = (case frame_read bs of Inl _ \<Rightarrow> None | Inr r \<Rightarrow> Some r)"

interpretation framing: stream_codec frame_bytes frame_get writable
  by unfold_locales (simp add: frame_get_def frame_read_write)

lemma frame_reader_frames:
  "list_all writable fs \<Longrightarrow>
   frame_reader (concat (map frame_bytes fs) @ tail) = map Inr fs @ frame_reader tail"
  by (induction fs) (simp_all add: frame_reader.simps [of "frame_bytes _ @ _"] frame_read_write)

section \<open>Properties\<close>

text \<open>
  C38: A transfer's stream is read back as it was written. Whatever frames are written, with
  nothing between them, a reader delivers exactly those frames in that order; cut the stream
  inside a frame and the reader delivers the frames before it and then the end of the
  stream, which is what a cancelled transfer is.
\<close>

theorem frames_read_back_in_order:
  assumes "list_all writable fs" and "writable f" and "k < length (frame_bytes f)"
  shows "map frame_write fs = map (\<lambda>g. Inr (frame_bytes g)) fs \<and>
    frame_reader (concat (map frame_bytes fs)) = map Inr fs @ [Inl UnexpectedEof] \<and>
    frame_reader (concat (map frame_bytes fs) @ take k (frame_bytes f)) = map Inr fs @ [Inl UnexpectedEof]"
proof -
  have "frame_reader [] = [Inl UnexpectedEof]" by (simp add: frame_reader.simps frame_read_def)
  moreover have "frame_reader (take k (frame_bytes f)) = [Inl UnexpectedEof]"
    by (simp add: frame_reader.simps frame_read_truncated [OF assms(2,3)])
  moreover have "map frame_write fs = map (\<lambda>g. Inr (frame_bytes g)) fs"
    using assms(1) by (auto simp: list_all_iff frame_write_writable)
  ultimately show ?thesis
    using frame_reader_frames [OF assms(1), of "[]"] frame_reader_frames [OF assms(1), of "take k (frame_bytes f)"]
    by simp
qed

theorem frames_read_back_in_order_witness:
  "frame_reader (concat (map frame_bytes [Data [1, 2], Hash (replicate 32 7)]) @ take 4 (frame_bytes End)) =
     [Inr (Data [1, 2]), Inr (Hash (replicate 32 7)), Inl UnexpectedEof]"
  using frames_read_back_in_order [of "[Data [1, 2], Hash (replicate 32 7)]" End 4]
  by (simp add: writable_def tag_payload_def MAX_PAYLOAD_def frame_bytes_def)

text \<open>
  A hostile length cannot make the reader take in more than the limit, and nothing is
  invented: a frame that is read carries at most \<open>MAX_PAYLOAD\<close> bytes taken from the stream
  right behind its five-byte header, and the rest of the stream is what follows; a length
  over the limit is refused whatever follows it.
\<close>

theorem frame_read_is_bounded:
  "(case frame_read bs of
      Inr (f, rest) \<Rightarrow>
        \<exists>tag len payload. bs = tag # len @ payload @ rest \<and> length len = 4 \<and>
          length payload = unat (u32_from_be len) \<and> length payload \<le> MAX_PAYLOAD \<and>
          (f = Data payload \<or> f = Control payload \<or> f = Error (utf8_text payload) \<or>
           (f = Hash payload \<and> length payload = 32) \<or> (f = End \<and> payload = []))
    | Inl e \<Rightarrow> True) \<and>
   (\<forall>n. unat (u32_from_be (take 4 (drop 1 bs))) = n \<longrightarrow> 5 \<le> length bs \<longrightarrow> MAX_PAYLOAD < n \<longrightarrow>
      frame_read bs = Inl (FrameTooLong n))"
proof -
  let ?len = "take 4 (drop 1 bs)" and ?n = "unat (u32_from_be (take 4 (drop 1 bs)))"
  have h: "drop 1 (take 5 bs) = ?len" by (simp add: drop_take)
  have big: "frame_read bs = Inl (FrameTooLong ?n)" if "5 \<le> length bs" "MAX_PAYLOAD < ?n"
    using that unfolding frame_read_def Let_def h by simp
  have "\<exists>tag len payload. bs = tag # len @ payload @ rest \<and> length len = 4 \<and>
      length payload = unat (u32_from_be len) \<and> length payload \<le> MAX_PAYLOAD \<and>
      (f = Data payload \<or> f = Control payload \<or> f = Error (utf8_text payload) \<or>
       (f = Hash payload \<and> length payload = 32) \<or> (f = End \<and> payload = []))"
    if r: "frame_read bs = Inr (f, rest)" for f rest
  proof (intro exI conjI)
    let ?payload = "take ?n (drop 5 bs)"
    have five: "5 \<le> length bs" and n: "?n \<le> MAX_PAYLOAD" and p: "length ?payload = ?n"
      and rest: "rest = drop ?n (drop 5 bs)"
      using r unfolding frame_read_def Let_def h by (auto split: if_splits)
    have "bs = hd bs # drop 1 bs" using five by (cases bs) auto
    moreover have "drop 1 bs = ?len @ drop 5 bs"
      using append_take_drop_id [of 4 "drop 1 bs"] by simp
    ultimately show "bs = hd bs # ?len @ ?payload @ rest" unfolding rest by (metis append_take_drop_id)
    show "length ?len = 4" using five by simp
    show "length ?payload = ?n" by (rule p)
    show "length ?payload \<le> MAX_PAYLOAD" using n p by simp
    show "f = Data ?payload \<or> f = Control ?payload \<or> f = Error (utf8_text ?payload) \<or>
       (f = Hash ?payload \<and> length ?payload = 32) \<or> (f = End \<and> ?payload = [])"
      using r unfolding frame_read_def Let_def h by (auto split: if_splits)
  qed
  with big show ?thesis by (auto split: sum.split)
qed

theorem frame_read_is_bounded_witness:
  "frame_read [68, 0, 16, 0, 1] = Inl (FrameTooLong 1048577)"
proof -
  have "unat (u32_from_be (take 4 (drop 1 [68, 0, 16, 0, 1]))) = 1048577"
    by (simp add: u32_from_be_def)
  then show ?thesis
    using frame_read_is_bounded [of "[68, 0, 16, 0, 1]"] by (simp add: MAX_PAYLOAD_def)
qed

end
