(* ===== verification/File_Transfer.thy ===== *)
theory File_Transfer
  imports Files Filename Frame "HOL-Library.Sublist"
begin

text \<open>
  \<open>daemon/src/files/transfer.rs\<close>: the two relays of a file transfer. A task is cut at its awaits:
  what it waited for is an event, what it writes, closes or records is an effect, and its state
  says where it is. The JSON of the control messages is serde's, so parsing one is a parameter.
  Byte counts are 64-bit words, as in the source.

  The theorems say when an offer counts as delivered: the sender records \<open>Done\<close>, and the
  receiver says \<open>Committed\<close>, only when exactly the offered number of bytes went through, closed
  by an end frame, and the other side confirmed.
\<close>

section \<open>Messages\<close>

datatype wire =
    WOffer rstr rstr u64 nat
  | WQueued
  | WAccept
  | WReject "rstr option"
  | WCommitted

type_synonym wire_parse = "u8 list \<Rightarrow> wire option"

definition control :: "wire_parse \<Rightarrow> frame \<Rightarrow> wire option" where
  "control parse f = (case f of Control json \<Rightarrow> parse json | _ \<Rightarrow> None)"

text \<open>What a relay does to its two sides and to the connection.\<close>

datatype transfer_effect =
    ToPeer frame
  | WireToPeer wire
  | ToCli frame
  | EventToCli file_event
  | ErrorToCli rstr
  | CloseWith nat rstr

section \<open>Receiving an offer\<close>

datatype first_input = NoStream | NoFrame | FirstFrame frame

datatype refusal = BadName filename_error | NotAdmitted admit_error

datatype receive_outcome =
    RefusedStranger
  | NoOffer
  | RefusedOffer refusal
  | QueuedOffer rstr

definition receive_offer ::
    "wire_parse \<Rightarrow> platform \<Rightarrow> rstr list \<Rightarrow> eid \<Rightarrow> conn \<Rightarrow> first_input \<Rightarrow> instant \<Rightarrow> registry \<Rightarrow>
     receive_outcome \<times> registry \<times> effect list" where
  "receive_offer parse platform candidates peer c first now r =
     (if \<not> files_is_member peer r then (RefusedStranger, r, [Close c NOT_MEMBER])
      else case first of
        NoStream \<Rightarrow> (NoOffer, r, [])
      | NoFrame \<Rightarrow> (NoOffer, r, [Close c FAILED])
      | FirstFrame f \<Rightarrow>
          (case control parse f of
             Some (WOffer sender_id name sz ttl_secs) \<Rightarrow>
               (case check name platform of
                  Inl e \<Rightarrow> (RefusedOffer (BadName e), r, [])
                | Inr _ \<Rightarrow>
                    (case admit candidates peer name sz (clamp_ttl ttl_secs) c now r of
                       (Inl e, r) \<Rightarrow> (RefusedOffer (NotAdmitted e), r, [])
                     | (Inr i, r) \<Rightarrow> (QueuedOffer i, r, [])))
           | _ \<Rightarrow> (NoOffer, r, [Close c FAILED])))"

text \<open>
  After \<open>Queued\<close> was written or not; and the end of the watch, because the sender closed the
  connection or because the window closed.
\<close>

definition offer_queued :: "bool \<Rightarrow> rstr \<Rightarrow> registry \<Rightarrow> instant option \<times> registry" where
  "offer_queued written i r = (if written then store_link i r else (None, drop_incoming i r))"

datatype watch_event = ConnClosed | WindowClosed

definition watch_offer ::
    "externs \<Rightarrow> rstr \<Rightarrow> eid \<Rightarrow> conn \<Rightarrow> watch_event \<Rightarrow> instant \<Rightarrow> registry \<Rightarrow> registry \<times> effect list" where
  "watch_offer x i peer c e now r =
     (let from = files_display x peer r in
      case e of
        ConnClosed \<Rightarrow>
          (snd (bury_incoming i c (from @ lit '' is no longer available (the offer was withdrawn)'') now r), [])
      | WindowClosed \<Rightarrow>
          (case bury_incoming i c (lit ''the offer from '' @ from @ lit '' expired'') now r of
             (True, r) \<Rightarrow> (r, [Close c EXPIRED])
           | (False, r) \<Rightarrow> (r, [])))"

definition reject_offer :: "rstr \<Rightarrow> instant \<Rightarrow> registry \<Rightarrow> (take_error, incoming) result \<times> registry \<times> transfer_effect list" where
  "reject_offer i now r =
     (case take_answerable i now r of
        (Inl e, r) \<Rightarrow> (Inl e, r, [])
      | (Inr offer, r) \<Rightarrow> (Inr offer, r, [WireToPeer (WReject None), CloseWith REJECTED (lit ''rejected'')]))"

section \<open>Sending\<close>

subsection \<open>Delivering the offer\<close>

text \<open>How far the handshake with the receiving daemon came, with the error text where it failed.\<close>

datatype handshake =
    ConnectFailed rstr
  | ConnectTimedOut
  | StreamFailed rstr
  | WriteFailed rstr
  | HandshakeAnswered frame
  | HandshakeClosed rstr
  | HandshakeTimedOut

definition deliver_offer ::
    "wire_parse \<Rightarrow> rstr \<Rightarrow> handshake \<Rightarrow> (rstr, unit) result \<times> transfer_effect list" where
  "deliver_offer parse to h =
     (let unreachable = (\<lambda>e. (Inl (lit ''could not reach '' @ to @ lit '': '' @ e), []))
      in case h of
        ConnectFailed e \<Rightarrow> unreachable e
      | ConnectTimedOut \<Rightarrow> unreachable (lit ''timed out'')
      | StreamFailed e \<Rightarrow> unreachable e
      | WriteFailed e \<Rightarrow> unreachable e
      | HandshakeAnswered f \<Rightarrow>
          (case control parse f of
             Some WQueued \<Rightarrow> (Inr (), [])
           | Some (WReject reason) \<Rightarrow>
               (Inl (to @ lit '' refused the offer: '' @
                  (case reason of Some why \<Rightarrow> why | None \<Rightarrow> lit ''no reason given'')),
                [CloseWith REJECTED (lit ''refused'')])
           | _ \<Rightarrow> (Inl (to @ lit '' answered the offer with something unexpected''), []))
      | HandshakeClosed why \<Rightarrow> (Inl (to @ lit '' refused the offer: '' @ why), [])
      | HandshakeTimedOut \<Rightarrow> (Inl (to @ lit '' did not answer the offer''), []))"

datatype send_outcome =
    SendBadName filename_error
  | SendNotMember rstr
  | SendNoId
  | SendUndelivered rstr
  | SendForgotten
  | SendStarted rstr

text \<open>
  \<open>send\<close> up to the point where the CLI is told: the name and the peer are checked, the entry made,
  the offer delivered, and its connection stored; \<open>meanwhile\<close> is what other tasks did to the
  registry while it was being delivered. A peer removed meanwhile has its connection closed.
\<close>

definition send_begin ::
    "externs \<Rightarrow> wire_parse \<Rightarrow> platform \<Rightarrow> rstr list \<Rightarrow> eid \<Rightarrow> rstr \<Rightarrow> u64 \<Rightarrow> nat \<Rightarrow> instant \<Rightarrow> handshake \<Rightarrow>
     (registry \<Rightarrow> registry) \<Rightarrow> conn \<Rightarrow> instant \<Rightarrow> registry \<Rightarrow> send_outcome \<times> transfer_effect list \<times> registry" where
  "send_begin x parse platform cs peer name sz ttl_secs now h meanwhile c later r =
     (let ttl = clamp_ttl ttl_secs; to = files_display x peer r
      in case check name platform of
        Inl e \<Rightarrow> (SendBadName e, [], r)
      | Inr _ \<Rightarrow>
          if \<not> files_is_member peer r
          then (SendNotMember (to @ lit '' is not a member of this network''), [], r)
          else case list_outgoing cs peer to name sz ttl now r of
            (None, r) \<Rightarrow> (SendNoId, [], r)
          | (Some i, r) \<Rightarrow>
              let r = meanwhile r in
              (case deliver_offer parse to h of
                 (Inl message, fx) \<Rightarrow> (SendUndelivered message, fx, drop_outgoing i r)
               | (Inr _, fx) \<Rightarrow>
                   (case store_conn i c (later + ttl) r of
                      (False, r) \<Rightarrow> (SendForgotten, fx, r)
                    | (True, r) \<Rightarrow>
                        (SendStarted i,
                         if files_is_member peer r then fx
                         else fx @ [CloseWith NOT_MEMBER (lit ''removed from the network'')], r))))"

lemma send_begin_inv [inv_intros]:
  assumes "files_inv r" and "\<And>r. files_inv r \<Longrightarrow> files_inv (meanwhile r)"
  shows "files_inv (snd (snd (send_begin x parse platform cs peer name sz ttl now h meanwhile c later r)))"
proof -
  let ?to = "files_display x peer r" and ?ttl = "clamp_ttl ttl"
  obtain oi r1 where l: "list_outgoing cs peer ?to name sz ?ttl now r = (oi, r1)" by force
  have r1: "files_inv r1" using list_outgoing_inv [OF assms(1), of cs peer ?to name sz ?ttl now] l by simp
  have "files_inv (snd (store_conn i c e (meanwhile r1)))" "files_inv (drop_outgoing i (meanwhile r1))" for i e
    using r1 assms(2) by (auto intro: inv_intros)
  then show ?thesis
    using assms(1) l r1 unfolding send_begin_def Let_def
    by (auto split: sum.split option.split prod.splits bool.split; metis snd_conv)
qed

text \<open>An offer that could not be delivered leaves no entry.\<close>

lemma undelivered_leaves_no_entry:
  assumes "send_begin x parse platform cs peer name sz ttl now h (\<lambda>r. r) c later r = (SendUndelivered m, fx, r')"
  shows "map_of (f_outgoing r') = map_of (f_outgoing (forget_history now r))"
proof -
  let ?f = "forget_history now r"
  have gone: "(map_of (f_outgoing ?f))(i := None) = map_of (f_outgoing ?f)" if "new_id cs ?f = Some i" for i
  proof (rule fun_upd_idem)
    have "i \<notin> akeys (f_outgoing ?f)" using new_id_fresh [OF that] by (rule conjunct1 [OF conjunct2])
    then show "map_of (f_outgoing ?f) i = None" by (rule map_of_absent)
  qed
  from assms show ?thesis
    by (auto simp: send_begin_def Let_def list_outgoing_def drop_outgoing_def map_of_adelete map_of_aupdate gone
        split: sum.splits option.splits if_splits prod.splits bool.splits)
qed

subsection \<open>Relaying\<close>

text \<open>
  Where a sender is: waiting for the answer, relaying, waiting for the receiver to confirm, and
  over. \<open>settled\<close> is the flag of the guard \<open>Outcome\<close>, and \<open>recorded\<close> what it and \<open>set_state\<close> last
  wrote into the registry's entry.
\<close>

datatype send_phase = Offering | Relaying | Confirming | Over

record sender =
  s_phase :: send_phase
  s_sent :: u64
  s_settled :: bool
  s_recorded :: offer_state
  s_detail :: "rstr option"

definition new_sender :: sender where
  "new_sender = \<lparr>s_phase = Offering, s_sent = 0, s_settled = False, s_recorded = Offered,
     s_detail = None\<rparr>"

text \<open>
  \<open>outcome.finish\<close> and the return that follows it. Every call gives the reason of a failure, and
  only of a failure, as the detail of the entry as well.
\<close>

definition finish :: "offer_state \<Rightarrow> nat \<Rightarrow> rstr \<Rightarrow> transfer_effect list \<Rightarrow> sender \<Rightarrow> sender \<times> transfer_effect list" where
  "finish st code reason said s =
     (s\<lparr>s_phase := Over, s_settled := True, s_recorded := st,
       s_detail := if st = Failed then Some reason else None\<rparr>, CloseWith code reason # said)"

text \<open>
  What the task can wake up to. A frame from the receiver, or none because its side failed, comes
  with what the connection says about its end: the close code if the peer closed it, and the
  words of \<open>why\<close>. A frame from the CLI comes with whether passing it on worked, and \<open>why\<close> not.
  \<open>SenderDropped\<close> is the task being dropped, which runs the guard.
\<close>

datatype send_event =
    PeerSays "frame option" "nat option" rstr
  | CliSays "frame option" bool rstr
  | OfferWindowClosed
  | SenderDropped

definition lost :: "rstr \<Rightarrow> rstr \<Rightarrow> sender \<Rightarrow> sender \<times> transfer_effect list" where
  "lost to why s =
     finish Failed FAILED why [ErrorToCli (lit ''the transfer to '' @ to @ lit '' broke off: '' @ why)] s"

definition send_offering ::
    "wire_parse \<Rightarrow> rstr \<Rightarrow> send_event \<Rightarrow> sender \<Rightarrow> sender \<times> transfer_effect list" where
  "send_offering parse to e s =
     (case e of
        CliSays _ _ _ \<Rightarrow> finish Cancelled CANCELLED (lit ''the sender cancelled'') [] s
      | OfferWindowClosed \<Rightarrow> finish OfferExpired EXPIRED (lit ''the offer expired'') [EventToCli Expired] s
      | PeerSays f code why \<Rightarrow>
          (case Option.bind f (control parse) of
             Some WAccept \<Rightarrow> (s\<lparr>s_phase := Relaying, s_recorded := Transferring\<rparr>, [EventToCli Accepted])
           | Some (WReject _) \<Rightarrow> finish OfferRejected REJECTED (lit ''rejected'') [EventToCli Rejected] s
           | _ \<Rightarrow>
               if code = Some EXPIRED
               then finish OfferExpired EXPIRED (lit ''the offer expired'') [EventToCli Expired] s
               else if code = Some REJECTED
               then finish OfferRejected REJECTED (lit ''rejected'') [EventToCli Rejected] s
               else finish Failed FAILED why
                 [ErrorToCli (to @ lit '' is no longer available: '' @ why)] s)
      | SenderDropped \<Rightarrow> finish Failed FAILED (lit ''interrupted'') [] s)"

definition send_relaying ::
    "rstr \<Rightarrow> u64 \<Rightarrow> send_event \<Rightarrow> sender \<Rightarrow> sender \<times> transfer_effect list" where
  "send_relaying to sz e s =
     (case e of
        CliSays (Some (Data d)) written why \<Rightarrow>
          let s = s\<lparr>s_sent := s_sent s + of_nat (length d)\<rparr>;
              reason = lit ''the file grew while it was being sent''
          in if s_sent s > sz then finish Failed FAILED reason [ErrorToCli reason] s
             else if written then (s, [ToPeer (Data d)])
             else lost to why s
      | CliSays (Some (Hash h)) written why \<Rightarrow>
          if written then (s, [ToPeer (Hash h)]) else lost to why s
      | CliSays (Some End) written why \<Rightarrow>
          let reason = lit ''the file changed size while it was being sent'' in
          if s_sent s \<noteq> sz then finish Failed FAILED reason [ErrorToCli reason] s
          else if written then (s\<lparr>s_phase := Confirming\<rparr>, [ToPeer End])
          else lost to why s
      | CliSays (Some (Error reason)) written why \<Rightarrow>
          finish Failed FAILED (lit ''the sender could not read the file: '' @ reason) [] s
      | CliSays (Some (Control json)) written why \<Rightarrow>
          let reason = lit ''the sending CLI broke protocol'' in finish Failed FAILED reason [ErrorToCli reason] s
      | CliSays None written why \<Rightarrow> finish Cancelled CANCELLED (lit ''the sender cancelled'') [] s
      | PeerSays f code why \<Rightarrow>
          let reason = (case f of Some (Error reason) \<Rightarrow> reason | _ \<Rightarrow> why)
          in finish Failed FAILED reason [ErrorToCli (to @ lit '' stopped the transfer: '' @ reason)] s
      | SenderDropped \<Rightarrow> finish Failed FAILED (lit ''interrupted'') [] s
      | OfferWindowClosed \<Rightarrow> (s, []))"

definition send_confirming ::
    "wire_parse \<Rightarrow> rstr \<Rightarrow> send_event \<Rightarrow> sender \<Rightarrow> sender \<times> transfer_effect list" where
  "send_confirming parse to e s =
     (case e of
        PeerSays f code why \<Rightarrow>
          (case f of
             Some frame \<Rightarrow>
               (case (control parse frame, frame) of
                  (Some WCommitted, _) \<Rightarrow> finish Done DONE (lit ''delivered'') [EventToCli Delivered] s
                | (_, Error reason) \<Rightarrow>
                    finish Failed FAILED reason [ErrorToCli (to @ lit '' did not keep the file: '' @ reason)] s
                | _ \<Rightarrow> finish Failed FAILED why
                    [ErrorToCli (to @ lit '' did not confirm the file arrived: '' @ why)] s)
           | None \<Rightarrow> finish Failed FAILED why
               [ErrorToCli (to @ lit '' did not confirm the file arrived: '' @ why)] s)
      | SenderDropped \<Rightarrow> finish Failed FAILED (lit ''interrupted'') [] s
      | _ \<Rightarrow> (s, []))"

definition send_step ::
    "wire_parse \<Rightarrow> rstr \<Rightarrow> u64 \<Rightarrow> send_event \<Rightarrow> sender \<Rightarrow> sender \<times> transfer_effect list" where
  "send_step parse to sz e s =
     (case s_phase s of
        Offering \<Rightarrow> send_offering parse to e s
      | Relaying \<Rightarrow> send_relaying to sz e s
      | Confirming \<Rightarrow> send_confirming parse to e s
      | Over \<Rightarrow> (s, []))"

fun send_run ::
    "wire_parse \<Rightarrow> rstr \<Rightarrow> u64 \<Rightarrow> send_event list \<Rightarrow> sender \<Rightarrow> sender \<times> transfer_effect list" where
  "send_run parse to sz [] s = (s, [])"
| "send_run parse to sz (e # es) s =
     (case send_step parse to sz e s of (s, fx) \<Rightarrow>
        (case send_run parse to sz es s of (s, fxs) \<Rightarrow> (s, fx @ fxs)))"

section \<open>Accepting\<close>

datatype accept_outcome = CannotTake take_error | SenderGone | NotTold | Started incoming

text \<open>
  Up to the loop: the offer is taken, its connection must still be open, the sender is told, the
  transfer registered, and the CLI told; a failure after the registration takes it out again.
\<close>

definition accept_begin ::
    "rstr \<Rightarrow> instant \<Rightarrow> bool \<Rightarrow> bool \<Rightarrow> bool \<Rightarrow> registry \<Rightarrow> accept_outcome \<times> registry" where
  "accept_begin i now closed told_sender told_cli r =
     (case take_answerable i now r of
        (Inl e, r) \<Rightarrow> (CannotTake e, r)
      | (Inr offer, r) \<Rightarrow>
          if closed \<or> \<not> told_sender then (SenderGone, r)
          else let r = begin_receiving i (i_peer offer) (i_conn offer) r in
            if told_cli then (Started offer, r) else (NotTold, end_receiving i r))"

datatype accept_phase = Receiving | Committing | Ended

record accepter =
  a_phase :: accept_phase
  a_received :: u64

definition new_accepter :: accepter where
  "new_accepter = \<lparr>a_phase = Receiving, a_received = 0\<rparr>"

datatype accept_event =
    SenderSays "frame option" bool rstr
  | CliAnswers "frame option"

definition cancelled :: "accepter \<Rightarrow> accepter \<times> transfer_effect list" where
  "cancelled a = (a\<lparr>a_phase := Ended\<rparr>, [CloseWith CANCELLED (lit ''the receiver cancelled'')])"

definition accept_receiving ::
    "rstr \<Rightarrow> u64 \<Rightarrow> accept_event \<Rightarrow> accepter \<Rightarrow> accepter \<times> transfer_effect list" where
  "accept_receiving from sz e a =
     (case e of
        SenderSays (Some (Data d)) written why \<Rightarrow>
          let a = a\<lparr>a_received := a_received a + of_nat (length d)\<rparr>;
              reason = lit ''the sender sent more than it offered''
          in if a_received a > sz then (a\<lparr>a_phase := Ended\<rparr>, [CloseWith FAILED reason, ErrorToCli reason])
             else if written then (a, [ToCli (Data d)])
             else cancelled a
      | SenderSays (Some (Hash h)) written why \<Rightarrow> if written then (a, [ToCli (Hash h)]) else cancelled a
      | SenderSays (Some End) written why \<Rightarrow>
          let reason = lit ''the transfer ended short of the offered size'' in
          if a_received a \<noteq> sz then (a\<lparr>a_phase := Ended\<rparr>, [CloseWith FAILED reason, ErrorToCli reason])
          else if written then (a\<lparr>a_phase := Committing\<rparr>, [ToCli End])
          else cancelled a
      | SenderSays (Some (Error reason)) written why \<Rightarrow>
          (a\<lparr>a_phase := Ended\<rparr>, [ErrorToCli (from @ lit '' stopped the transfer: '' @ reason)])
      | SenderSays (Some (Control json)) written why \<Rightarrow>
          (a\<lparr>a_phase := Ended\<rparr>,
           [CloseWith FAILED (lit ''unexpected message mid-transfer''), ErrorToCli (from @ lit '' broke protocol'')])
      | SenderSays None written why \<Rightarrow>
          (a\<lparr>a_phase := Ended\<rparr>,
           [ErrorToCli (if a_received a = 0 then from @ lit '' is no longer available: '' @ why
              else from @ lit '' went away mid-transfer: '' @ why)])
      | CliAnswers f \<Rightarrow>
          let reason = (case f of
              Some (Error reason) \<Rightarrow> lit ''the receiver could not save the file: '' @ reason
            | _ \<Rightarrow> lit ''the receiver cancelled'')
          in (a\<lparr>a_phase := Ended\<rparr>, [ToPeer (Error reason), CloseWith FAILED reason]))"

definition accept_committing :: "accept_event \<Rightarrow> accepter \<Rightarrow> accepter \<times> transfer_effect list" where
  "accept_committing e a =
     (case e of
        CliAnswers (Some End) \<Rightarrow> (a\<lparr>a_phase := Ended\<rparr>, [WireToPeer WCommitted])
      | CliAnswers (Some (Error reason)) \<Rightarrow> (a\<lparr>a_phase := Ended\<rparr>, [ToPeer (Error reason)])
      | CliAnswers _ \<Rightarrow> cancelled a
      | SenderSays _ _ _ \<Rightarrow> (a, []))"

definition accept_step ::
    "rstr \<Rightarrow> u64 \<Rightarrow> accept_event \<Rightarrow> accepter \<Rightarrow> accepter \<times> transfer_effect list" where
  "accept_step from sz e a =
     (case a_phase a of
        Receiving \<Rightarrow> accept_receiving from sz e a
      | Committing \<Rightarrow> accept_committing e a
      | Ended \<Rightarrow> (a, []))"

fun accept_run ::
    "rstr \<Rightarrow> u64 \<Rightarrow> accept_event list \<Rightarrow> accepter \<Rightarrow> accepter \<times> transfer_effect list" where
  "accept_run from sz [] a = (a, [])"
| "accept_run from sz (e # es) a =
     (case accept_step from sz e a of (a, fx) \<Rightarrow>
        (case accept_run from sz es a of (a, fxs) \<Rightarrow> (a, fx @ fxs)))"

section \<open>What went through\<close>

fun peer_data :: "transfer_effect list \<Rightarrow> u8 list" where
  "peer_data [] = []"
| "peer_data (ToPeer f # fx) = data_of f @ peer_data fx"
| "peer_data (_ # fx) = peer_data fx"

fun cli_data :: "transfer_effect list \<Rightarrow> u8 list" where
  "cli_data [] = []"
| "cli_data (ToCli f # fx) = data_of f @ cli_data fx"
| "cli_data (_ # fx) = cli_data fx"

fun closes_made :: "transfer_effect list \<Rightarrow> nat" where
  "closes_made [] = 0"
| "closes_made (CloseWith _ _ # fx) = Suc (closes_made fx)"
| "closes_made (_ # fx) = closes_made fx"

lemma peer_data_append [simp]: "peer_data (fx @ gx) = peer_data fx @ peer_data gx"
  by (induction fx rule: peer_data.induct) auto

lemma cli_data_append [simp]: "cli_data (fx @ gx) = cli_data fx @ cli_data gx"
  by (induction fx rule: cli_data.induct) auto

lemma closes_made_append [simp]: "closes_made (fx @ gx) = closes_made fx + closes_made gx"
  by (induction fx rule: closes_made.induct) auto

text \<open>The contents offered by an event.\<close>

definition sent_by_cli :: "send_event list \<Rightarrow> u8 list" where
  "sent_by_cli es = concat (map (\<lambda>e. case e of CliSays (Some f) _ _ \<Rightarrow> data_of f | _ \<Rightarrow> []) es)"

definition sent_by_peer :: "accept_event list \<Rightarrow> u8 list" where
  "sent_by_peer es = concat (map (\<lambda>e. case e of SenderSays (Some f) _ _ \<Rightarrow> data_of f | _ \<Rightarrow> []) es)"

text \<open>Frames come from a reader, so they are within the payload limit.\<close>

definition frames_bounded :: "send_event list \<Rightarrow> bool" where
  "frames_bounded es \<longleftrightarrow>
     list_all (\<lambda>e. case e of CliSays (Some f) _ _ \<Rightarrow> length (data_of f) \<le> MAX_PAYLOAD | _ \<Rightarrow> True) es"

definition inputs_bounded :: "accept_event list \<Rightarrow> bool" where
  "inputs_bounded es \<longleftrightarrow>
     list_all (\<lambda>e. case e of SenderSays (Some f) _ _ \<Rightarrow> length (data_of f) \<le> MAX_PAYLOAD | _ \<Rightarrow> True) es"

section \<open>The sender's progress\<close>

lemma send_run_snoc:
  "send_run parse to sz (es @ [e]) s =
     (case send_run parse to sz es s of (s, fx) \<Rightarrow>
        (case send_step parse to sz e s of (s, fx') \<Rightarrow> (s, fx @ fx')))"
  by (induction es arbitrary: s) (auto split: prod.splits)

lemma sent_by_cli_snoc:
  "sent_by_cli (es @ [e]) =
     sent_by_cli es @ (case e of CliSays (Some f) _ _ \<Rightarrow> data_of f | _ \<Rightarrow> [])"
  by (simp add: sent_by_cli_def)

definition send_sofar :: "u64 \<Rightarrow> send_event list \<Rightarrow> sender \<times> transfer_effect list \<Rightarrow> bool" where
  "send_sofar sz es r \<longleftrightarrow>
     (case r of (s, fx) \<Rightarrow>
        case s_phase s of
          Offering \<Rightarrow>
            s_recorded s = Offered \<and> s_sent s = 0 \<and> peer_data fx = [] \<and> sent_by_cli es = [] \<and>
            closes_made fx = 0 \<and> EventToCli Delivered \<notin> set fx
        | Relaying \<Rightarrow>
            s_recorded s = Transferring \<and> unat (s_sent s) = length (peer_data fx) \<and> s_sent s \<le> sz \<and>
            peer_data fx = sent_by_cli es \<and> closes_made fx = 0 \<and> EventToCli Delivered \<notin> set fx
        | Confirming \<Rightarrow>
            s_recorded s = Transferring \<and> length (peer_data fx) = unat sz \<and> prefix (peer_data fx) (sent_by_cli es) \<and>
            ToPeer End \<in> set fx \<and> closes_made fx = 0 \<and> EventToCli Delivered \<notin> set fx
        | Over \<Rightarrow>
            s_settled s \<and> is_finished (s_recorded s) \<and> length (peer_data fx) \<le> unat sz \<and>
            prefix (peer_data fx) (sent_by_cli es) \<and> closes_made fx = 1 \<and>
            (s_recorded s = Done \<longleftrightarrow> EventToCli Delivered \<in> set fx) \<and>
            (s_recorded s = Done \<longrightarrow> length (peer_data fx) = unat sz \<and> ToPeer End \<in> set fx))"

lemma finish_sel:
  "s_phase (fst (finish st code reason said s)) = Over"
  "s_settled (fst (finish st code reason said s))"
  "s_recorded (fst (finish st code reason said s)) = st"
  "snd (finish st code reason said s) = CloseWith code reason # said"
  by (simp_all add: finish_def)

text \<open>Ending a session that was in order leaves it in order.\<close>

lemma send_sofar_finish:
  assumes "length (peer_data fx) \<le> unat sz" and "prefix (peer_data fx) (sent_by_cli es)" and "closes_made fx = 0"
    and "EventToCli Delivered \<notin> set fx" and "is_finished st" and "st \<noteq> Done"
    and "EventToCli Delivered \<notin> set said" and "peer_data said = []" and "closes_made said = 0"
  shows "send_sofar sz es (case finish st code reason said s of (s, fx') \<Rightarrow> (s, fx @ fx'))"
  using assms by (simp add: send_sofar_def finish_def)

lemma prefix_sent_snoc: "prefix d (sent_by_cli es) \<Longrightarrow> prefix d (sent_by_cli (es @ [e]))"
  by (simp add: sent_by_cli_snoc)

lemma send_offering_sofar:
  assumes "send_sofar sz es (s, fx)" and "s_phase s = Offering"
  shows "send_sofar sz (es @ [e]) (case send_offering parse to e s of (s, fx') \<Rightarrow> (s, fx @ fx'))"
proof -
  have o: "peer_data fx = []" "sent_by_cli es = []" "closes_made fx = 0" "EventToCli Delivered \<notin> set fx" "s_sent s = 0"
    using assms by (simp_all add: send_sofar_def)
  then have fin: "send_sofar sz (es @ [e']) (case finish st code reason said s of (s, fx') \<Rightarrow> (s, fx @ fx'))"
    if "is_finished st" "st \<noteq> Done" "EventToCli Delivered \<notin> set said" "peer_data said = []" "closes_made said = 0"
    for st code reason said e'
    using that by (intro send_sofar_finish) simp_all
  show ?thesis
  proof (cases e)
    case (PeerSays f code why)
    then show ?thesis
      using o by (auto simp: send_offering_def is_finished_def sent_by_cli_snoc
          intro!: fin split: option.split wire.split) (simp_all add: send_sofar_def sent_by_cli_snoc)
  qed (auto simp: send_offering_def is_finished_def intro!: fin)
qed

lemma send_relaying_sofar:
  assumes "send_sofar sz es (s, fx)" and "s_phase s = Relaying"
    and "unat sz + MAX_PAYLOAD < 2 ^ 64" and "frames_bounded [e]"
  shows "send_sofar sz (es @ [e]) (case send_relaying to sz e s of (s, fx') \<Rightarrow> (s, fx @ fx'))"
proof -
  have o: "s_recorded s = Transferring" "unat (s_sent s) = length (peer_data fx)" "s_sent s \<le> sz"
    "peer_data fx = sent_by_cli es" "closes_made fx = 0" "EventToCli Delivered \<notin> set fx"
    using assms(1,2) by (simp_all add: send_sofar_def)
  have fin: "send_sofar sz (es @ [e']) (case finish st code reason said t of (s, fx') \<Rightarrow> (s, fx @ fx'))"
    if "is_finished st" "st \<noteq> Done" "EventToCli Delivered \<notin> set said" "peer_data said = []" "closes_made said = 0"
    for st code reason said t e'
    using that o by (intro send_sofar_finish) (simp_all add: sent_by_cli_snoc word_le_nat_alt)
  show ?thesis
  proof (cases e)
    case (CliSays f written why)
    show ?thesis
    proof (cases f)
      case None
      with CliSays show ?thesis by (simp add: send_relaying_def is_finished_def fin)
    next
      case (Some frame)
      show ?thesis
      proof (cases frame)
        case (Data d)
        have n: "unat (s_sent s + of_nat (length d)) = unat (s_sent s) + length d"
          using assms(3,4) o(3) CliSays Some Data
          by (intro unat_count [of _ sz]) (simp_all add: word_le_nat_alt frames_bounded_def data_of_def)
        have "send_sofar sz (es @ [e]) (s\<lparr>s_sent := s_sent s + of_nat (length d)\<rparr>, fx @ [ToPeer (Data d)])"
          if "s_sent s + of_nat (length d) \<le> sz"
          using that o n assms(2) CliSays Some Data
          by (simp add: send_sofar_def sent_by_cli_snoc data_of_def)
        then show ?thesis
          using CliSays Some Data
          by (auto simp: send_relaying_def Let_def lost_def is_finished_def not_less intro!: fin)
      next
        case (Hash h)
        with CliSays Some o assms(2) show ?thesis
          by (auto simp: send_relaying_def lost_def is_finished_def intro!: fin)
            (simp add: send_sofar_def sent_by_cli_snoc data_of_def)
      next
        case End
        have "send_sofar sz (es @ [e]) (s\<lparr>s_phase := Confirming\<rparr>, fx @ [ToPeer End])" if "s_sent s = sz"
          using that o CliSays Some End by (simp add: send_sofar_def sent_by_cli_snoc data_of_def)
        then show ?thesis
          using CliSays Some End
          by (cases "s_sent s = sz"; cases written)
            (simp_all add: send_relaying_def Let_def lost_def is_finished_def fin)
      next
        case (Control json)
        with CliSays Some show ?thesis by (simp add: send_relaying_def Let_def is_finished_def fin)
      next
        case (Error reason)
        with CliSays Some show ?thesis by (simp add: send_relaying_def is_finished_def fin)
      qed
    qed
  next
    case (PeerSays f code why)
    then show ?thesis by (simp add: send_relaying_def Let_def is_finished_def fin)
  next
    case OfferWindowClosed
    then show ?thesis using o assms(2) by (simp add: send_relaying_def send_sofar_def sent_by_cli_snoc)
  next
    case SenderDropped
    then show ?thesis by (simp add: send_relaying_def is_finished_def fin)
  qed
qed

lemma send_confirming_sofar:
  assumes "send_sofar sz es (s, fx)" and "s_phase s = Confirming"
  shows "send_sofar sz (es @ [e]) (case send_confirming parse to e s of (s, fx') \<Rightarrow> (s, fx @ fx'))"
proof -
  have o: "s_recorded s = Transferring" "length (peer_data fx) = unat sz" "prefix (peer_data fx) (sent_by_cli es)"
    "ToPeer End \<in> set fx" "closes_made fx = 0" "EventToCli Delivered \<notin> set fx"
    using assms by (simp_all add: send_sofar_def)
  have fin: "send_sofar sz (es @ [e']) (case finish st code reason said s of (s, fx') \<Rightarrow> (s, fx @ fx'))"
    if "is_finished st" "st \<noteq> Done" "EventToCli Delivered \<notin> set said" "peer_data said = []" "closes_made said = 0"
    for st code reason said e'
    using that o by (intro send_sofar_finish) (simp_all add: sent_by_cli_snoc)
  have same: "send_sofar sz (es @ [e']) (s, fx)" for e'
    using o assms(2) by (simp add: send_sofar_def sent_by_cli_snoc)
  have committed: "send_sofar sz (es @ [e'])
      (case finish Done code reason [EventToCli Delivered] s of (s, fx') \<Rightarrow> (s, fx @ fx'))" for code reason e'
    using o by (simp add: send_sofar_def finish_def is_finished_def sent_by_cli_snoc)
  show ?thesis
  proof (cases e)
    case (PeerSays f code why)
    then show ?thesis
      by (cases f)
        (simp_all add: send_confirming_def is_finished_def committed fin split: option.split wire.split frame.split)
  qed (auto simp: send_confirming_def is_finished_def same intro!: fin)
qed

lemma send_run_sofar:
  assumes "unat sz + MAX_PAYLOAD < 2 ^ 64" and "frames_bounded es"
  shows "send_sofar sz es (send_run parse to sz es new_sender)"
  using assms(2)
proof (induction es rule: rev_induct)
  case Nil
  then show ?case by (simp add: send_sofar_def new_sender_def sent_by_cli_def)
next
  case (snoc e es)
  obtain s fx where run: "send_run parse to sz es new_sender = (s, fx)" by force
  have so: "send_sofar sz es (s, fx)" using snoc run by (simp add: frames_bounded_def)
  have "send_sofar sz (es @ [e]) (case send_step parse to sz e s of (s, fx') \<Rightarrow> (s, fx @ fx'))"
  proof (cases "s_phase s")
    case Offering
    then show ?thesis using send_offering_sofar [OF so] by (simp add: send_step_def)
  next
    case Relaying
    then show ?thesis
      using send_relaying_sofar [OF so _ assms(1)] snoc.prems by (simp add: send_step_def frames_bounded_def)
  next
    case Confirming
    then show ?thesis using send_confirming_sofar [OF so] by (simp add: send_step_def)
  next
    case Over
    then show ?thesis using so by (simp add: send_step_def send_sofar_def prefix_sent_snoc)
  qed
  then show ?case by (simp add: send_run_snoc run)
qed

section \<open>The receiver's progress\<close>

lemma accept_run_snoc:
  "accept_run from sz (es @ [e]) a =
     (case accept_run from sz es a of (a, fx) \<Rightarrow>
        (case accept_step from sz e a of (a, fx') \<Rightarrow> (a, fx @ fx')))"
  by (induction es arbitrary: a) (auto split: prod.splits)

lemma sent_by_peer_snoc:
  "sent_by_peer (es @ [e]) =
     sent_by_peer es @ (case e of SenderSays (Some f) _ _ \<Rightarrow> data_of f | _ \<Rightarrow> [])"
  by (simp add: sent_by_peer_def)

definition accept_sofar :: "u64 \<Rightarrow> accept_event list \<Rightarrow> accepter \<times> transfer_effect list \<Rightarrow> bool" where
  "accept_sofar sz es r \<longleftrightarrow>
     (case r of (a, fx) \<Rightarrow>
        prefix (cli_data fx) (sent_by_peer es) \<and> length (cli_data fx) \<le> unat sz \<and>
        (WireToPeer WCommitted \<in> set fx \<longrightarrow>
           a_phase a = Ended \<and> length (cli_data fx) = unat sz \<and> ToCli End \<in> set fx \<and>
           CliAnswers (Some End) \<in> set es) \<and>
        (case a_phase a of
           Receiving \<Rightarrow> unat (a_received a) = length (cli_data fx) \<and> cli_data fx = sent_by_peer es
         | Committing \<Rightarrow> length (cli_data fx) = unat sz \<and> ToCli End \<in> set fx
         | Ended \<Rightarrow> True))"

text \<open>An effect list that passes no data to the CLI and does not commit ends the session in order.\<close>

lemma accept_sofar_end:
  assumes "accept_sofar sz es (a, fx)" and "a_phase a \<noteq> Ended"
    and "cli_data fx' = []" and "WireToPeer WCommitted \<notin> set fx'" and "a_phase b = Ended"
  shows "accept_sofar sz (es @ [e]) (b, fx @ fx')"
  using assms by (auto simp: accept_sofar_def sent_by_peer_snoc)

lemma accept_step_sofar:
  assumes so: "accept_sofar sz es (a, fx)"
    and "unat sz + MAX_PAYLOAD < 2 ^ 64" and "inputs_bounded [e]"
  shows "accept_sofar sz (es @ [e]) (case accept_step from sz e a of (a, fx') \<Rightarrow> (a, fx @ fx'))"
proof (cases "a_phase a")
  case Ended
  then show ?thesis using so by (auto simp: accept_step_def accept_sofar_def sent_by_peer_snoc)
next
  case Committing
  then have fin: "accept_sofar sz (es @ [e']) (b, fx @ fx')"
    if "cli_data fx' = []" "WireToPeer WCommitted \<notin> set fx'" "a_phase b = Ended" for e' b fx'
    using that accept_sofar_end [OF so] by simp
  have commit: "accept_sofar sz (es @ [CliAnswers (Some End)]) (a\<lparr>a_phase := Ended\<rparr>, fx @ [WireToPeer WCommitted])"
    using so Committing by (simp add: accept_sofar_def sent_by_peer_snoc)
  have same: "accept_sofar sz (es @ [e']) (a, fx)" for e'
    using so Committing by (auto simp: accept_sofar_def sent_by_peer_snoc)
  show ?thesis
    using Committing
    by (cases e) (simp_all add: accept_step_def accept_committing_def cancelled_def commit same fin
        split: option.split frame.split)
next
  case Receiving
  then have fin: "accept_sofar sz (es @ [e']) (b, fx @ fx')"
    if "cli_data fx' = []" "WireToPeer WCommitted \<notin> set fx'" "a_phase b = Ended" for e' b fx'
    using that accept_sofar_end [OF so] by simp
  have o: "unat (a_received a) = length (cli_data fx)" "cli_data fx = sent_by_peer es" "length (cli_data fx) \<le> unat sz"
      "WireToPeer WCommitted \<notin> set fx"
    using so Receiving by (auto simp: accept_sofar_def)
  show ?thesis
  proof (cases e)
    case (CliAnswers f)
    then show ?thesis using Receiving by (simp add: accept_step_def accept_receiving_def Let_def fin)
  next
    case (SenderSays f written why)
    show ?thesis
    proof (cases f)
      case None
      then show ?thesis using SenderSays Receiving by (simp add: accept_step_def accept_receiving_def fin)
    next
      case (Some frame)
      show ?thesis
      proof (cases frame)
        case (Data d)
        have n: "unat (a_received a + of_nat (length d)) = unat (a_received a) + length d"
          using assms(2,3) o SenderSays Some Data
          by (intro unat_count [of _ sz]) (simp_all add: inputs_bounded_def data_of_def)
        have "accept_sofar sz (es @ [e]) (a\<lparr>a_received := a_received a + of_nat (length d)\<rparr>, fx @ [ToCli (Data d)])"
          if "\<not> sz < a_received a + of_nat (length d)"
          using that o n Receiving SenderSays Some Data
          by (simp add: accept_sofar_def sent_by_peer_snoc data_of_def not_less word_le_nat_alt)
        then show ?thesis
          using SenderSays Some Data Receiving
          by (cases "sz < a_received a + of_nat (length d)"; cases written)
            (simp_all add: accept_step_def accept_receiving_def Let_def cancelled_def fin)
      next
        case (Hash h)
        have "accept_sofar sz (es @ [e]) (a, fx @ [ToCli (Hash h)])"
          using o Receiving SenderSays Some Hash by (simp add: accept_sofar_def sent_by_peer_snoc data_of_def)
        then show ?thesis
          using SenderSays Some Hash Receiving
          by (cases written) (simp_all add: accept_step_def accept_receiving_def cancelled_def fin)
      next
        case End
        have "accept_sofar sz (es @ [e]) (a\<lparr>a_phase := Committing\<rparr>, fx @ [ToCli End])" if "a_received a = sz"
          using that o Receiving SenderSays Some End by (simp add: accept_sofar_def sent_by_peer_snoc data_of_def)
        then show ?thesis
          using SenderSays Some End Receiving
          by (cases "a_received a = sz"; cases written)
            (simp_all add: accept_step_def accept_receiving_def Let_def cancelled_def fin)
      next
        case (Control json)
        then show ?thesis using SenderSays Some Receiving
          by (simp add: accept_step_def accept_receiving_def fin)
      next
        case (Error reason)
        then show ?thesis using SenderSays Some Receiving
          by (simp add: accept_step_def accept_receiving_def fin)
      qed
    qed
  qed
qed

lemma accept_run_sofar:
  assumes "unat sz + MAX_PAYLOAD < 2 ^ 64" and "inputs_bounded es"
  shows "accept_sofar sz es (accept_run from sz es new_accepter)"
  using assms(2)
proof (induction es rule: rev_induct)
  case Nil
  then show ?case by (simp add: accept_sofar_def new_accepter_def sent_by_peer_def)
next
  case (snoc e es)
  obtain a fx where run: "accept_run from sz es new_accepter = (a, fx)" by force
  have "accept_sofar sz (es @ [e]) (case accept_step from sz e a of (a, fx') \<Rightarrow> (a, fx @ fx'))"
    using snoc run assms(1) by (intro accept_step_sofar) (simp_all add: inputs_bounded_def)
  then show ?case by (simp add: accept_run_snoc run)
qed

section \<open>Properties\<close>

lemma sender_dropped_over:
  "s_phase (fst (send_run parse to sz (es @ [SenderDropped]) s)) = Over"
proof -
  obtain t fx where run: "send_run parse to sz es s = (t, fx)" by force
  show ?thesis
    unfolding send_run_snoc run
    by (cases "s_phase t")
      (simp_all add: send_step_def send_offering_def send_relaying_def send_confirming_def finish_def)
qed


text \<open>
  C12: The receiver confirms a file only when the CLI has all of it and says it is in place. Over
  any run of an accepted transfer, the CLI is given a prefix of the bytes the sender passed on, in
  order, never more than was offered; and the commit goes back only after exactly the offered
  size and an end frame were handed to the CLI and the CLI answered with its own end frame.
\<close>

theorem committed_means_complete:
  assumes "unat sz + MAX_PAYLOAD < 2 ^ 64" and "inputs_bounded es"
  shows "let (a, fx) = accept_run from sz es new_accepter in
    prefix (cli_data fx) (sent_by_peer es) \<and> length (cli_data fx) \<le> unat sz \<and>
    (WireToPeer WCommitted \<in> set fx \<longrightarrow>
       length (cli_data fx) = unat sz \<and> ToCli End \<in> set fx \<and> CliAnswers (Some End) \<in> set es)"
proof -
  obtain a fx where run: "accept_run from sz es new_accepter = (a, fx)" by force
  have "accept_sofar sz es (a, fx)" using accept_run_sofar [OF assms, of "from"] by (simp add: run)
  then show ?thesis by (simp add: run accept_sofar_def)
qed

text \<open>
  Only a vetted offer is ever listed. If an incoming offer is queued, its sender is a current
  member with fewer than twenty offers waiting, the name passed the file name check of this
  platform, and the entry made carries that sender, name and size, is not answerable yet, and
  expires within a day; in every other case nothing is listed.
\<close>

theorem queued_offers_are_vetted:
  "case receive_offer parse platform cs peer c first now r of
     (QueuedOffer i, r', fx) \<Rightarrow>
       (\<exists>f sender_id name sz ttl. first = FirstFrame f \<and> control parse f = Some (WOffer sender_id name sz ttl) \<and>
          files_is_member peer r \<and> waiting r peer < MAX_PENDING_PER_PEER \<and> check name platform = Inr () \<and>
          map_of (f_incoming r) i = None \<and>
          f_incoming r' = f_incoming r @ [(i, \<lparr>i_peer = peer, i_name = name, i_size = sz, i_received_at = now,
            i_expires_at = now + clamp_ttl ttl, i_conn = c, i_link = False\<rparr>)] \<and>
          secs 1 \<le> clamp_ttl ttl \<and> clamp_ttl ttl \<le> secs MAX_FILE_TTL)
   | (out, r', fx) \<Rightarrow> r' = r"
proof -
  have clamp: "secs 1 \<le> clamp_ttl ttl \<and> clamp_ttl ttl \<le> secs MAX_FILE_TTL" for ttl
    by (auto simp: clamp_ttl_def secs_def MAX_FILE_TTL_def)
  have ok: "files_is_member peer r \<and> waiting r peer < MAX_PENDING_PER_PEER \<and> map_of (f_incoming r) i = None \<and>
      f_incoming r' = f_incoming r @ [(i, \<lparr>i_peer = peer, i_name = name, i_size = sz, i_received_at = now,
        i_expires_at = now + ttl, i_conn = c, i_link = False\<rparr>)]"
    if "admit cs peer name sz ttl c now r = (Inr i, r')" for name sz ttl i r'
  proof -
    have n: "new_id cs r = Some i" and r': "r' = r\<lparr>f_incoming := AList.update i \<lparr>i_peer = peer, i_name = name,
        i_size = sz, i_received_at = now, i_expires_at = now + ttl, i_conn = c, i_link = False\<rparr> (f_incoming r)\<rparr>"
      and "files_is_member peer r" "waiting r peer < MAX_PENDING_PER_PEER"
      using that by (auto simp: admit_def files_is_member_def waiting_def split: if_splits option.splits)
    moreover have fresh: "i \<notin> akeys (f_incoming r)" using new_id_fresh [OF n] by (rule conjunct1)
    moreover have "map_of (f_incoming r) i = None" by (rule map_of_absent [OF fresh])
    ultimately show ?thesis by (simp add: update_fresh [OF fresh])
  qed
  have err: "r' = r" if "admit cs peer name sz ttl c now r = (Inl e, r')" for name sz ttl e r'
    using that by (auto simp: admit_def split: if_splits option.splits)
  show ?thesis
    unfolding receive_offer_def using clamp
    by (auto split: first_input.split option.split wire.split sum.split prod.split dest: ok err)
qed

section \<open>Witnesses\<close>

text \<open>A toy parser of control frames: the first byte is the message.\<close>

definition demo_parse :: wire_parse where
  "demo_parse j = (case j of [] \<Rightarrow> Some WQueued | b # _ \<Rightarrow>
     if b = 1 then Some WAccept else if b = 2 then Some WCommitted
     else Some (WOffer (lit ''x'') (lit ''a.txt'') 3 60))"

definition demo_send :: "send_event list" where
  "demo_send =
     [PeerSays (Some (Control [1])) None [], CliSays (Some (Data [7, 8, 9])) True [],
      CliSays (Some (Hash (replicate 32 0))) True [], CliSays (Some End) True [],
      PeerSays (Some (Control [2])) None []]"


theorem committed_means_complete_witness:
  "let (a, fx) = accept_run (lit ''pc'') 2
       [SenderSays (Some (Data [7, 8])) True [], SenderSays (Some End) True [], CliAnswers (Some End)] new_accepter
   in WireToPeer WCommitted \<in> set fx \<and> length (cli_data fx) = 2"
proof -
  let ?es = "[SenderSays (Some (Data [7, 8])) True [], SenderSays (Some End) True [], CliAnswers (Some End)]"
  have "inputs_bounded ?es" by (simp add: inputs_bounded_def data_of_def MAX_PAYLOAD_def)
  moreover have "unat (2 :: u64) + MAX_PAYLOAD < 2 ^ 64" by (simp add: MAX_PAYLOAD_def)
  moreover have "WireToPeer WCommitted \<in> set (snd (accept_run (lit ''pc'') 2 ?es new_accepter))"
    by (simp add: accept_step_def new_accepter_def accept_receiving_def accept_committing_def Let_def)
  ultimately show ?thesis
    using committed_means_complete [of 2 ?es "lit ''pc''"] by (auto split: prod.splits)
qed

end
