(* ===== verification/Ipc.thy ===== *)
theory Ipc
  imports Admin Mesh File_Transfer
begin

text \<open>
  \<open>daemon/src/ipc.rs\<close> and the responses of \<open>proto/src/lib.rs\<close>: the commands of the local socket.
  A connection carries one request line; the caller is what the kernel says of the connection.
  Exchanges with other nodes, the accounts of the machine, the clocks and random draws are the
  record \<open>ipc_env\<close>. Round-trip times are kept in nanoseconds; the text of an error is kept as the
  error's structure.
\<close>

section \<open>Responses\<close>

datatype ipc_error =
    IpcProbe probe_error
  | IpcName name_error
  | IpcState node_error
  | IpcCall call_error
  | IpcKick kick_error
  | IpcFind find_error
  | IpcResolve resolve_error
  | IpcReject take_error
  | OnlyCoordinatorInvites
  | OnlyCoordinatorKicks
  | NotInAnyNetwork
  | StoredCoordinatorInvalid
  | NotASingleRequest

record status =
  st_endpoint_id :: rstr
  st_name :: rstr
  st_named :: bool
  st_v6 :: rstr
  st_v4 :: rstr
  st_network :: "rstr option"
  st_coordinator :: bool
  st_peers :: "peer_status list"
  st_zone :: rstr
  st_traffic :: stats
  st_conflicts :: "conflict list"
  st_dns :: dns_registration

datatype response =
    RespOk rstr
  | RespStatus status
  | RespPong rstr rstr "nat option"
  | RespInvite rstr int
  | RespJoined "rstr option" "rstr option" rstr
  | RespLeft "rstr option" bool
  | RespOperatorSet rstr u32
  | RespHostnameSet rstr rstr
  | RespKicked rstr rstr bool
  | RespFiles "incoming_offer list" "outgoing_offer list"
  | RespFileRejected rstr rstr rstr
  | RespUnauthorized rstr
  | RespError ipc_error

section \<open>The surroundings of a request\<close>

record ipc_env =
  ie_env :: env
  ie_accounts :: accounts
  ie_calls :: "nat \<Rightarrow> call"
  ie_in_time :: bool
  ie_dialed :: "conn option"
  ie_rtt :: "conn \<Rightarrow> nat option"
  ie_max_datagram :: "conn \<Rightarrow> nat option"
  ie_fresh_network :: rstr
  ie_fresh_token :: token
  ie_instant :: instant
  ie_stats :: stats

abbreviation ie_call :: "ipc_env \<Rightarrow> call" where
  "ie_call ie \<equiv> ie_calls ie 0"

type_synonym ipc_outcome = "response \<times> node \<times> push list"

section \<open>Commands\<close>

definition zone :: "node \<Rightarrow> rstr" where
  "zone n =
     (case network_name (n_membership n) of
        Some w \<Rightarrow> network_label w @ [46] @ ZONE | None \<Rightarrow> ZONE)"

definition is_transfer :: "request \<Rightarrow> bool" where
  "is_transfer req = (case req of FileSend _ _ _ _ \<Rightarrow> True | FileAccept _ \<Rightarrow> True | _ \<Rightarrow> False)"

definition peer_status_of :: "externs \<Rightarrow> node \<Rightarrow> peer_row \<Rightarrow> peer_status" where
  "peer_status_of x n row =
     (let i = id_show x (row_id row); host = map_of (hostnames n) i
      in \<lparr>ps_id = i, ps_name = display i host, ps_named = (host \<noteq> None),
          ps_v6 = show_ipv6 (row_v6 row), ps_v4 = show_ipv4 (row_v4 row), ps_linked = linked row,
          ps_datagram_max = map_option (\<lambda>max. unat (of_nat max :: u32)) (datagram_max row)\<rparr>)"

definition ipc_status :: "externs \<Rightarrow> ipc_env \<Rightarrow> node \<Rightarrow> status" where
  "ipc_status x ie n =
     (let own_hostname = state_hostname x n
      in \<lparr>st_endpoint_id = own_str x n, st_name = display (own_str x n) own_hostname,
          st_named = (own_hostname \<noteq> None),
          st_v6 = show_ipv6 (snd (addrs_of x (n_own n))), st_v4 = show_ipv4 (fst (addrs_of x (n_own n))),
          st_network = network_name (n_membership n), st_coordinator = state_is_coordinator x n,
          st_peers = map (peer_status_of x n) (snapshot (ie_max_datagram ie) (n_peers n)),
          st_zone = zone n, st_traffic = ie_stats ie, st_conflicts = n_conflicts n, st_dns = n_dns n\<rparr>)"

definition create_network :: "externs \<Rightarrow> ipc_env \<Rightarrow> rstr \<Rightarrow> rstr option \<Rightarrow> node \<Rightarrow> (ipc_error, unit) result \<times> node" where
  "create_network x ie name host n =
     (case validate_network name of
        Inl err \<Rightarrow> (Inl (IpcName err), n)
      | Inr name \<Rightarrow>
          (case (case host of
               Some requested \<Rightarrow>
                 (case validate requested (own_str x n) of Inl err \<Rightarrow> Inl err | Inr h \<Rightarrow> Inr (Some h))
             | None \<Rightarrow> Inr None) of
             Inl err \<Rightarrow> (Inl (IpcName err), n)
           | Inr host \<Rightarrow>
               (case state_create_network x (ie_env ie) (ie_fresh_network ie) name host n of
                  (Inl err, n, _) \<Rightarrow> (Inl (IpcState err), n)
                | (Inr _, n, _) \<Rightarrow> (Inr (), n))))"

text \<open>
  A member asks the coordinator and adopts the answer; when it cannot be reached, or refuses, the
  name is recorded locally all the same.
\<close>

definition adopt :: "externs \<Rightarrow> ipc_env \<Rightarrow> rstr \<Rightarrow> node \<Rightarrow> (ipc_error, rstr) result \<times> node \<times> push list" where
  "adopt x ie name n =
     (case state_adopt_hostname x (ie_env ie) name n of
        (Inl err, n, _) \<Rightarrow> (Inl (IpcState err), n, [])
      | (Inr _, n, _) \<Rightarrow> (Inr name, n, []))"

definition set_hostname ::
    "externs \<Rightarrow> ipc_env \<Rightarrow> rstr \<Rightarrow> bool \<Rightarrow> node \<Rightarrow> (ipc_error, rstr) result \<times> node \<times> push list" where
  "set_hostname x ie requested force n =
     (case validate requested (own_str x n) of
        Inl err \<Rightarrow> (Inl (IpcName err), n, [])
      | Inr wanted \<Rightarrow>
          if state_is_coordinator x n
          then (case state_claim_hostname (ie_env ie) (own_str x n) wanted force n of
              (Inl err, n, _) \<Rightarrow> (Inl (IpcState err), n, [])
            | (Inr (Inl err), n, _) \<Rightarrow> (Inl (IpcName err), n, [])
            | (Inr (Inr assigned), n, _) \<Rightarrow>
                (Inr assigned, n,
                 broadcast_roster x (own_str x n) (network_name (n_membership n)) (roster (n_membership n)) n))
          else case coordinator_id (n_membership n) of
            None \<Rightarrow> (Inl NotInAnyNetwork, n, [])
          | Some c \<Rightarrow>
              (case id_parse x c of
                 None \<Rightarrow> (Inl StoredCoordinatorInvalid, n, [])
               | Some coordinator \<Rightarrow>
                   (case call_claim_hostname (ie_call ie) coordinator wanted of
                      Inr assigned \<Rightarrow> adopt x ie assigned n
                    | Inl _ \<Rightarrow> adopt x ie wanted n)))"

definition ipc_kick :: "externs \<Rightarrow> ipc_env \<Rightarrow> rstr \<Rightarrow> node \<Rightarrow> ipc_outcome" where
  "ipc_kick x ie peer n =
     (if \<not> state_is_coordinator x n then (RespError OnlyCoordinatorKicks, n, [])
      else case state_kick x (ie_env ie) peer n of
          (Inl err, n, _) \<Rightarrow> (RespError (IpcState err), n, [])
        | (Inr (Inl err), n, _) \<Rightarrow> (RespError (IpcKick err), n, [])
        | (Inr (Inr p), n, _) \<Rightarrow>
            let notified = (case id_parse x (mid p) of
                Some i \<Rightarrow> is_ok (notify_kicked (ie_call ie) (ie_in_time ie) i) | None \<Rightarrow> False)
            in (RespKicked (display (mid p) (hostname p)) (mid p) notified, n,
                broadcast_roster x (mid p) (network_name (n_membership n)) (roster (n_membership n)) n))"

definition ipc_leave :: "externs \<Rightarrow> ipc_env \<Rightarrow> node \<Rightarrow> ipc_outcome" where
  "ipc_leave x ie n =
     (let notified =
        (case coordinator_id (n_membership n) of
           Some c \<Rightarrow>
             if c \<noteq> own_str x n
             then (case id_parse x c of Some i \<Rightarrow> is_ok (notify_leave (ie_call ie) i) | None \<Rightarrow> False)
             else False
         | None \<Rightarrow> False)
      in case state_leave x (ie_env ie) n of
           (Inr name, n, _) \<Rightarrow> (RespLeft name notified, n, [])
         | (Inl err, n, _) \<Rightarrow> (RespError (IpcState err), n, []))"

definition ipc_join :: "externs \<Rightarrow> ipc_env \<Rightarrow> rstr \<Rightarrow> rstr option \<Rightarrow> node \<Rightarrow> ipc_outcome" where
  "ipc_join x ie code host n =
     (case join_network x (ie_calls ie) code host of
        Inl err \<Rightarrow> (RespError (IpcCall err), n, [])
      | Inr adm \<Rightarrow>
          (case state_set_joined x (ie_env ie) (id_show x (adm_coordinator adm)) (adm_network adm) (adm_members adm) n of
             (Inr _, n, _) \<Rightarrow> (RespJoined (adm_network adm) (adm_hostname adm) (zone n), n, [])
           | (Inl err, n, _) \<Rightarrow> (RespError (IpcState err), n, [])))"

definition ipc_invite :: "externs \<Rightarrow> ipc_env \<Rightarrow> nat \<Rightarrow> node \<Rightarrow> ipc_outcome" where
  "ipc_invite x ie ttl_secs n =
     (if \<not> state_is_coordinator x n then (RespError OnlyCoordinatorInvites, n, [])
      else let ttl = max 1 (min MAX_INVITE_TTL ttl_secs)
           in case state_generate_invite x (ie_env ie) (ie_fresh_token ie) (int ttl) n of
                (Inr (code, expires_at), n, _) \<Rightarrow> (RespInvite code expires_at, n, [])
              | (Inl err, n, _) \<Rightarrow> (RespError (IpcState err), n, []))"

definition ipc_set_operator :: "ipc_env \<Rightarrow> rstr \<Rightarrow> node \<Rightarrow> ipc_outcome" where
  "ipc_set_operator ie user n =
     (case resolve_user (ie_accounts ie) user of
        Inl err \<Rightarrow> (RespError (IpcResolve err), n, [])
      | Inr uid \<Rightarrow>
          (case state_set_operator (ie_env ie) user uid n of
             (Inr _, n, _) \<Rightarrow> (RespOperatorSet user uid, n, [])
           | (Inl err, n, _) \<Rightarrow> (RespError (IpcState err), n, [])))"

definition ipc_reject :: "externs \<Rightarrow> ipc_env \<Rightarrow> rstr \<Rightarrow> node \<Rightarrow> ipc_outcome" where
  "ipc_reject x ie i n =
     (case reject_offer i (ie_instant ie) (n_files n) of
        (Inl err, r, _) \<Rightarrow> (RespError (IpcReject err), n\<lparr>n_files := r\<rparr>, [])
      | (Inr offer, r, _) \<Rightarrow>
          (RespFileRejected i (i_name offer) (files_display x (i_peer offer) r), n\<lparr>n_files := r\<rparr>, []))"

definition ipc_dispatch :: "externs \<Rightarrow> ipc_env \<Rightarrow> request \<Rightarrow> node \<Rightarrow> ipc_outcome" where
  "ipc_dispatch x ie req n =
     (case req of
        Ping peer \<Rightarrow>
          (case probe x (ie_dialed ie) (ie_rtt ie) peer n of
             (Inr (v4, v6, rtt), _) \<Rightarrow> (RespPong (show_ipv6 v6) (show_ipv4 v4) rtt, n, [])
           | (Inl err, _) \<Rightarrow> (RespError (IpcProbe err), n, []))
      | Status \<Rightarrow> (RespStatus (ipc_status x ie n), n, [])
      | CreateNetwork name host \<Rightarrow>
          (case create_network x ie name host n of
             (Inr _, n) \<Rightarrow> (RespOk (lit ''network created''), n, [])
           | (Inl err, n) \<Rightarrow> (RespError err, n, []))
      | Invite ttl_secs \<Rightarrow> ipc_invite x ie ttl_secs n
      | SetHostname host force \<Rightarrow>
          (case set_hostname x ie host force n of
             (Inr assigned, n, pushes) \<Rightarrow> (RespHostnameSet assigned host, n, pushes)
           | (Inl err, n, pushes) \<Rightarrow> (RespError err, n, pushes))
      | KickPeer peer \<Rightarrow> ipc_kick x ie peer n
      | FileList \<Rightarrow>
          (case files_list x (ie_instant ie) (n_files n) of
             ((inc, out), r) \<Rightarrow> (RespFiles inc out, n\<lparr>n_files := r\<rparr>, []))
      | FileReject i \<Rightarrow> ipc_reject x ie i n
      | FileSend _ _ _ _ \<Rightarrow> (RespError NotASingleRequest, n, [])
      | FileAccept _ \<Rightarrow> (RespError NotASingleRequest, n, [])
      | SetOperator user \<Rightarrow> ipc_set_operator ie user n
      | Leave \<Rightarrow> ipc_leave x ie n
      | Join code host \<Rightarrow> ipc_join x ie code host n)"

section \<open>One connection\<close>

text \<open>A transfer goes on over the connection: which relay takes it, or the refusal.\<close>

datatype transfer_start = TransferRefused ipc_error | StartSend eid rstr nat nat | StartAccept rstr

definition transfer :: "externs \<Rightarrow> request \<Rightarrow> node \<Rightarrow> transfer_start" where
  "transfer x req n =
     (case req of
        FileSend name sz target ttl_secs \<Rightarrow>
          (case find_peer x target n of
             Inr (peer, _) \<Rightarrow> StartSend peer name sz ttl_secs
           | Inl err \<Rightarrow> TransferRefused (IpcFind err))
      | FileAccept i \<Rightarrow> StartAccept i
      | _ \<Rightarrow> TransferRefused NotASingleRequest)"

datatype ipc_result = BadRequest | SpokeTooEarly | Answer response | Transfers transfer_start

definition ipc_handle ::
    "externs \<Rightarrow> (rstr \<Rightarrow> request option) \<Rightarrow> ipc_env \<Rightarrow> credentials \<Rightarrow> rstr \<Rightarrow> u8 list \<Rightarrow> node \<Rightarrow>
     ipc_result \<times> node \<times> push list" where
  "ipc_handle x json ie creds line buffered n =
     (case json (trim line) of
        None \<Rightarrow> (BadRequest, n, [])
      | Some req \<Rightarrow>
          let caller = caller_of creds in
          (case authorize (ie_accounts ie) req caller (state_operator n) of
             Inr _ \<Rightarrow>
               if is_transfer req
               then if buffered \<noteq> [] then (SpokeTooEarly, n, [])
                    else (Transfers (transfer x req n), n, [])
               else (case ipc_dispatch x ie req n of (resp, n, pushes) \<Rightarrow> (Answer resp, n, pushes))
           | Inl message \<Rightarrow> (Answer (RespUnauthorized message), n, [])))"

lemmas ipc_evals [evals] = zone_def is_transfer_def peer_status_of_def ipc_status_def create_network_def
  adopt_def set_hostname_def ipc_kick_def ipc_leave_def ipc_join_def ipc_invite_def ipc_set_operator_def
  ipc_reject_def ipc_dispatch_def transfer_def ipc_handle_def

section \<open>Lemmas\<close>

lemma read_only_dispatch:
  assumes "is_read_only req"
  shows "\<exists>resp. ipc_dispatch x ie req n = (resp, n, [])"
  using assms by (cases req) (auto simp: is_read_only_iff ipc_dispatch_def split: prod.split sum.split)

lemma read_only_not_transfer: "is_read_only req \<Longrightarrow> \<not> is_transfer req"
  by (auto simp: is_read_only_iff is_transfer_def)

lemma refused_handle:
  "json (trim line) = Some req \<Longrightarrow> authorize (ie_accounts ie) req (caller_of creds) (state_operator n) = Inl msg \<Longrightarrow>
   ipc_handle x json ie creds line buffered n = (Answer (RespUnauthorized msg), n, [])"
  by (simp add: ipc_handle_def)

lemma read_only_handle:
  "json (trim line) = Some req \<Longrightarrow> is_read_only req \<Longrightarrow>
   \<exists>resp. ipc_handle x json ie creds line buffered n = (Answer resp, n, [])"
  using read_only_dispatch [of req x ie n] read_only_not_transfer [of req] by (auto simp: ipc_handle_def)

section \<open>Properties\<close>

text \<open>
  C6: Only those who may can make the daemon do anything. If handling a connection changed the
  node, sent anything to another member, or handed the connection to a file transfer, then
  the line was a command other than \<open>status\<close> and \<open>ping\<close>, and the kernel identified the
  caller as root, as an elevated account, or as the operator stored for its own platform.
\<close>

theorem changes_need_authority:
  assumes "ipc_handle x json ie creds line buffered n = (res, n', pushes)"
    and "n' \<noteq> n \<or> pushes \<noteq> [] \<or> (\<exists>t. res = Transfers t)"
  shows "\<exists>req. json (trim line) = Some req \<and> req \<noteq> Status \<and> (\<forall>p. req \<noteq> Ping p) \<and>
    (case creds of
       UnixPeer (Some uid) \<Rightarrow> uid = 0 \<or> operator_uid (n_settings n) = Some uid
     | WindowsPeer (Some (s, _, e)) \<Rightarrow> e \<or> operator_sid (n_settings n) = Some s
     | _ \<Rightarrow> False)"
proof (cases "json (trim line)")
  case None
  then show ?thesis using assms by (simp add: ipc_handle_def)
next
  case (Some req)
  have mut: "\<not> is_read_only req" using assms read_only_handle [of json line req x ie creds buffered n] Some by auto
  have "\<exists>u. authorize (ie_accounts ie) req (caller_of creds) (state_operator n) = Inr u"
    using assms refused_handle [of json line req ie creds n _ x buffered] Some
    by (cases "authorize (ie_accounts ie) req (caller_of creds) (state_operator n)") auto
  then have "is_superuser (caller_of creds) \<or> is_operator (state_operator n) (caller_of creds)"
    using mut by (simp add: authorize_Inr)
  then have "case creds of
       UnixPeer (Some uid) \<Rightarrow> uid = 0 \<or> operator_uid (n_settings n) = Some uid
     | WindowsPeer (Some (s, _, e)) \<Rightarrow> e \<or> operator_sid (n_settings n) = Some s
     | _ \<Rightarrow> False"
    by (auto simp: caller_of_def is_superuser_def is_operator_def state_operator_def operator_of_def
        split: credentials.splits option.splits)
  with Some mut show ?thesis by (auto simp: is_read_only_iff)
qed

definition demo_ipc :: ipc_env where
  "demo_ipc =
     \<lparr>ie_env = demo_env, ie_accounts = witness_accounts, ie_calls = \<lambda>_ _ _. Inl 1, ie_in_time = True,
      ie_dialed = None, ie_rtt = \<lambda>_. None, ie_max_datagram = \<lambda>_. None, ie_fresh_network = lit ''n1'',
      ie_fresh_token = replicate 16 7, ie_instant = 0, ie_stats = no_stats\<rparr>"

definition demo_line :: "rstr \<Rightarrow> request option" where
  "demo_line l = (if l = lit ''op'' then Some (SetOperator (lit ''1000'')) else None)"

theorem changes_need_authority_witness:
  "n_settings (fst (snd (ipc_handle plain_externs demo_line demo_ipc (UnixPeer (Some 0)) (lit '' op'') []
       (new_node (demo_key 1) default_membership default_settings)))) \<noteq> default_settings \<and>
   (\<exists>req. demo_line (trim (lit '' op'')) = Some req \<and> req \<noteq> Status)"
proof -
  let ?n = "new_node (demo_key 1) default_membership default_settings"
  have t: "trim (lit '' op'') = lit ''op''" by (simp add: evals)
  have "resolve_user witness_accounts (lit ''1000'') = Inr 1000" by (simp add: evals witness_accounts_def)
  then have h: "ipc_handle plain_externs demo_line demo_ipc (UnixPeer (Some 0)) (lit '' op'') [] ?n =
      (Answer (RespOperatorSet (lit ''1000'') 1000),
       ?n\<lparr>n_settings := set_operator (lit ''1000'') 1000 default_settings\<rparr>, [])"
    by (simp add: ipc_handle_def t demo_line_def caller_of_def authorize_def is_superuser_def is_transfer_def
        ipc_dispatch_def ipc_set_operator_def demo_ipc_def state_set_operator_def demo_env_def new_node_def)
  have "set_operator (lit ''1000'') 1000 default_settings \<noteq> default_settings"
    by (simp add: set_operator_def default_settings_def)
  moreover from this have "?n\<lparr>n_settings := set_operator (lit ''1000'') 1000 default_settings\<rparr> \<noteq> ?n"
    by (simp add: new_node_def)
  ultimately show ?thesis using changes_need_authority [OF h] h by auto
qed

end
