(* ===== verification/Joining.thy ===== *)
theory Joining
  imports Ipc
begin

text \<open>
  Two nodes together: what an invite minted on one, carried over by hand, does on both, through
  the commands of \<open>ipc.rs\<close>, the calls of \<open>connect.rs\<close> and the handler of \<open>admin.rs\<close>; and how a
  roster that is consistent at the coordinator arrives at a member.
\<close>

section \<open>A consistent roster is taken over as it is\<close>

definition consistent :: "(rstr \<rightharpoonup> rstr) \<Rightarrow> member list \<Rightarrow> bool" where
  "consistent b ps \<longleftrightarrow> (\<forall>p \<in> set ps. \<forall>h. hostname p = Some h \<longrightarrow> b h = Some (mid p))"

lemma apply_members_consistent:
  assumes "consistent b ps" and "bindings m \<subseteq>\<^sub>m b" and "distinct (map mid (members m @ ps))"
  shows "\<exists>b'. b' \<subseteq>\<^sub>m b \<and> fold apply_member ps (cs, m) = (cs, m\<lparr>members := members m @ ps, bindings := b'\<rparr>)"
  using assms
proof (induction ps arbitrary: m)
  case Nil
  then show ?case by (intro exI [of _ "bindings m"]) simp
next
  case (Cons p ps)
  have new: "\<not> is_member m (mid p)" using Cons.prems(3) by (auto simp: is_member_iff)
  show ?case
  proof (cases "hostname p")
    case None
    let ?m = "m\<lparr>members := members m @ [p]\<rparr>"
    have "apply_member p (cs, m) = (cs, ?m)" using None new by (simp add: apply_member_def push_member_def)
    moreover have "\<exists>b'. b' \<subseteq>\<^sub>m b \<and> fold apply_member ps (cs, ?m) =
        (cs, ?m\<lparr>members := members ?m @ ps, bindings := b'\<rparr>)"
      by (rule Cons.IH) (use Cons.prems in \<open>simp_all add: consistent_def\<close>)
    ultimately show ?thesis by simp
  next
    case (Some h)
    let ?m = "m\<lparr>bindings := (bindings m)(h \<mapsto> mid p), members := members m @ [p]\<rparr>"
    have b: "b h = Some (mid p)" using Cons.prems(1) Some by (simp add: consistent_def)
    then have "bindings m h = None \<or> bindings m h = Some (mid p)"
      using Cons.prems(2) by (metis domIff map_le_def)
    moreover have "\<not> is_member (m\<lparr>bindings := (bindings m)(h \<mapsto> mid p)\<rparr>) (mid p)"
      using new by (simp add: is_member_iff)
    ultimately have "apply_member p (cs, m) = (cs, ?m)"
      using Some by (auto simp: apply_member_def push_member_def)
    moreover have "\<exists>b'. b' \<subseteq>\<^sub>m b \<and> fold apply_member ps (cs, ?m) =
        (cs, ?m\<lparr>members := members ?m @ ps, bindings := b'\<rparr>)"
    proof (rule Cons.IH)
      show "bindings ?m \<subseteq>\<^sub>m b" using Cons.prems(2) b by (simp add: map_le_def)
    qed (use Cons.prems in \<open>simp_all add: consistent_def\<close>)
    ultimately show ?thesis by simp
  qed
qed

lemma push_member_present: "is_member m (mid p) \<Longrightarrow> push_member p m = m"
  by (simp add: push_member_def)

text \<open>What becomes of a list that is taken over: who takes it over stays on it in any case.\<close>

definition listing :: "rstr \<Rightarrow> member list \<Rightarrow> member list" where
  "listing own ps = (if own \<in> mid ` set ps then ps else ps @ [new_member own])"

lemma apply_roster_listing:
  assumes "consistent b ps" and "bindings m \<subseteq>\<^sub>m b" and "members m = []" and "distinct (map mid ps)"
    and "coordinator_id m = Some c" and "c \<in> mid ` set ps"
  shows "\<exists>b'. b' \<subseteq>\<^sub>m b \<and> apply_roster own ps m = ([], m\<lparr>members := listing own ps, bindings := b'\<rparr>)"
proof -
  obtain b' where b': "b' \<subseteq>\<^sub>m b" "fold apply_member ps ([], m) = ([], m\<lparr>members := ps, bindings := b'\<rparr>)"
    using apply_members_consistent [OF assms(1,2), of "[]"] assms(3,4) by auto
  let ?m = "m\<lparr>members := ps, bindings := b'\<rparr>"
  have own: "push_member (new_member own) ?m = m\<lparr>members := listing own ps, bindings := b'\<rparr>"
    by (simp add: push_member_def listing_def is_member_iff new_member_def)
  have "is_member (m\<lparr>members := listing own ps, bindings := b'\<rparr>) c" using assms(6) by (simp add: is_member_iff listing_def)
  then have "push_member (new_member c) (m\<lparr>members := listing own ps, bindings := b'\<rparr>) =
      m\<lparr>members := listing own ps, bindings := b'\<rparr>"
    by (simp add: push_member_present)
  then show ?thesis using b' own assms(5) by (auto simp: apply_roster_def List.map_filter_def)
qed

lemma apply_roster_consistent:
  assumes "consistent b ps" and "bindings m \<subseteq>\<^sub>m b" and "members m = []" and "distinct (map mid ps)"
    and "own \<in> mid ` set ps" and "coordinator_id m = Some c" and "c \<in> mid ` set ps"
  shows "\<exists>b'. b' \<subseteq>\<^sub>m b \<and> apply_roster own ps m = ([], m\<lparr>members := ps, bindings := b'\<rparr>)"
  using apply_roster_listing [OF assms(1-4,6,7), of own] assms(5) by (simp add: listing_def)

lemma roster_consistent_own: "roster_inv m \<Longrightarrow> consistent (bindings m) (roster m)"
  by (auto simp: consistent_def bound_hostname)

lemma distinct_roster: "roster_inv m \<Longrightarrow> distinct (map mid (roster m))"
proof -
  assume "roster_inv m"
  then have "distinct (map mid (members m))" by (simp add: roster_inv_def)
  moreover have "mset (map mid (roster m)) = mset (map mid (members m))" by (simp add: roster_def)
  ultimately show ?thesis by (metis mset_eq_imp_distinct_iff)
qed

lemma member_of_roster:
  assumes "roster_inv m" and "members m' = roster m"
  shows "member_of m' i = member_of m i"
proof (cases "member_of m i")
  case None
  then have "\<forall>p \<in> set (members m'). mid p \<noteq> i" using assms(2) by (simp add: member_of_def find_None_iff')
  then have "member_of m' i = None" by (simp add: member_of_def find_None_iff')
  with None show ?thesis by simp
next
  case (Some p)
  then have p: "p \<in> set (members m)" "mid p = i" using member_of_Some by blast+
  have "distinct (map mid (members m'))" using distinct_roster [OF assms(1)] assms(2) by simp
  from member_of_mem [OF this, of p] p assms(2) Some show ?thesis by simp
qed

text \<open>A member that joins with, or is pushed, a consistent roster that lists it shows the same entries.\<close>

lemma set_joined_takes_over:
  assumes "roster_inv m" and "is_member m own" and "is_member m c"
  shows "member_of (set_joined c own name (roster m) m0) i = member_of m i"
    and "coordinator_id (set_joined c own name (roster m) m0) = Some c"
    and "network_name (set_joined c own name (roster m) m0) = name"
proof -
  let ?base = "m0\<lparr>coordinator_id := Some c, network_name := name, members := [], bindings := Map.empty,
      network_id := None, pending_invites := []\<rparr>"
  obtain b' where "apply_roster own (roster m) ?base = ([], ?base\<lparr>members := roster m, bindings := b'\<rparr>)"
    using apply_roster_consistent [OF roster_consistent_own [OF assms(1)], of ?base own c]
      distinct_roster [OF assms(1)] assms(2,3) by (auto simp: is_member_iff)
  then have "set_joined c own name (roster m) m0 = ?base\<lparr>members := roster m, bindings := b'\<rparr>"
    by (simp add: set_joined_def)
  then show "member_of (set_joined c own name (roster m) m0) i = member_of m i"
    "coordinator_id (set_joined c own name (roster m) m0) = Some c"
    "network_name (set_joined c own name (roster m) m0) = name"
    using member_of_roster [OF assms(1)] by simp_all
qed

lemma set_roster_takes_over:
  assumes "roster_inv m" and "is_member m own" and "is_member m c" and "coordinator_id m0 = Some c"
    and "bindings m0 \<subseteq>\<^sub>m bindings m"
  shows "fst (set_roster own name (roster m) m0) = []"
    and "member_of (snd (set_roster own name (roster m) m0)) i = member_of m i"
proof -
  let ?base = "(if name \<noteq> None then m0\<lparr>network_name := name\<rparr> else m0)\<lparr>members := []\<rparr>"
  have "coordinator_id ?base = Some c" "bindings ?base \<subseteq>\<^sub>m bindings m" "members ?base = []"
    using assms(4,5) by simp_all
  then obtain b' where "apply_roster own (roster m) ?base = ([], ?base\<lparr>members := roster m, bindings := b'\<rparr>)"
    using apply_roster_consistent [OF roster_consistent_own [OF assms(1)], of ?base own c]
      distinct_roster [OF assms(1)] assms(2,3) by (auto simp: is_member_iff)
  then show "fst (set_roster own name (roster m) m0) = []"
    "member_of (snd (set_roster own name (roster m) m0)) i = member_of m i"
    using member_of_roster [OF assms(1)] by (simp_all add: set_roster_def)
qed

section \<open>An invite from end to end\<close>

lemma invite_decodes:
  assumes "\<And>bs. b58_decode x (b58_encode x bs) = Some bs" and "id_from_bytes x (as_bytes own) = Some own"
    and "length (as_bytes own) = 32" and "length t = 16"
  shows "decode_invite x (b58_encode x (as_bytes own @ t)) = Inr (own, t)"
  using assms by (simp add: decode_invite_def)

lemma generated_redeems:
  assumes "keys_distinct (pending_invites m)" and "network_id m \<noteq> None" and "later < now + ttl"
  shows "fst (redeem_invite t r later (snd (generate_invite x t own ttl now m)))"
    and "is_member (snd (redeem_invite t r later (snd (generate_invite x t own ttl now m)))) r"
  using redeem_outstanding [OF generated_outstanding [OF assms(1), of t now ttl x own], of r later] assms(2,3)
  by simp_all

lemma join_attempts_answered:
  assumes "k < attempts" and "\<And>j. j < k \<Longrightarrow> \<exists>err. exchange (a + j) = Inl err" and "exchange (a + k) = Inr resp"
  shows "join_attempts exchange a attempts = Inr resp"
  using assms
proof (induction attempts arbitrary: a k)
  case (Suc left)
  show ?case
  proof (cases k)
    case 0
    with Suc.prems show ?thesis by simp
  next
    case k: (Suc k')
    obtain err where "exchange a = Inl err" using Suc.prems(2) [of 0] k by auto
    moreover have "join_attempts exchange (Suc a) left = Inr resp"
    proof (rule Suc.IH)
      show "k' < left" using Suc.prems(1) k by simp
      show "\<exists>err. exchange (Suc a + j) = Inl err" if "j < k'" for j
        using Suc.prems(2) [of "Suc j"] that k by simp
      show "exchange (Suc a + k') = Inr resp" using Suc.prems(3) k by simp
    qed
    moreover have "left \<noteq> 0" using Suc.prems(1) k by simp
    ultimately show ?thesis by simp
  qed
qed simp

text \<open>The coordinator's side: the answer to a fresh invite presented in time.\<close>

lemma fresh_invite_admits:
  assumes "roster_inv (n_membership n)" and "network_id (n_membership n) \<noteq> None"
    and "state_is_coordinator x n" and "hex_decode x (hex_encode x tok) = Some tok" and "length tok = 16"
    and "ipc_dispatch x ie (Invite ttl) n = (RespInvite code expires, n1, ps1)"
    and "tok = ie_fresh_token ie" and "e_saves e" and "e_now e < expires"
    and "room (snd (redeem_invite tok r (e_now e) (n_membership n1)))"
  obtains m' assigned n2 pushes where
    "admin_dispatch x e (AdminJoin (hex_encode x tok) host) r n1 =
       (AdminJoined (network_name m') (roster m') assigned, n2, pushes)"
    "n_membership n2 = m'" "roster_inv m'" "is_member m' r"
    "only_touches r (n_membership n) m'" "code = b58_encode x (as_bytes (n_own n) @ tok)"
    "expires \<le> e_now (ie_env ie) + int MAX_INVITE_TTL"
proof -
  define secs where "secs = int (max 1 (min MAX_INVITE_TTL ttl))"
  define m where "m = snd (generate_invite x tok (n_own n) secs (e_now (ie_env ie)) (n_membership n))"
  have g: "generate_invite x tok (n_own n) secs (e_now (ie_env ie)) (n_membership n) =
      ((b58_encode x (as_bytes (n_own n) @ tok), e_now (ie_env ie) + secs), m)"
    by (simp add: m_def generate_invite_def Let_def)
  have "state_generate_invite x (ie_env ie) tok secs n =
      (if e_saves (ie_env ie) then Inr (b58_encode x (as_bytes (n_own n) @ tok), e_now (ie_env ie) + secs)
       else Inl SaveFailed, n\<lparr>n_membership := m\<rparr>, no_fx)"
    by (simp add: state_generate_invite_def g)
  then have n1: "n1 = n\<lparr>n_membership := m\<rparr>" and code: "code = b58_encode x (as_bytes (n_own n) @ tok)"
    and expires: "expires = e_now (ie_env ie) + secs"
    using assms(3,6,7) by (simp_all add: ipc_dispatch_def ipc_invite_def secs_def Let_def split: if_splits)
  have kd: "keys_distinct (pending_invites (n_membership n))" using assms(1) by (simp add: roster_inv_def)
  have later: "e_now e < e_now (ie_env ie) + secs" using assms(9) expires by simp
  have redeem: "fst (redeem_invite tok r (e_now e) m)" "is_member (snd (redeem_invite tok r (e_now e) m)) r"
    unfolding m_def using generated_redeems [OF kd assms(2) later] by simp_all
  have inv: "roster_inv m" unfolding m_def by (rule generate_invite_inv [OF assms(1)])
  define m' where "m' = snd (admission e tok r host m)"
  have room: "room (snd (redeem_invite tok r (e_now e) m))" using assms(10) n1 by simp
  have m': "roster_inv m'" "is_member m' r" "only_touches r m m'"
    using admission_inv [OF inv room] redeem(2) admission_only_touches [OF inv room]
    by (simp_all add: m'_def admission_member)
  have "only_touches r (n_membership n) m"
    by (simp add: m_def only_touches_def generate_invite_def Let_def prune_expired_def member_of_def)
  then have touch: "only_touches r (n_membership n) m'" using m'(3) by (rule only_touches_trans)
  obtain assigned where adm: "admission e tok r host m = (assigned, m')" by (metis m'_def prod.exhaust_sel)
  obtain n2 fx where n2: "refresh_routes x (e_tool e) (n1\<lparr>n_membership := m'\<rparr>) = (n2, fx)" by force
  have mem: "n_membership n2 = m'" using refresh_frame(2) [of x "e_tool e" "n1\<lparr>n_membership := m'\<rparr>"] n2 by simp
  have "state_is_coordinator x n1"
    using assms(3) by (simp add: n1 state_is_coordinator_def is_coordinator_def m_def generate_invite_def Let_def prune_expired_def)
  then have "admin_dispatch x e (AdminJoin (hex_encode x tok) host) r n1 =
      (AdminJoined (network_name m') (roster m') assigned, n2,
       broadcast_roster x r (network_name m') (roster m') n2)"
    using assms(4,5,8) redeem(1) adm n2 mem
    by (simp add: admin_dispatch_def admin_join_def decode_token_def state_redeem_invite_eq n1 save_then_refresh_def)
  moreover have "expires \<le> e_now (ie_env ie) + int MAX_INVITE_TTL" by (simp add: expires secs_def MAX_INVITE_TTL_def)
  ultimately show ?thesis using that mem m' touch code by blast
qed

section \<open>Properties\<close>

text \<open>
  C8: An invite works from end to end. When a coordinator mints an invite and another node joins
  with the code before it expires, and one of the joiner's three attempts gets the
  coordinator's answer, the join succeeds: afterwards both list the same members with the
  same names, the joiner among them, it knows the coordinator and the network's name, and
  nobody else's entry at the coordinator changed; and no invite lives longer than thirty days,
  whatever the client asked for.
\<close>

theorem join_end_to_end:
  assumes "\<And>bs. b58_decode x (b58_encode x bs) = Some bs" and "\<And>bs. hex_decode x (hex_encode x bs) = Some bs"
    and "id_from_bytes x (as_bytes (n_own nc)) = Some (n_own nc)" and "length (as_bytes (n_own nc)) = 32"
    and "length (ie_fresh_token ie) = 16"
    and "roster_inv (n_membership nc)" and "network_id (n_membership nc) \<noteq> None"
    and "state_is_coordinator x nc" and "is_member (n_membership nc) (own_str x nc)" and "own_str x nj \<noteq> own_str x nc"
    and "ipc_dispatch x ie (Invite ttl) nc = (RespInvite code expires, nc1, ps)"
    and "e_saves e" and "e_now e < expires" and "e_saves (ie_env ij)"
    and "room (snd (redeem_invite (ie_fresh_token ie) (own_str x nj) (e_now e) (n_membership nc1)))"
    and "admin_dispatch x e (AdminJoin (hex_encode x (ie_fresh_token ie)) host) (own_str x nj) nc1 = (resp, nc2, pushes)"
    and "k < 3" and "\<forall>j < k. \<exists>err. ie_calls ij j (n_own nc) (AdminJoin (hex_encode x (ie_fresh_token ie)) host) = Inl err"
    and "ie_calls ij k (n_own nc) (AdminJoin (hex_encode x (ie_fresh_token ie)) host) = Inr resp"
  shows "\<exists>name assigned zone nj'. ipc_dispatch x ij (Join code host) nj = (RespJoined name assigned zone, nj', []) \<and>
    (\<forall>i. member_of (n_membership nj') i = member_of (n_membership nc2) i) \<and>
    is_member (n_membership nj') (own_str x nj) \<and>
    coordinator_id (n_membership nj') = Some (own_str x nc) \<and>
    network_name (n_membership nj') = network_name (n_membership nc2) \<and>
    only_touches (own_str x nj) (n_membership nc) (n_membership nc2) \<and>
    expires \<le> e_now (ie_env ie) + 30 * 24 * 60 * 60"
proof -
  let ?tok = "ie_fresh_token ie" and ?r = "own_str x nj"
  obtain m' assigned n2 pushes' where d: "admin_dispatch x e (AdminJoin (hex_encode x ?tok) host) ?r nc1 =
       (AdminJoined (network_name m') (roster m') assigned, n2, pushes')"
    and m': "n_membership n2 = m'" "roster_inv m'" "is_member m' ?r" "only_touches ?r (n_membership nc) m'"
    and code: "code = b58_encode x (as_bytes (n_own nc) @ ?tok)"
    and expires: "expires \<le> e_now (ie_env ie) + int MAX_INVITE_TTL"
    by (rule fresh_invite_admits [OF assms(6-8,2,5,11) refl assms(12,13,15)])
  have resp: "resp = AdminJoined (network_name m') (roster m') assigned" "nc2 = n2"
    using d assms(16) by simp_all
  have coord: "is_member m' (own_str x nc)"
    using m'(4) assms(9,10) by (simp add: only_touches_def is_member_def)
  have att: "join_attempts (\<lambda>k. ie_calls ij k (n_own nc) (AdminJoin (hex_encode x ?tok) host)) 0 JOIN_ATTEMPTS = Inr resp"
    by (rule join_attempts_answered [of k]) (use assms(17-19) in \<open>auto simp: JOIN_ATTEMPTS_def\<close>)
  have "join_network x (ie_calls ij) code host =
      Inr \<lparr>adm_coordinator = n_own nc, adm_network = network_name m', adm_members = roster m', adm_hostname = assigned\<rparr>"
    using invite_decodes [OF assms(1,3,4,5)] att resp(1) by (simp add: join_network_def code)
  moreover define nj0 where "nj0 = nj\<lparr>n_membership :=
      set_joined (own_str x nc) ?r (network_name m') (roster m') (n_membership nj)\<rparr>"
  obtain nj' fx where nj': "refresh_routes x (e_tool (ie_env ij)) nj0 = (nj', fx)" by force
  have mem: "n_membership nj' = n_membership nj0" using refresh_frame(2) [of x _ nj0] nj' by (metis fst_conv)
  ultimately have "ipc_dispatch x ij (Join code host) nj = (RespJoined (network_name m') assigned (zone nj'), nj', [])"
    using nj' assms(14) by (simp add: ipc_dispatch_def ipc_join_def state_set_joined_def save_then_refresh_def nj0_def)
  moreover note joined = set_joined_takes_over [OF m'(2,3) coord, of "network_name m'" "n_membership nj"]
  moreover have "member_of (n_membership nj') i = member_of (n_membership nc2) i" for i
    using joined(1) [of i] by (simp add: mem nj0_def resp(2) m'(1))
  moreover from this have "is_member (n_membership nj') ?r" using m'(1,3) resp(2) by (simp add: is_member_def)
  ultimately show ?thesis
    using m'(1,4) expires resp(2) by (simp add: mem nj0_def MAX_INVITE_TTL_def)
qed

section \<open>Witnesses\<close>

abbreviation demo_token :: token where "demo_token \<equiv> replicate 16 7"

definition demo_minted :: membership where
  "demo_minted = snd (generate_invite plain_externs demo_token (demo_key 1) 60 100 (n_membership demo_home))"

lemma demo_mint:
  "ipc_dispatch plain_externs demo_ipc (Invite 60) demo_home =
     (RespInvite (b58_encode plain_externs (as_bytes (demo_key 1) @ demo_token)) 160,
      demo_home\<lparr>n_membership := demo_minted\<rparr>, [])"
  using demo_home_facts(3,5)
  by (simp add: ipc_dispatch_def ipc_invite_def demo_ipc_def demo_env_def MAX_INVITE_TTL_def
      state_generate_invite_def demo_minted_def generate_invite_def Let_def)

lemma demo_mint_room: "room (snd (redeem_invite demo_token (demo_id 2) 100 demo_minted))"
proof -
  have "bindings demo_minted = [lit ''web'' \<mapsto> demo_id 1]" "length (members demo_minted) = 1"
    by (simp_all add: demo_minted_def generate_invite_members demo_home_def new_node_def)
      (simp_all add: generate_invite_def Let_def prune_expired_def create_def bind_def default_membership_def)
  then show ?thesis
    by (auto simp: redeem_invite_def Let_def prune_expired_def room_def MAX_SUFFIX_def split: option.split)
qed

definition demo_visit :: ipc_env where
  "demo_visit = demo_ipc\<lparr>ie_calls := \<lambda>k i req. if k = 1
     then Inr (fst (admin_dispatch plain_externs demo_env req (demo_id 2) (demo_home\<lparr>n_membership := demo_minted\<rparr>)))
     else Inl 1\<rparr>"

theorem join_end_to_end_witness:
  "\<exists>name assigned zone nj'.
     ipc_dispatch plain_externs demo_visit
       (Join (b58_encode plain_externs (as_bytes (demo_key 1) @ demo_token)) None) demo_guest =
       (RespJoined name assigned zone, nj', []) \<and>
     is_member (n_membership nj') (demo_id 2) \<and> coordinator_id (n_membership nj') = Some (demo_id 1)"
proof -
  let ?x = plain_externs
  let ?req = "AdminJoin (hex_encode ?x (ie_fresh_token demo_ipc)) None"
  let ?n1 = "demo_home\<lparr>n_membership := demo_minted\<rparr>"
  obtain resp nc2 pushes where d: "admin_dispatch ?x demo_env ?req (demo_id 2) ?n1 = (resp, nc2, pushes)"
    by (metis prod_cases3)
  have tok: "ie_fresh_token demo_ipc = demo_token" "length (as_bytes (demo_key 1)) = 32"
    by (simp_all add: demo_ipc_def demo_key_def)
  have env: "e_saves demo_env" "e_now demo_env < 160" "e_saves (ie_env demo_visit)"
    by (simp_all add: demo_env_def demo_visit_def demo_ipc_def)
  have room: "room (snd (redeem_invite (ie_fresh_token demo_ipc) (own_str ?x demo_guest) (e_now demo_env)
      (n_membership ?n1)))"
    using demo_mint_room by (simp add: tok demo_home_facts demo_ids demo_env_def)
  have calls: "\<forall>j < 1. \<exists>err. ie_calls demo_visit j (n_own demo_home) ?req = Inl err"
    "ie_calls demo_visit 1 (n_own demo_home) ?req = Inr resp"
    using d by (simp_all add: demo_visit_def)
  show ?thesis
    using join_end_to_end [of ?x demo_home demo_ipc demo_guest 60 _ 160 ?n1 "[]" demo_env demo_visit None resp nc2 pushes 1,
        OF _ _ _ _ _ _ _ _ _ _ demo_mint env(1,2,3) room _ _ calls]
      demo_home_facts d tok(2) not_sym [OF demo_ids] by (simp add: demo_ids tok(1)) blast
qed

end
