(* ===== verification/Exchange.thy ===== *)
theory Exchange
  imports Joining
begin

text \<open>
  One exchange of the admin protocol as both sides see it: \<open>admin_call\<close> of
  \<open>daemon/src/connect.rs\<close> on the one and \<open>accept\<close> of \<open>daemon/src/admin.rs\<close> on the other. The
  two only agree when the answer gets back: a request can have been carried out by the time its
  exchange fails. A join repeats its request, and what that leaves at the coordinator is the
  subject of this theory. JSON is serde's, a parameter; each step of the transport may fail.
\<close>

section \<open>An exchange\<close>

record admin_json =
  aj_request :: "admin_request \<Rightarrow> u8 list"
  aj_parse_request :: "u8 list \<Rightarrow> admin_request option"
  aj_response :: "admin_response \<Rightarrow> u8 list"
  aj_parse_response :: "u8 list \<Rightarrow> admin_response option"

text \<open>How far the transport carries an exchange: the connection, the stream, the request, the answer.\<close>

record fate =
  ft_connects :: bool
  ft_opens :: bool
  ft_writes :: bool
  ft_arrives :: bool
  ft_returns :: bool

datatype exchange_error =
    NotConnected
  | NoStreamOpened
  | RequestNotWritten
  | ResponseNotRead
  | ResponseNotParsed

definition READ_LIMIT :: nat where "READ_LIMIT = 64 * 1024"

text \<open>
  The answer, or why there is none, with the node the exchange was with afterwards and the pushes
  it spawned. The answer is read to its end, at most 64 KiB; a longer one fails the read.
\<close>

definition admin_call ::
    "externs \<Rightarrow> admin_json \<Rightarrow> fate \<Rightarrow> env \<Rightarrow> eid \<Rightarrow> admin_request \<Rightarrow> node \<Rightarrow>
     (exchange_error, admin_response) result \<times> node \<times> push list" where
  "admin_call x aj ft e me req n =
     (if \<not> ft_connects ft then (Inl NotConnected, n, [])
      else if \<not> ft_opens ft then (Inl NoStreamOpened, n, [])
      else if \<not> ft_writes ft then (Inl RequestNotWritten, n, [])
      else case (if ft_arrives ft then admin_accept x (aj_parse_request aj) e me (aj_request aj req) n else (None, n, [])) of
        (None, n, pushes) \<Rightarrow> (Inl ResponseNotRead, n, pushes)
      | (Some resp, n, pushes) \<Rightarrow>
          if \<not> ft_returns ft \<or> READ_LIMIT < length (aj_response aj resp) then (Inl ResponseNotRead, n, pushes)
          else (case aj_parse_response aj (aj_response aj resp) of
              None \<Rightarrow> (Inl ResponseNotParsed, n, pushes)
            | Some resp \<Rightarrow> (Inr resp, n, pushes)))"

text \<open>The attempts of a join at the coordinator, each at its own time, until one is answered.\<close>

fun join_calls ::
    "externs \<Rightarrow> admin_json \<Rightarrow> eid \<Rightarrow> admin_request \<Rightarrow> (fate \<times> env) list \<Rightarrow> node \<Rightarrow>
     (exchange_error, admin_response) result \<times> node \<times> push list" where
  "join_calls x aj me req [] n = (Inl NotConnected, n, [])"
| "join_calls x aj me req ((ft, e) # later) n =
     (case admin_call x aj ft e me req n of
        (Inl err, n, pushes) \<Rightarrow>
          if later = [] then (Inl err, n, pushes)
          else (case join_calls x aj me req later n of (res, n, further) \<Rightarrow> (res, n, pushes @ further))
      | (Inr resp, n, pushes) \<Rightarrow> (Inr resp, n, pushes))"

section \<open>Waiting for a link\<close>

text \<open>
  The probe of a peer that has no link waits for the dialer to bring one up. Each look is when it is
  taken and the link it finds; a look is taken every tenth of a second until the timeout.
\<close>

definition PROBE_TIMEOUT :: nat where "PROBE_TIMEOUT = 5000"

fun wait_for_link :: "(nat \<times> conn option) list \<Rightarrow> conn option" where
  "wait_for_link [] = None"
| "wait_for_link ((at, found) # later) =
     (if PROBE_TIMEOUT \<le> at then None
      else case found of Some c \<Rightarrow> Some c | None \<Rightarrow> wait_for_link later)"

lemmas exchange_evals [evals] = READ_LIMIT_def admin_call_def PROBE_TIMEOUT_def

text \<open>The link is the first that any look within the timeout finds.\<close>

lemma wait_for_link_eq:
  "wait_for_link looks =
     Option.bind (List.find (\<lambda>(_, found). found \<noteq> None) (takeWhile (\<lambda>(at, _). at < PROBE_TIMEOUT) looks)) snd"
  by (induction looks rule: wait_for_link.induct) (auto split: option.split)

section \<open>Lemmas\<close>

text \<open>An exchange that fails leaves the other side as it was, or as the request left it.\<close>

lemma admin_call_cases:
  assumes "admin_call x aj ft e me req n = (res, n', pushes)"
    and "aj_parse_request aj (aj_request aj req) = Some req"
  shows "n' = n \<and> pushes = [] \<and> \<not> is_ok res \<or>
    (\<exists>resp. admin_dispatch x e req (id_show x me) n = (resp, n', pushes) \<and>
       (\<forall>resp'. res = Inr resp' \<longrightarrow> aj_parse_response aj (aj_response aj resp) = Some resp'))"
  using assms by (auto simp: admin_call_def admin_accept_def split: if_splits prod.splits option.splits)

text \<open>An exchange that gets through is a call of the handler.\<close>

lemma admin_call_through:
  assumes "ft_connects ft" "ft_opens ft" "ft_writes ft" "ft_arrives ft" "ft_returns ft"
    and "aj_parse_request aj (aj_request aj req) = Some req" and "length (aj_request aj req) \<le> READ_LIMIT"
    and "admin_dispatch x e req (id_show x me) n = (resp, n', pushes)"
    and "aj_parse_response aj (aj_response aj resp) = Some resp" and "length (aj_response aj resp) \<le> READ_LIMIT"
  shows "admin_call x aj ft e me req n = (Inr resp, n', pushes)"
  using assms by (simp add: admin_call_def admin_accept_def READ_LIMIT_def)

text \<open>A token that is not pending admits nobody and changes nothing.\<close>

lemma unknown_token_changes_nothing:
  assumes "\<And>tok. decode_token x token_hex = Inr tok \<Longrightarrow> map_of (pending_invites (n_membership n)) tok = None"
  shows "\<exists>err. admin_dispatch x e (AdminJoin token_hex host) r n = (AdminError err, n, [])"
  using assms
  by (cases "decode_token x token_hex")
    (auto simp: admin_dispatch_def admin_join_def state_redeem_invite_def redeem_invite_def)

lemma admission_invites:
  "pending_invites (snd (admission e tok r host m)) = pending_invites (snd (redeem_invite tok r (e_now e) m))"
  by (auto simp: admission_def claim_hostname_def Let_def bind_def split: option.split sum.split)

lemma redeem_spends: "map_of (pending_invites (snd (redeem_invite tok r now m))) tok = None"
  by (auto simp: redeem_invite_def Let_def prune_expired_def map_of_eq_None_iff set_delete
      dest!: subsetD [OF akeys_retain] split: option.split)

text \<open>Once carried out, a join has spent its token, whatever came of it, so carrying it out again changes nothing.\<close>

lemma join_again_changes_nothing:
  assumes "admin_dispatch x e (AdminJoin token_hex host) r n = (resp, n', pushes)" and "state_is_coordinator x n"
  shows "\<exists>err. admin_dispatch x e' (AdminJoin token_hex host) r n' = (AdminError err, n', [])"
proof (rule unknown_token_changes_nothing)
  fix tok assume tok: "decode_token x token_hex = Inr tok"
  have "n' = fst (snd (state_redeem_invite x e tok r host n))"
    using assms admin_join_node [of x e token_hex host r n] by (simp add: admin_dispatch_def tok)
  then show "map_of (pending_invites (n_membership n')) tok = None"
    by (simp add: redeem_membership admission_invites redeem_spends)
qed

lemma join_elsewhere:
  "\<not> state_is_coordinator x n \<Longrightarrow> admin_dispatch x e (AdminJoin token_hex host) r n = (AdminError DoesNotAdmit, n, [])"
  by (simp add: admin_dispatch_def admin_join_def)

text \<open>A node at which the request has no effect any more.\<close>

definition spent_at :: "externs \<Rightarrow> eid \<Rightarrow> admin_request \<Rightarrow> node \<Rightarrow> bool" where
  "spent_at x me req n \<longleftrightarrow> (\<forall>e. \<exists>err. admin_dispatch x e req (id_show x me) n = (AdminError err, n, []))"

lemma spent_after:
  assumes "admin_dispatch x e (AdminJoin token_hex host) (id_show x me) n = (resp, n', pushes)"
  shows "spent_at x me (AdminJoin token_hex host) n'"
proof (cases "state_is_coordinator x n")
  case True
  then show ?thesis using join_again_changes_nothing [OF assms] by (simp add: spent_at_def)
next
  case False
  then have "n' = n" using assms join_elsewhere [OF False] by simp
  then show ?thesis using join_elsewhere [OF False] by (simp add: spent_at_def)
qed

definition sound_json :: "admin_json \<Rightarrow> admin_request \<Rightarrow> bool" where
  "sound_json aj req \<longleftrightarrow> aj_parse_request aj (aj_request aj req) = Some req \<and>
     (\<forall>r s. aj_parse_response aj (aj_response aj r) = Some s \<longrightarrow> s = r)"

definition is_joined :: "(exchange_error, admin_response) result \<Rightarrow> bool" where
  "is_joined res \<longleftrightarrow> (case res of Inr (AdminJoined _ _ _) \<Rightarrow> True | _ \<Rightarrow> False)"

lemma is_joined_simps [simp]: "\<not> is_joined (Inl e)" "\<not> is_joined (Inr (AdminError err))"
  by (simp_all add: is_joined_def)

lemma spent_calls:
  assumes "spent_at x me req n" and "sound_json aj req"
  shows "join_calls x aj me req attempts n = (res, n', pushes) \<Longrightarrow> n' = n \<and> pushes = [] \<and> \<not> is_joined res"
proof (induction attempts arbitrary: res n' pushes)
  case Nil
  then show ?case by auto
next
  case (Cons a later)
  obtain ft e where a: "a = (ft, e)" by force
  obtain r m p where c: "admin_call x aj ft e me req n = (r, m, p)" by (metis prod_cases3)
  obtain err where "admin_dispatch x e req (id_show x me) n = (AdminError err, n, [])"
    using assms(1) unfolding spent_at_def by blast
  with admin_call_cases [OF c] assms(2) have m: "m = n \<and> p = [] \<and> (\<forall>resp. r = Inr resp \<longrightarrow> resp = AdminError err)"
    by (auto simp: sound_json_def)
  then have m: "m = n" "p = []" "\<not> is_joined r" by (cases r; auto)+
  show ?case
  proof (cases r)
    case (Inl err)
    obtain r2 m2 p2 where "join_calls x aj me req later n = (r2, m2, p2)" by (metis prod_cases3)
    with Inl Cons a c m show ?thesis by (auto split: if_splits)
  qed (use Cons.prems a c m in simp)
qed

section \<open>Where the code departs from this\<close>

text \<open>
  The attempts are there to reach the coordinator, but an exchange whose answer was lost is
  repeated too, and the repetition meets a spent invite: the joiner is told that its invite is not
  good, and knows nothing of the network, while the coordinator lists it as a member.
\<close>

lemma joined_member:
  assumes "admin_dispatch x e (AdminJoin token_hex host) r n = (AdminJoined name ps assigned, n', pushes)"
  shows "is_member (n_membership n') r \<and> state_is_coordinator x n' \<and> (\<exists>tok. decode_token x token_hex = Inr tok)"
proof -
  have c: "state_is_coordinator x n" using assms join_elsewhere by (cases "state_is_coordinator x n") auto
  obtain tok where tok: "decode_token x token_hex = Inr tok"
    using assms c by (cases "decode_token x token_hex") (auto simp: admin_dispatch_def admin_join_def)
  have red: "fst (redeem_invite tok r (e_now e) (n_membership n))"
    using assms c tok by (auto simp: admin_dispatch_def admin_join_def state_redeem_invite_eq split: if_splits prod.splits)
  have n': "n' = fst (snd (state_redeem_invite x e tok r host n))"
    using assms admin_join_node [of x e token_hex host r n] c tok by (simp add: admin_dispatch_def)
  have "is_member (snd (redeem_invite tok r (e_now e) (n_membership n))) r"
    using red by (auto simp: redeem_invite_def Let_def is_member_iff new_member_def prune_expired_def split: option.splits if_splits)
  then have "is_member (n_membership n') r" using red by (simp add: n' redeem_membership admission_member)
  moreover have "coordinator_id (n_membership n') = coordinator_id (n_membership n)"
    by (auto simp: n' redeem_membership admission_def claim_hostname_def redeem_invite_def prune_expired_def Let_def bind_def
        split: option.split sum.split)
  moreover have "n_own n' = n_own n" by (simp add: n' state_redeem_invite_eq frame_simps case_prod_unfold)
  ultimately show ?thesis using c tok by (simp add: state_is_coordinator_def is_coordinator_def)
qed

lemma lost_answer_refuses_a_member:
  assumes "sound_json aj req" and "req = AdminJoin token_hex host" and "length (aj_request aj req) \<le> READ_LIMIT"
    and "admin_dispatch x e req (id_show x me) n = (AdminJoined name ps assigned, n', pushes)"
    and "ft_connects ft" "ft_opens ft" "ft_writes ft" "ft_arrives ft" "\<not> ft_returns ft"
    and "ft_connects ft'" "ft_opens ft'" "ft_writes ft'" "ft_arrives ft'" "ft_returns ft'"
    and "aj_parse_response aj (aj_response aj (AdminError InviteRefused)) = Some (AdminError InviteRefused)"
    and "length (aj_response aj (AdminError InviteRefused)) \<le> READ_LIMIT"
  shows "join_calls x aj me req ((ft, e) # (ft', e') # later) n = (Inr (AdminError InviteRefused), n', pushes)"
    and "is_member (n_membership n') (id_show x me)"
proof -
  have p: "aj_parse_request aj (aj_request aj req) = Some req" using assms(1) by (simp add: sound_json_def)
  note j = joined_member [OF assms(4) [unfolded assms(2)]]
  then show "is_member (n_membership n') (id_show x me)" by blast
  obtain tok where tok: "decode_token x token_hex = Inr tok" using j by blast
  have "state_is_coordinator x n" using assms(2,4) join_elsewhere by (cases "state_is_coordinator x n") auto
  then have "n' = fst (snd (state_redeem_invite x e tok (id_show x me) host n))"
    using assms(2,4) admin_join_node [of x e token_hex host "id_show x me" n] tok by (simp add: admin_dispatch_def)
  then have "map_of (pending_invites (n_membership n')) tok = None"
    by (simp add: redeem_membership admission_invites redeem_spends)
  then have again: "admin_dispatch x e' req (id_show x me) n' = (AdminError InviteRefused, n', [])"
    using j tok by (simp add: assms(2) admin_dispatch_def admin_join_def state_redeem_invite_def redeem_invite_def)
  have "admin_call x aj ft e me req n = (Inl ResponseNotRead, n', pushes)"
    using assms(3-9) p by (simp add: admin_call_def admin_accept_def READ_LIMIT_def)
  moreover have "admin_call x aj ft' e' me req n' = (Inr (AdminError InviteRefused), n', [])"
    using admin_call_through [OF assms(10-14) p assms(3) again assms(15,16)] .
  ultimately show "join_calls x aj me req ((ft, e) # (ft', e') # later) n = (Inr (AdminError InviteRefused), n', pushes)"
    by simp
qed

text \<open>
  Both sides read at most 64 KiB, and nothing bounds a roster by that. A roster too long for it is
  never adopted by the members it is pushed to; an answer too long for it never reaches the joiner,
  whose invite is spent. An id is 64 characters in hex, so a thousand and twenty-four members are enough.
\<close>

lemma long_roster_is_not_adopted:
  assumes "\<forall>p \<in> set ps. length (mid p) = 64" and "1024 < length ps"
    and "(\<Sum>p \<leftarrow> ps. length (mid p)) \<le> length (aj_request aj (AdminRoster name ps))"
  shows "fst (snd (admin_call x aj ft e me (AdminRoster name ps) n)) = n"
    and "\<not> is_ok (fst (admin_call x aj ft e me (AdminRoster name ps) n))"
proof -
  have "(\<Sum>p \<leftarrow> ps. length (mid p)) = (\<Sum>p \<leftarrow> ps. 64)" using assms(1) by (intro arg_cong [where f = sum_list] map_cong) simp_all
  also have "\<dots> = 64 * length ps" by (simp add: sum_list_triv)
  finally have "READ_LIMIT < length (aj_request aj (AdminRoster name ps))" using assms(2,3) by (simp add: READ_LIMIT_def)
  then show "fst (snd (admin_call x aj ft e me (AdminRoster name ps) n)) = n"
    "\<not> is_ok (fst (admin_call x aj ft e me (AdminRoster name ps) n))"
    by (simp_all add: admin_call_def admin_accept_def READ_LIMIT_def)
qed

lemma long_answer_spends_the_invite:
  assumes "admin_dispatch x e (AdminJoin token_hex host) (id_show x me) n = (AdminJoined name ps assigned, n', pushes)"
    and "READ_LIMIT < length (aj_response aj (AdminJoined name ps assigned))"
    and "aj_parse_request aj (aj_request aj (AdminJoin token_hex host)) = Some (AdminJoin token_hex host)"
    and "length (aj_request aj (AdminJoin token_hex host)) \<le> READ_LIMIT"
    and "ft_connects ft" "ft_opens ft" "ft_writes ft" "ft_arrives ft"
  shows "admin_call x aj ft e me (AdminJoin token_hex host) n = (Inl ResponseNotRead, n', pushes)"
    and "is_member (n_membership n') (id_show x me)"
  using assms joined_member [OF assms(1)] by (simp_all add: admin_call_def admin_accept_def READ_LIMIT_def)

section \<open>Properties\<close>

text \<open>
  C10: A join is carried out at most once, however often it is sent. Whatever becomes of each of its
  exchanges, at whatever times, the coordinator ends up as it was, with nothing pushed, or as one
  single handling of the request leaves it, with that handling's pushes; and the joiner is told that
  it joined only with the answer of that handling. It holds for every JSON encoding that reads back
  this request and no answer as another.
\<close>

theorem join_is_carried_out_once:
  assumes "sound_json aj (AdminJoin token_hex host)"
    and "join_calls x aj me (AdminJoin token_hex host) attempts n = (res, n', pushes)"
  shows "n' = n \<and> pushes = [] \<and> \<not> is_joined res \<or>
    (\<exists>e \<in> snd ` set attempts. \<exists>resp.
       admin_dispatch x e (AdminJoin token_hex host) (id_show x me) n = (resp, n', pushes) \<and>
       (is_joined res \<longrightarrow> res = Inr resp))"
  using assms(2)
proof (induction attempts arbitrary: res n' pushes)
  case Nil
  then show ?case by auto
next
  case (Cons a later)
  let ?req = "AdminJoin token_hex host"
  obtain ft e where a: "a = (ft, e)" by force
  obtain r m p where c: "admin_call x aj ft e me ?req n = (r, m, p)" by (metis prod_cases3)
  obtain r2 m2 p2 where l: "join_calls x aj me ?req later m = (r2, m2, p2)" by (metis prod_cases3)
  have json: "aj_parse_request aj (aj_request aj ?req) = Some ?req" using assms(1) by (simp add: sound_json_def)
  from admin_call_cases [OF c json] show ?case
  proof (elim disjE exE conjE)
    assume m: "m = n" "p = []" "\<not> is_ok r"
    then obtain err where r: "r = Inl err" by (cases r) auto
    show ?thesis
    proof (cases "later = []")
      case False
      then have "res = r2" "n' = m2" "pushes = p2" using Cons.prems a c l m r by simp_all
      with Cons.IH [OF l [unfolded m(1)]] show ?thesis by auto
    qed (use Cons.prems a c m r in auto)
  next
    fix resp assume d: "admin_dispatch x e ?req (id_show x me) n = (resp, m, p)"
      and parsed: "\<forall>resp'. r = Inr resp' \<longrightarrow> aj_parse_response aj (aj_response aj resp) = Some resp'"
    have told: "is_joined r \<Longrightarrow> r = Inr resp"
      using parsed assms(1) by (cases r) (auto simp: sound_json_def)
    have rest: "m2 = m" "p2 = []" "\<not> is_joined r2" using spent_calls [OF spent_after [OF d] assms(1) l] by simp_all
    have "n' = m" "pushes = p" "is_joined res \<longrightarrow> res = Inr resp"
      using Cons.prems a c l rest told by (auto split: sum.splits if_splits)
    with d show ?thesis by (auto simp: a)
  qed
qed

definition demo_json :: "admin_request \<Rightarrow> admin_response \<Rightarrow> admin_json" where
  "demo_json req resp = \<lparr>aj_request = \<lambda>_. [0], aj_parse_request = \<lambda>_. Some req,
     aj_response = \<lambda>r. if r = resp then [1] else [2], aj_parse_response = \<lambda>bs. if bs = [1] then Some resp else None\<rparr>"

text \<open>The first exchange does not get through, the second does, and the guest is told that it joined.\<close>

theorem join_is_carried_out_once_witness:
  "let req = AdminJoin (hex_encode plain_externs demo_token) None; home = demo_home\<lparr>n_membership := demo_minted\<rparr>;
     handled = admin_dispatch plain_externs demo_env req (demo_id 2) home;
     called = join_calls plain_externs (demo_json req (fst handled)) (demo_key 2) req
       [(\<lparr>ft_connects = False, ft_opens = True, ft_writes = True, ft_arrives = True, ft_returns = True\<rparr>, demo_env),
        (\<lparr>ft_connects = True, ft_opens = True, ft_writes = True, ft_arrives = True, ft_returns = True\<rparr>, demo_env)] home
   in fst called = Inr (fst handled) \<and> (is_joined (fst called) \<longrightarrow> snd called = snd handled)"
proof -
  let ?req = "AdminJoin (hex_encode plain_externs demo_token) None" and ?home = "demo_home\<lparr>n_membership := demo_minted\<rparr>"
  let ?fts = "[(\<lparr>ft_connects = False, ft_opens = True, ft_writes = True, ft_arrives = True, ft_returns = True\<rparr>, demo_env),
        (\<lparr>ft_connects = True, ft_opens = True, ft_writes = True, ft_arrives = True, ft_returns = True\<rparr>, demo_env)]"
  obtain resp n' pushes where d: "admin_dispatch plain_externs demo_env ?req (demo_id 2) ?home = (resp, n', pushes)"
    by (metis prod_cases3)
  obtain res m' sent where c: "join_calls plain_externs (demo_json ?req resp) (demo_key 2) ?req ?fts ?home = (res, m', sent)"
    by (metis prod_cases3)
  have sound: "sound_json (demo_json ?req resp) ?req" by (simp add: sound_json_def demo_json_def)
  have "res = Inr resp"
    using c d by (simp add: admin_call_def admin_accept_def demo_json_def READ_LIMIT_def)
  moreover have "(m', sent) = (n', pushes)" if "is_joined res"
    using join_is_carried_out_once [OF sound c] that d by auto
  ultimately show ?thesis unfolding Let_def d c fst_conv snd_conv by simp
qed

end
