(* ===== verification/Network.thy ===== *)
theory Network
  imports Joining
begin

text \<open>
  A coordinator and one of its members over time: the coordinator handles requests of other nodes
  (\<open>admin.rs\<close>), each of which may change the roster and spawns the pushes of \<open>broadcast_roster\<close>; a
  member that links again is caught up (\<open>mesh.rs\<close>); and each push is a task of its own, delivered
  in whatever order, or lost. The steps are those of \<open>Admin\<close> and the kick of \<open>Ipc\<close>; what is in flight
  between the two is a list from which any push may arrive next. The coordinator renaming itself by
  force, which moves names, and the member's own commands are not among the steps.
\<close>

section \<open>The two nodes and what is between them\<close>

text \<open>\<open>nt_past\<close> is for the statements only: the rosters the coordinator has had.\<close>

record net =
  nt_coord :: node
  nt_member :: node
  nt_flying :: "(rstr option \<times> member list) list"
  nt_past :: "member list list"

definition pushes_to :: "eid \<Rightarrow> push list \<Rightarrow> (rstr option \<times> member list) list" where
  "pushes_to i pushes = List.map_filter (\<lambda>(to, name, ps). if to = i then Some (name, ps) else None) pushes"

definition coord_moves :: "node \<Rightarrow> push list \<Rightarrow> net \<Rightarrow> net" where
  "coord_moves c pushes s =
     s\<lparr>nt_coord := c, nt_flying := nt_flying s @ pushes_to (n_own (nt_member s)) pushes,
       nt_past := nt_past s @ [roster (n_membership c)]\<rparr>"

text \<open>
  The catch-up push is spawned when the member links and reads the roster when its task gets to run;
  by then the member may be off the roster.
\<close>

inductive net_step :: "externs \<Rightarrow> net \<Rightarrow> net \<Rightarrow> bool" for x where
  net_handled: "r \<noteq> own_str x (nt_coord s) \<Longrightarrow> claim_room x e req r (n_membership (nt_coord s)) \<Longrightarrow>
    admin_dispatch x e req r (nt_coord s) = (resp, c, pushes) \<Longrightarrow> net_step x s (coord_moves c pushes s)"
| net_kicked: "ipc_dispatch x ie (KickPeer peer) (nt_coord s) = (shown, c, pushes) \<Longrightarrow>
    net_step x s (coord_moves c pushes s)"
| net_caught_up: "net_step x s (s\<lparr>nt_flying := nt_flying s @
      [(network_name (n_membership (nt_coord s)), roster (n_membership (nt_coord s)))]\<rparr>)"
| net_delivered: "nt_flying s = before @ (name, ps) # after \<Longrightarrow>
    admin_dispatch x e (AdminRoster name ps) (own_str x (nt_coord s)) (nt_member s) = (resp, m, pushes) \<Longrightarrow>
    net_step x s (s\<lparr>nt_member := m, nt_flying := before @ after\<rparr>)"
| net_lost: "nt_flying s = before @ p # after \<Longrightarrow> net_step x s (s\<lparr>nt_flying := before @ after\<rparr>)"

inductive_cases net_stepE: "net_step x s s'"

section \<open>What handling a request does to the coordinator\<close>

lemma dispatch_own:
  "n_own (fst (snd (admin_dispatch x e req r n))) = n_own n"
proof -
  have "n_own (fst (snd (state_redeem_invite x e t r hn n))) = n_own n"
    "n_own (fst (snd (state_claim_hostname e r host f n))) = n_own n"
    "n_own (fst (snd (state_remove_member x e r n))) = n_own n"
    "n_own (fst (snd (state_set_roster x e name ps n))) = n_own n"
    "n_own (fst (snd (state_leave x e n))) = n_own n" for t hn host f name ps
    by (simp_all add: state_redeem_invite_eq state_claim_hostname_def state_remove_member_def state_set_roster_def
        state_leave_def frame_simps case_prod_unfold Let_def split: bool.split)
  then show ?thesis
    by (cases req) (simp_all add: admin_dispatch_def admin_join_node admin_leave_node admin_set_hostname_node
        admin_roster_def admin_kicked_def case_prod_unfold split: sum.split)
qed

lemma claim_bindings_grow:
  assumes "roster_inv m" and "room m"
  shows "bindings m \<subseteq>\<^sub>m bindings (snd (claim_hostname r h False m))"
proof (cases "fst (claim_hostname r h False m)")
  case (Inl err)
  then show ?thesis by (simp add: claim_hostname_Inl)
next
  case (Inr a)
  then obtain w where w: "validate h r = Inr w" "a = dedupe w r (\<lambda>n. spoken_for (before_claim w False m) n r)"
    "snd (claim_hostname r h False m) = bind r a (before_claim w False m)"
    by (rule claim_hostname_Inr)
  have "bindings m a = None \<or> bindings m a = Some r"
    using not_spoken_for_binding [OF claimed_name_free [OF assms w(1,2)]] by (simp add: before_claim_def)
  then show ?thesis unfolding w(3) by (auto simp: bind_def before_claim_def map_le_def)
qed

lemma redeem_bindings [simp]: "bindings (snd (redeem_invite t r now m)) = bindings m"
  by (auto simp: redeem_invite_def prune_expired_def Let_def split: option.split)

lemma remove_bindings [simp]: "bindings (snd (remove_member r m)) = bindings m"
  by (simp add: remove_member_def Let_def)

lemma coordinator_kept:
  assumes "roster_inv (n_membership n)" and "coordinator_id (n_membership n) \<noteq> Some r"
    and "claim_room x e req r (n_membership n)" and "state_is_coordinator x n"
  defines "m' \<equiv> n_membership (fst (snd (admin_dispatch x e req r n)))"
  shows "roster_inv m' \<and> bindings (n_membership n) \<subseteq>\<^sub>m bindings m'"
proof (cases req)
  case (AdminJoin token_hex host)
  show ?thesis
  proof (cases "decode_token x token_hex")
    case (Inl err)
    then show ?thesis using assms(1) AdminJoin by (simp add: m'_def dispatch_node [OF assms(2,4)])
  next
    case (Inr tok)
    have room: "room (snd (redeem_invite tok r (e_now e) (n_membership n)))"
      using assms(3) by (simp add: claim_room_def AdminJoin Inr)
    note inv = redeem_invite_inv [OF assms(1), of tok r "e_now e"]
    have "bindings (n_membership n) \<subseteq>\<^sub>m bindings (snd (admission e tok r host (n_membership n)))"
      using claim_bindings_grow [OF inv room]
      by (auto simp: admission_def case_prod_unfold split: option.split)
    then show ?thesis
      using admission_inv [OF assms(1) room, of host] inv
      by (simp add: m'_def dispatch_node [OF assms(2,4)] AdminJoin Inr redeem_membership)
  qed
next
  case (AdminSetHostname host)
  then have "room (n_membership n)" using assms(3) by (simp add: claim_room_def)
  then show ?thesis
    using claim_hostname_inv [OF assms(1), of r host False] claim_bindings_grow [OF assms(1), of r host] assms(1)
    by (simp add: m'_def dispatch_node [OF assms(2,4)] AdminSetHostname claim_membership)
qed (use assms(1) in \<open>simp_all add: m'_def dispatch_node [OF assms(2,4)] remove_membership remove_member_inv\<close>)

text \<open>Every push that is spawned carries the roster as it is when the request has been handled, to members of it.\<close>

lemma broadcast_mem:
  "(to, name, ps) \<in> set (broadcast_roster x subject nm rs n) \<Longrightarrow>
   name = nm \<and> ps = rs"
  by (auto simp: broadcast_roster_def set_map_filter Let_def)

lemma dispatch_pushes:
  assumes "admin_dispatch x e req r n = (resp, n', pushes)" and "(to, name, ps) \<in> set pushes"
  shows "ps = roster (n_membership n')"
proof (cases req)
  case (AdminJoin token_hex host)
  then show ?thesis
    using assms
    by (auto simp: admin_dispatch_def admin_join_def state_redeem_invite_eq save_then_refresh_def
        dest!: broadcast_mem split: if_splits sum.splits option.splits prod.splits)
      (metis (no_types, lifting) fst_conv refresh_frame(2) node.select_convs(2) node.surjective node.update_convs(2))+
next
  case AdminLeave
  then show ?thesis
    using assms
    by (auto simp: admin_dispatch_def admin_leave_def dest!: broadcast_mem split: if_splits sum.splits bool.splits prod.splits)
next
  case (AdminSetHostname host)
  then show ?thesis
    using assms
    by (auto simp: admin_dispatch_def admin_set_hostname_def dest!: broadcast_mem split: if_splits sum.splits prod.splits)
next
  case (AdminRoster nm rs)
  then show ?thesis using assms by (auto simp: admin_dispatch_def admin_roster_def split: if_splits sum.splits prod.splits)
next
  case AdminKicked
  then show ?thesis using assms by (auto simp: admin_dispatch_def admin_kicked_def split: if_splits sum.splits prod.splits)
qed

lemma ipc_kick_pushes:
  assumes "ipc_dispatch x ie (KickPeer peer) n = (resp, n', pushes)" and "(to, name, ps) \<in> set pushes"
  shows "ps = roster (n_membership n')"
  using assms by (auto simp: ipc_dispatch_def ipc_kick_def Let_def dest!: broadcast_mem split: if_splits sum.splits prod.splits)

lemma kick_kept:
  assumes "roster_inv m" and "is_member m own"
  shows "is_member (snd (kick x q own m)) own" and "bindings (snd (kick x q own m)) = bindings m"
    and "coordinator_id (snd (kick x q own m)) = coordinator_id m"
  using assms by (auto simp: kick_def remove_member_def is_member_iff Let_def split: option.split)

lemma state_kick_node:
  "n_own (fst (snd (state_kick x e q n))) = n_own n"
  "n_membership (fst (snd (state_kick x e q n))) = snd (kick x q (own_str x n) (n_membership n))"
  by (simp_all add: state_kick_def frame_simps case_prod_unfold split: sum.split)

lemma ipc_kick_node:
  "fst (snd (ipc_dispatch x ie (KickPeer peer) n)) =
     (if state_is_coordinator x n then fst (snd (state_kick x (ie_env ie) peer n)) else n)"
  by (auto simp: ipc_dispatch_def ipc_kick_def Let_def split: prod.split sum.split)

section \<open>The invariant\<close>

definition coord_inv :: "externs \<Rightarrow> node \<Rightarrow> bool" where
  "coord_inv x c \<longleftrightarrow>
     roster_inv (n_membership c) \<and> state_is_coordinator x c \<and> is_member (n_membership c) (own_str x c)"

text \<open>A roster that the coordinator had and that its members can take over without a conflict.\<close>

definition was_roster :: "externs \<Rightarrow> net \<Rightarrow> member list \<Rightarrow> bool" where
  "was_roster x s ps \<longleftrightarrow>
     ps \<in> set (nt_past s) \<and> consistent (bindings (n_membership (nt_coord s))) ps \<and> distinct (map mid ps) \<and>
     own_str x (nt_coord s) \<in> mid ` set ps"

definition follows :: "externs \<Rightarrow> net \<Rightarrow> bool" where
  "follows x s \<longleftrightarrow>
     (let m = n_membership (nt_member s) in
      coordinator_id m = Some (own_str x (nt_coord s)) \<and> bindings m \<subseteq>\<^sub>m bindings (n_membership (nt_coord s)) \<and>
      n_conflicts (nt_member s) = [] \<and> (\<exists>ps \<in> set (nt_past s). members m = listing (own_str x (nt_member s)) ps))"

definition net_inv :: "externs \<Rightarrow> net \<Rightarrow> bool" where
  "net_inv x s \<longleftrightarrow>
     coord_inv x (nt_coord s) \<and> roster (n_membership (nt_coord s)) \<in> set (nt_past s) \<and> follows x s \<and>
     (\<forall>(name, ps) \<in> set (nt_flying s). was_roster x s ps)"

lemma coord_was_roster:
  "coord_inv x (nt_coord s) \<Longrightarrow> roster (n_membership (nt_coord s)) \<in> set (nt_past s) \<Longrightarrow>
   was_roster x s (roster (n_membership (nt_coord s)))"
  by (simp add: coord_inv_def was_roster_def roster_consistent_own distinct_roster is_member_iff)

text \<open>A coordinator that keeps its place and its bindings keeps every push good, and its own new one.\<close>

lemma coord_moves_inv:
  assumes "net_inv x s" and "coord_inv x c" and "n_own c = n_own (nt_coord s)"
    and "bindings (n_membership (nt_coord s)) \<subseteq>\<^sub>m bindings (n_membership c)"
    and "\<And>to name ps. (to, name, ps) \<in> set pushes \<Longrightarrow> ps = roster (n_membership c)"
  shows "net_inv x (coord_moves c pushes s)"
proof -
  let ?s = "coord_moves c pushes s"
  have own: "own_str x c = own_str x (nt_coord s)" using assms(3) by simp
  have grows: "was_roster x ?s ps" if "was_roster x s ps" for ps
    using that assms(4) own by (auto simp: was_roster_def coord_moves_def consistent_def map_le_def dom_def)
  have new: "was_roster x ?s (roster (n_membership c))"
    using coord_was_roster [of x ?s] assms(2) by (simp add: coord_moves_def)
  have "ps = roster (n_membership c)" if "(name, ps) \<in> set (pushes_to i pushes)" for name ps i
    using that assms(5) by (auto simp: pushes_to_def set_map_filter split: if_splits)
  then have "\<forall>(name, ps) \<in> set (nt_flying ?s). was_roster x ?s ps"
    using assms(1) grows new by (auto simp: net_inv_def coord_moves_def) 
  moreover have "follows x ?s"
    using assms(1,4) own by (auto simp: net_inv_def follows_def coord_moves_def Let_def intro: map_le_trans)
  ultimately show ?thesis using assms(2) by (simp add: net_inv_def coord_moves_def)
qed

text \<open>What a member becomes when a push arrives.\<close>

lemma delivered:
  assumes "was_roster x s ps" and "follows x s"
    and "admin_dispatch x e (AdminRoster name ps) (own_str x (nt_coord s)) (nt_member s) = (resp, m, pushes)"
  shows "n_own m = n_own (nt_member s)" and "members (n_membership m) = listing (own_str x (nt_member s)) ps"
    and "follows x (s\<lparr>nt_member := m, nt_flying := fl\<rparr>)"
proof -
  let ?m = "n_membership (nt_member s)" and ?own = "own_str x (nt_member s)" and ?c = "own_str x (nt_coord s)"
  let ?base = "(if name \<noteq> None then ?m\<lparr>network_name := name\<rparr> else ?m)\<lparr>members := []\<rparr>"
  have base: "bindings ?base \<subseteq>\<^sub>m bindings (n_membership (nt_coord s))" "members ?base = []" "coordinator_id ?base = Some ?c"
    using assms(2) by (simp_all add: follows_def Let_def)
  have ps: "consistent (bindings (n_membership (nt_coord s))) ps" "distinct (map mid ps)" "?c \<in> mid ` set ps"
    using assms(1) by (simp_all add: was_roster_def)
  obtain b' where b': "b' \<subseteq>\<^sub>m bindings (n_membership (nt_coord s))"
    "apply_roster ?own ps ?base = ([], ?base\<lparr>members := listing ?own ps, bindings := b'\<rparr>)"
    using apply_roster_listing [OF ps(1) base(1,2) ps(2) base(3) ps(3), of ?own] by blast
  have m: "m = fst (snd (state_set_roster x e name ps (nt_member s)))"
    using assms(2,3) by (auto simp: admin_dispatch_def admin_roster_def follows_def Let_def split: sum.splits prod.splits)
  have set: "set_roster ?own name ps ?m = ([], ?base\<lparr>members := listing ?own ps, bindings := b'\<rparr>)"
    using b'(2) by (simp add: set_roster_def)
  have new: "n_membership m = ?base\<lparr>members := listing ?own ps, bindings := b'\<rparr>" "n_own m = n_own (nt_member s)"
    "n_conflicts m = []"
    using assms(2) by (simp_all add: m state_set_roster_def set save_then_refresh_def frame_simps follows_def Let_def case_prod_unfold)
  then show "n_own m = n_own (nt_member s)" "members (n_membership m) = listing ?own ps" by simp_all
  show "follows x (s\<lparr>nt_member := m, nt_flying := fl\<rparr>)"
    using assms(1,2) new b'(1) by (auto simp: follows_def Let_def was_roster_def)
qed

lemma coord_inv_handled:
  assumes "coord_inv x c" and "r \<noteq> own_str x c" and "claim_room x e req r (n_membership c)"
  defines "c' \<equiv> fst (snd (admin_dispatch x e req r c))"
  shows "coord_inv x c'" and "n_own c' = n_own c" and "bindings (n_membership c) \<subseteq>\<^sub>m bindings (n_membership c')"
proof -
  have c: "roster_inv (n_membership c)" "state_is_coordinator x c" "is_member (n_membership c) (own_str x c)"
    using assms(1) by (simp_all add: coord_inv_def)
  then have r: "coordinator_id (n_membership c) \<noteq> Some r"
    using assms(2) by (auto simp: state_is_coordinator_def is_coordinator_def)
  show own: "n_own c' = n_own c" by (simp add: c'_def dispatch_own)
  have "only_touches r (n_membership c) (n_membership c')"
    unfolding c'_def by (rule dispatch_touches [OF c(1) r assms(3) c(2)])
  then have "is_member (n_membership c') (own_str x c')" "state_is_coordinator x c'"
    using c(2,3) assms(2) own by (auto simp: only_touches_def is_member_def state_is_coordinator_def is_coordinator_def)
  then show "coord_inv x c'" "bindings (n_membership c) \<subseteq>\<^sub>m bindings (n_membership c')"
    using coordinator_kept [OF c(1) r assms(3) c(2)] by (simp_all add: coord_inv_def c'_def)
qed

lemma coord_inv_kicked:
  assumes "coord_inv x c" and c': "c' = fst (snd (ipc_dispatch x ie (KickPeer peer) c))"
  shows "coord_inv x c'" and "n_own c' = n_own c" and "bindings (n_membership c) \<subseteq>\<^sub>m bindings (n_membership c')"
  using assms(1) kick_kept [of "n_membership c" "own_str x c" x peer]
  by (simp_all add: c' coord_inv_def ipc_kick_node state_kick_node kick_inv state_is_coordinator_def is_coordinator_def)

lemma net_step_inv: "net_step x s s' \<Longrightarrow> net_inv x s \<Longrightarrow> net_inv x s'"
proof (induction rule: net_step.induct)
  case (net_handled r s e req resp c pushes)
  then have c: "c = fst (snd (admin_dispatch x e req r (nt_coord s)))" "coord_inv x (nt_coord s)"
    by (simp_all add: net_inv_def)
  show ?case
    using coord_moves_inv [OF net_handled.prems, of c pushes] coord_inv_handled [OF c(2) net_handled.hyps(1,2)]
      dispatch_pushes [OF net_handled.hyps(3)] c(1) by blast
next
  case (net_kicked ie peer s shown c pushes)
  then have c: "c = fst (snd (ipc_dispatch x ie (KickPeer peer) (nt_coord s)))" "coord_inv x (nt_coord s)"
    by (simp_all add: net_inv_def)
  show ?case
    using coord_moves_inv [OF net_kicked.prems, of c pushes] coord_inv_kicked [OF c(2,1)]
      ipc_kick_pushes [OF net_kicked.hyps] c(1) by blast
next
  case (net_caught_up s)
  then show ?case using coord_was_roster [of x s] by (auto simp: net_inv_def follows_def was_roster_def)
next
  case (net_delivered s before name ps after e resp m pushes)
  then have "was_roster x s ps" "follows x s" by (simp_all add: net_inv_def)
  from delivered(3) [OF this net_delivered.hyps(2), of "before @ after"] net_delivered.hyps(1) net_delivered.prems
  show ?case by (auto simp: net_inv_def was_roster_def)
next
  case (net_lost s before p after)
  then show ?case by (auto simp: net_inv_def follows_def was_roster_def)
qed

lemma net_reach_inv: "(net_step x)\<^sup>*\<^sup>* s t \<Longrightarrow> net_inv x s \<Longrightarrow> net_inv x t"
  by (induction rule: rtranclp_induct) (auto intro: net_step_inv)

section \<open>Where a network begins: a member that has just joined\<close>

definition net_begins :: "externs \<Rightarrow> net \<Rightarrow> bool" where
  "net_begins x s \<longleftrightarrow>
     coord_inv x (nt_coord s) \<and> nt_flying s = [] \<and> nt_past s = [roster (n_membership (nt_coord s))] \<and>
     is_member (n_membership (nt_coord s)) (own_str x (nt_member s)) \<and> n_conflicts (nt_member s) = [] \<and>
     (\<exists>name m. n_membership (nt_member s) =
        set_joined (own_str x (nt_coord s)) (own_str x (nt_member s)) name (roster (n_membership (nt_coord s))) m)"

lemma net_begins_inv:
  assumes "net_begins x s"
  shows "net_inv x s"
proof -
  let ?c = "n_membership (nt_coord s)" and ?m = "n_membership (nt_member s)"
  have c: "coord_inv x (nt_coord s)" "nt_past s = [roster ?c]" "nt_flying s = []" "n_conflicts (nt_member s) = []"
    using assms by (simp_all add: net_begins_def)
  obtain name m where m: "?m = set_joined (own_str x (nt_coord s)) (own_str x (nt_member s)) name (roster ?c) m"
    using assms by (auto simp: net_begins_def)
  let ?base = "m\<lparr>coordinator_id := Some (own_str x (nt_coord s)), network_name := name, members := [], bindings := Map.empty,
      network_id := None, pending_invites := []\<rparr>"
  have "consistent (bindings ?c) (roster ?c)" "distinct (map mid (roster ?c))" "own_str x (nt_coord s) \<in> mid ` set (roster ?c)"
    using coord_was_roster [OF c(1)] c(2) by (simp_all add: was_roster_def)
  then obtain b' where "b' \<subseteq>\<^sub>m bindings ?c"
    "?m = ?base\<lparr>members := listing (own_str x (nt_member s)) (roster ?c), bindings := b'\<rparr>"
    using apply_roster_listing [of "bindings ?c" "roster ?c" ?base "own_str x (nt_coord s)" "own_str x (nt_member s)"] m
    by (auto simp: set_joined_def)
  then show ?thesis using c by (simp add: net_inv_def follows_def)
qed

section \<open>Pushes that overtake each other\<close>

text \<open>
  A push carries no version, and each is a task of its own: of two that are under way the older may
  arrive last. The member then shows that roster with nothing more on its way to it.
\<close>

lemma older_push_may_win:
  assumes "net_begins x s0" and "(net_step x)\<^sup>*\<^sup>* s0 s" and "nt_flying s = [(name, old), (name', newer)]"
  shows "\<exists>t. (net_step x)\<^sup>*\<^sup>* s t \<and> nt_flying t = [] \<and> nt_coord t = nt_coord s \<and>
    members (n_membership (nt_member t)) = listing (own_str x (nt_member s)) old"
proof -
  obtain e :: env where True by simp
  have inv: "net_inv x s" using net_reach_inv [OF assms(2)] net_begins_inv [OF assms(1)] by blast
  obtain resp m pushes where d: "admin_dispatch x e (AdminRoster name' newer) (own_str x (nt_coord s)) (nt_member s) = (resp, m, pushes)"
    by (metis prod_cases3)
  define u where "u = s\<lparr>nt_member := m, nt_flying := [(name, old)]\<rparr>"
  have su: "net_step x s u" using net_delivered [of s "[(name, old)]" name' newer "[]", OF _ d] assms(3) by (simp add: u_def)
  have "was_roster x s newer" "follows x s" using inv assms(3) by (simp_all add: net_inv_def)
  from delivered(1) [OF this d] have own: "own_str x (nt_member u) = own_str x (nt_member s)" by (simp add: u_def)
  have inv': "was_roster x u old" "follows x u" using net_step_inv [OF su inv] by (simp_all add: net_inv_def u_def)
  obtain resp' m' pushes' where d': "admin_dispatch x e (AdminRoster name old) (own_str x (nt_coord u)) (nt_member u) = (resp', m', pushes')"
    by (metis prod_cases3)
  have "net_step x u (u\<lparr>nt_member := m', nt_flying := []\<rparr>)"
    using net_delivered [of u "[]" name old "[]", OF _ d'] by (simp add: u_def)
  with su have "(net_step x)\<^sup>*\<^sup>* s (u\<lparr>nt_member := m', nt_flying := []\<rparr>)" by auto
  moreover have "members (n_membership m') = listing (own_str x (nt_member s)) old"
    using delivered(2) [OF inv' d'] own by simp
  ultimately show ?thesis by (intro exI [of _ "u\<lparr>nt_member := m', nt_flying := []\<rparr>"]) (simp add: u_def)
qed

section \<open>Properties\<close>


section \<open>Witness\<close>

definition demo_admitted :: membership where
  "demo_admitted = snd (redeem_invite demo_token (demo_id 2) 100 demo_minted)"

definition demo_pair :: net where
  "demo_pair =
     \<lparr>nt_coord = demo_home\<lparr>n_membership := demo_admitted\<rparr>,
      nt_member = demo_guest\<lparr>n_membership :=
        set_joined (demo_id 1) (demo_id 2) (Some (lit ''home'')) (roster demo_admitted) default_membership\<rparr>,
      nt_flying = [], nt_past = [roster demo_admitted]\<rparr>"

lemma demo_pair_begins: "net_begins plain_externs demo_pair"
proof -
  have home: "roster_inv (n_membership demo_home)" "network_id (n_membership demo_home) \<noteq> None"
    "keys_distinct (pending_invites (n_membership demo_home))"
    using demo_home_facts(1,2) by (simp_all add: roster_inv_def)
  have "roster_inv demo_admitted"
    unfolding demo_admitted_def demo_minted_def by (intro redeem_invite_inv generate_invite_inv home(1))
  moreover have "is_member demo_admitted (demo_id 2)"
    unfolding demo_admitted_def demo_minted_def by (rule generated_redeems(2)) (use home in simp_all)
  moreover have "only_touches (demo_id 2) (n_membership demo_home) demo_admitted"
    unfolding demo_admitted_def demo_minted_def
    by (rule only_touches_trans [OF _ redeem_only_touches])
      (simp add: only_touches_def generate_invite_def Let_def prune_expired_def member_of_def)
  ultimately show ?thesis
    using demo_home_facts demo_ids
    by (auto simp: net_begins_def demo_pair_def coord_inv_def state_is_coordinator_def is_coordinator_def only_touches_def
        is_member_def demo_guest_def new_node_def)
qed


end
