(* ===== verification/Wide.thy ===== *)
theory Wide
  imports Proto
begin

text \<open>
  The strings of the Windows API, in the three places that build or read one: \<open>wide\<close> of
  \<open>cli/src/elevate.rs\<close> and \<open>daemon/src/winacl.rs\<close>, and \<open>wide_to_string\<close> of \<open>daemon/src/winauth.rs\<close>.
  A wide string is a sequence of UTF-16 code units that ends in a zero unit. \<open>encode_utf16\<close> and
  \<open>from_utf16_lossy\<close> are the standard library's.
\<close>

section \<open>UTF-16\<close>

definition utf16_char :: "rchar \<Rightarrow> nat list" where
  "utf16_char c =
     (if c < 0x10000 then [c]
      else [0xD800 + (c - 0x10000) div 0x400, 0xDC00 + (c - 0x10000) mod 0x400])"

definition encode_utf16 :: "rstr \<Rightarrow> u16 list" where
  "encode_utf16 s = map of_nat (concat (map utf16_char s))"

definition high_surrogate :: "nat \<Rightarrow> bool" where
  "high_surrogate u \<longleftrightarrow> 0xD800 \<le> u \<and> u < 0xDC00"

definition low_surrogate :: "nat \<Rightarrow> bool" where
  "low_surrogate u \<longleftrightarrow> 0xDC00 \<le> u \<and> u < 0xE000"

text \<open>A surrogate that is not part of a pair reads as the replacement character.\<close>

fun utf16_lossy :: "nat list \<Rightarrow> rstr" where
  "utf16_lossy [] = []"
| "utf16_lossy [u] = [if high_surrogate u \<or> low_surrogate u then 0xFFFD else u]"
| "utf16_lossy (u # v # us) =
     (if high_surrogate u \<and> low_surrogate v
      then (0x10000 + (u - 0xD800) * 0x400 + (v - 0xDC00)) # utf16_lossy us
      else (if high_surrogate u \<or> low_surrogate u then 0xFFFD else u) # utf16_lossy (v # us))"

definition from_utf16_lossy :: "u16 list \<Rightarrow> rstr" where
  "from_utf16_lossy us = utf16_lossy (map unat us)"

section \<open>Strings that end in a zero\<close>

definition wide :: "rstr \<Rightarrow> u16 list" where
  "wide s = encode_utf16 s @ [0]"

text \<open>What a null pointer reads as is \<open>None\<close>; the memory starts at the pointer.\<close>

definition wide_to_string :: "u16 list option \<Rightarrow> rstr option" where
  "wide_to_string memory = map_option (\<lambda>us. from_utf16_lossy (takeWhile (\<lambda>u. u \<noteq> 0) us)) memory"

lemmas wide_evals [evals] = utf16_char_def encode_utf16_def high_surrogate_def low_surrogate_def
  from_utf16_lossy_def wide_def wide_to_string_def

section \<open>Lemmas\<close>

text \<open>A string without zero characters, as every argument and account name of Windows is.\<close>

definition nul_free :: "rstr \<Rightarrow> bool" where
  "nul_free s \<longleftrightarrow> list_all (\<lambda>c. scalar c \<and> c \<noteq> 0) s"

lemma nul_free_simps [simp]: "nul_free []" "nul_free (c # s) \<longleftrightarrow> scalar c \<and> c \<noteq> 0 \<and> nul_free s"
  "nul_free (s @ t) \<longleftrightarrow> nul_free s \<and> nul_free t"
  by (auto simp: nul_free_def)

lemma nul_free_replicate: "nul_free (replicate n c) \<longleftrightarrow> n = 0 \<or> scalar c \<and> c \<noteq> 0"
  by (induction n) auto

lemma utf16_char_units: "scalar c \<Longrightarrow> c \<noteq> 0 \<Longrightarrow> u \<in> set (utf16_char c) \<Longrightarrow> 0 < u \<and> u < 2 ^ 16"
  by (auto simp: utf16_char_def scalar_def split: if_splits)

lemma utf16_lossy_char: "scalar c \<Longrightarrow> utf16_lossy (utf16_char c @ us) = c # utf16_lossy us"
proof (cases "c < 0x10000")
  case True
  assume "scalar c"
  with True have "\<not> high_surrogate c \<and> \<not> low_surrogate c"
    by (auto simp: scalar_def high_surrogate_def low_surrogate_def)
  with True show ?thesis by (cases us) (simp_all add: utf16_char_def)
next
  case False
  assume "scalar c"
  define a b where "a = (c - 0x10000) div 0x400" and "b = (c - 0x10000) mod 0x400"
  have "c - 0x10000 < 0x100000" using \<open>scalar c\<close> unfolding scalar_def by linarith
  then have ab: "a < 0x400" "b < 0x400" by (simp_all add: a_def b_def div_less_iff_less_mult)
  then have surrogates: "high_surrogate (0xD800 + a)" "low_surrogate (0xDC00 + b)"
    by (simp_all add: high_surrogate_def low_surrogate_def)
  have "c - 0x10000 = a * 0x400 + b" by (simp add: a_def b_def)
  then have "0x10000 + a * 0x400 + b = c" using False by linarith
  with surrogates False show ?thesis by (simp add: utf16_char_def a_def [symmetric] b_def [symmetric])
qed

lemma utf16_lossy_units: "nul_free s \<Longrightarrow> utf16_lossy (concat (map utf16_char s)) = s"
  by (induction s) (simp_all add: utf16_lossy_char)

lemma encode_units:
  assumes "nul_free s"
  shows "map unat (encode_utf16 s) = concat (map utf16_char s)" and "0 \<notin> set (encode_utf16 s)"
proof -
  have u: "0 < u \<and> u < 2 ^ 16" if "u \<in> set (concat (map utf16_char s))" for u
    using assms that utf16_char_units by (auto simp: nul_free_def list_all_iff)
  then have "map (\<lambda>u. unat (of_nat u :: u16)) (concat (map utf16_char s)) = concat (map utf16_char s)"
    by (intro map_idI) (auto simp: unat_of_nat)
  then show "map unat (encode_utf16 s) = concat (map utf16_char s)"
    by (simp add: encode_utf16_def comp_def)
  then show "0 \<notin> set (encode_utf16 s)"
    using u by (metis image_eqI less_irrefl list.set_map unat_0)
qed

lemma wide_reads_back: "nul_free s \<Longrightarrow> wide_to_string (Some (wide s @ junk)) = Some s"
proof -
  assume s: "nul_free s"
  have "takeWhile (\<lambda>u. u \<noteq> 0) (encode_utf16 s @ 0 # junk) = encode_utf16 s"
    using encode_units(2) [OF s] by (subst takeWhile_append2) auto
  then have "wide_to_string (Some (wide s @ junk)) = Some (utf16_lossy (map unat (encode_utf16 s)))"
    by (simp add: wide_def wide_to_string_def from_utf16_lossy_def)
  then show ?thesis by (simp only: encode_units(1) [OF s] utf16_lossy_units [OF s])
qed

interpretation wide_codec: codec wide "\<lambda>us. wide_to_string (Some us)" nul_free
  proof
  fix s assume "nul_free s"
  then show "wide_to_string (Some (wide s)) = Some s"
    using wide_reads_back [of s "[]"] by (simp only: append_Nil2)
qed

end
