(* ===== verification/Win_Security.thy ===== *)
theory Win_Security
  imports Wide Authz
begin

text \<open>
  \<open>daemon/src/winauth.rs\<close> and \<open>daemon/src/winacl.rs\<close>: who is on the other end of a named pipe, and
  locking a file down. What the Windows calls answer is an input; what is done to the thread, to
  handles and to the file is a trace. An access list is a text in Windows' own language (SDDL),
  which \<open>trustees\<close> reads back.
\<close>

section \<open>Who is calling: \<open>winauth.rs\<close>\<close>

record pipe_client =
  pc_sid :: rstr
  pc_account :: "rstr option"
  pc_elevated :: bool

text \<open>
  What Windows says of one token. A field is asked for twice, for its size and then for its
  contents; \<open>tv_user\<close> and \<open>tv_elevation\<close> are the size and what the second call gives, if it works.
  \<open>tv_sid\<close> is the memory of the identifier's text, if it can be converted; an account is looked up
  the same way, by the lengths of its name and domain and then by their characters.
\<close>

record token_view =
  tv_user :: "u32 \<times> unit option"
  tv_elevation :: "u32 \<times> u32 option"
  tv_sid :: "u16 list option"
  tv_account_sizes :: "u32 \<times> u32"
  tv_account :: "(u16 list \<times> u16 list) option"

text \<open>The buffer is made of 64-bit words.\<close>

definition buffer_words :: "u32 \<Rightarrow> nat" where
  "buffer_words needed = (unat needed + 7) div 8"

definition token_information :: "u32 \<times> 'a option \<Rightarrow> 'a option" where
  "token_information answer = (case answer of (needed, contents) \<Rightarrow> if needed = 0 then None else contents)"

definition sid_string :: "token_view \<Rightarrow> rstr option" where
  "sid_string tv = (case tv_sid tv of None \<Rightarrow> None | Some memory \<Rightarrow> wide_to_string (Some memory))"

definition account_name :: "token_view \<Rightarrow> rstr option" where
  "account_name tv =
     (if fst (tv_account_sizes tv) = 0 then None
      else case tv_account tv of
        None \<Rightarrow> None
      | Some (name, domain) \<Rightarrow>
          let name = from_utf16_lossy name; domain = from_utf16_lossy domain in
          Some (if domain = [] then name else domain @ [92] @ name))"

definition describe_token :: "token_view \<Rightarrow> pipe_client option" where
  "describe_token tv =
     (case token_information (tv_user tv) of
        None \<Rightarrow> None
      | Some _ \<Rightarrow>
      case token_information (tv_elevation tv) of
        None \<Rightarrow> None
      | Some token_is_elevated \<Rightarrow>
      case sid_string tv of
        None \<Rightarrow> None
      | Some s \<Rightarrow>
          Some \<lparr>pc_sid = s, pc_account = account_name tv, pc_elevated = (token_is_elevated \<noteq> 0)\<rparr>)"

datatype win_effect = Impersonate | OpenToken | CloseToken | Revert | RevertFailed

text \<open>The token is opened as the client; an anonymous client has none to open.\<close>

definition read_impersonated_token :: "token_view option \<Rightarrow> pipe_client option \<times> win_effect list" where
  "read_impersonated_token token =
     (case token of
        None \<Rightarrow> (None, [])
      | Some tv \<Rightarrow> (describe_token tv, [OpenToken, CloseToken]))"

definition identify :: "bool \<Rightarrow> token_view option \<Rightarrow> bool \<Rightarrow> pipe_client option \<times> win_effect list" where
  "identify impersonates token reverts =
     (if \<not> impersonates then (None, [])
      else case read_impersonated_token token of
        (client, fx) \<Rightarrow>
          if \<not> reverts then (None, [Impersonate] @ fx @ [RevertFailed])
          else (client, [Impersonate] @ fx @ [Revert]))"

definition current_process :: "token_view option \<Rightarrow> pipe_client option \<times> win_effect list" where
  "current_process token =
     (case token of
        None \<Rightarrow> (None, [])
      | Some tv \<Rightarrow> (describe_token tv, [OpenToken, CloseToken]))"

text \<open>As \<open>authz::Caller::of\<close> takes it.\<close>

definition pipe_credentials :: "pipe_client option \<Rightarrow> credentials" where
  "pipe_credentials client = WindowsPeer (map_option (\<lambda>c. (pc_sid c, pc_account c, pc_elevated c)) client)"

section \<open>Locking a file down: \<open>winacl.rs\<close>\<close>

definition LOCAL_SYSTEM :: rstr where "LOCAL_SYSTEM = lit ''S-1-5-18''"

definition is_sid :: "rstr \<Rightarrow> bool" where
  "is_sid text \<longleftrightarrow>
     take 4 text = lit ''S-1-'' \<and> blen text \<le> 184 \<and>
     list_all (\<lambda>c. is_ascii_digit c \<or> c = 83 \<or> c = 45) text"

definition access_list :: "pipe_client option \<Rightarrow> rstr" where
  "access_list me =
     lit ''D:P(A;;FA;;;SY)(A;;FA;;;BA)'' @
     (case me of
        None \<Rightarrow> []
      | Some c \<Rightarrow>
          if pc_sid c \<noteq> LOCAL_SYSTEM \<and> is_sid (pc_sid c)
          then lit ''(A;;FA;;;'' @ pc_sid c @ lit '')'' else [])"

datatype acl_error = NotBuilt rstr | NotReadBack rstr | CameBackEmpty | NotApplied u32

text \<open>
  What the calls answer: building the descriptor, reading the list back out of it (an error, or
  whether it is present), and setting it on the file.
\<close>

record acl_api =
  aa_build :: "rstr option"
  aa_dacl :: "(rstr, bool) result"
  aa_set :: u32

datatype acl_effect = Built "u16 list" | SetOn rstr | FreedDescriptor

definition set_dacl :: "acl_api \<Rightarrow> rstr \<Rightarrow> (acl_error, unit) result \<times> acl_effect list" where
  "set_dacl api path =
     (case aa_dacl api of
        Inl e \<Rightarrow> (Inl (NotReadBack e), [])
      | Inr present \<Rightarrow>
          if \<not> present then (Inl CameBackEmpty, [])
          else if aa_set api = 0 then (Inr (), [SetOn path])
          else (Inl (NotApplied (aa_set api)), []))"

definition apply_acl :: "acl_api \<Rightarrow> rstr \<Rightarrow> rstr \<Rightarrow> (acl_error, unit) result \<times> acl_effect list" where
  "apply_acl api path sddl =
     (case aa_build api of
        Some e \<Rightarrow> (Inl (NotBuilt e), [])
      | None \<Rightarrow>
          (case set_dacl api path of (res, fx) \<Rightarrow> (res, [Built (wide sddl)] @ fx @ [FreedDescriptor])))"

definition restrict_to_administrators ::
    "token_view option \<Rightarrow> acl_api \<Rightarrow> rstr \<Rightarrow> (acl_error, unit) result \<times> acl_effect list" where
  "restrict_to_administrators token api path = apply_acl api path (access_list (fst (current_process token)))"

lemmas win_security_evals [evals] = buffer_words_def token_information_def sid_string_def account_name_def
  describe_token_def read_impersonated_token_def identify_def current_process_def pipe_credentials_def
  LOCAL_SYSTEM_def is_sid_def access_list_def set_dacl_def apply_acl_def restrict_to_administrators_def

section \<open>What an access list says\<close>

text \<open>
  The entries of a list are in parentheses; an entry has six fields, the kind, flags, rights, two
  object identifiers and the account. A \<open>P\<close> behind the colon cuts the list off from the one of the
  directory.
\<close>

fun fields :: "rchar \<Rightarrow> rstr \<Rightarrow> rstr list" where
  "fields c [] = [[]]"
| "fields c (x # s) =
     (if x = c then [] # fields c s
      else case fields c s of f # fs \<Rightarrow> (x # f) # fs | [] \<Rightarrow> [[x]])"

function entries :: "rstr \<Rightarrow> rstr list list option" where
  "entries [] = Some []"
| "entries (c # s) =
     (if c \<noteq> 40 then None
      else case split_once 41 s of
        None \<Rightarrow> None
      | Some (body, rest) \<Rightarrow> map_option ((#) (fields 59 body)) (entries rest))"
  by pat_completeness auto

lemma split_once_shorter: "split_once c s = Some (a, b) \<Longrightarrow> length b < length s"
  by (auto simp: split_once_Some)

termination entries
  by (relation "measure length") (auto dest: split_once_shorter)

definition protected_entries :: "rstr \<Rightarrow> rstr list list option" where
  "protected_entries sddl = (if take 3 sddl = lit ''D:P'' then entries (drop 3 sddl) else None)"

definition full_access :: "rstr \<Rightarrow> rstr list" where
  "full_access trustee = [lit ''A'', [], lit ''FA'', [], [], trustee]"

section \<open>Lemmas\<close>

lemma buffer_holds: "unat needed \<le> 8 * buffer_words needed"
  unfolding buffer_words_def by linarith

lemma fields_plain: "c \<notin> set s \<Longrightarrow> fields c s = [s]"
  by (induction s) auto

lemma fields_split: "c \<notin> set s \<Longrightarrow> fields c (s @ c # t) = s # fields c t"
  by (induction s) auto

lemma entry_of_account:
  assumes "41 \<notin> set trustee" and "59 \<notin> set trustee"
  shows "entries (lit ''(A;;FA;;;'' @ trustee @ lit '')'' @ rest) = map_option ((#) (full_access trustee)) (entries rest)"
proof -
  have "split_once 41 (lit ''A;;FA;;;'' @ trustee @ [41] @ rest) = Some (lit ''A;;FA;;;'' @ trustee, rest)"
    using assms(1) by (simp add: split_once_Some lit_def)
  moreover have "fields 59 (lit ''A;;FA;;;'' @ trustee) = full_access trustee"
    using assms(2) by (simp add: full_access_def lit_def fields_plain)
  ultimately show ?thesis by (simp add: lit_def)
qed

lemma is_sid_set: "is_sid s \<Longrightarrow> 41 \<notin> set s \<and> 59 \<notin> set s \<and> nul_free s"
  by (auto simp: is_sid_def list_all_iff is_ascii_digit_def nul_free_def scalar_def)

lemma nul_free_access_list: "nul_free (access_list me)"
  by (auto simp: access_list_def lit_def scalar_def is_sid_set split: option.splits)

lemma protected_entries_access_list:
  "protected_entries (access_list me) =
     Some ([full_access (lit ''SY''), full_access (lit ''BA'')] @
       (case me of
          None \<Rightarrow> []
        | Some c \<Rightarrow> if pc_sid c \<noteq> LOCAL_SYSTEM \<and> is_sid (pc_sid c) then [full_access (pc_sid c)] else []))"
proof -
  define own where "own = (case me of None \<Rightarrow> [] | Some c \<Rightarrow>
      if pc_sid c \<noteq> LOCAL_SYSTEM \<and> is_sid (pc_sid c) then lit ''(A;;FA;;;'' @ pc_sid c @ lit '')'' else [])"
  have "entries own = Some (case me of None \<Rightarrow> [] | Some c \<Rightarrow>
      if pc_sid c \<noteq> LOCAL_SYSTEM \<and> is_sid (pc_sid c) then [full_access (pc_sid c)] else [])"
    using entry_of_account [of _ "[]"] by (auto simp: own_def is_sid_set split: option.split)
  moreover have "take 3 (access_list me) = lit ''D:P''" "drop 3 (access_list me) =
      lit ''(A;;FA;;;'' @ lit ''SY'' @ lit '')'' @ lit ''(A;;FA;;;'' @ lit ''BA'' @ lit '')'' @ own"
    by (simp_all add: access_list_def own_def lit_def)
  moreover have "41 \<notin> set (lit ''SY'')" "59 \<notin> set (lit ''SY'')" "41 \<notin> set (lit ''BA'')" "59 \<notin> set (lit ''BA'')"
    by (simp_all add: lit_def)
  ultimately show ?thesis by (simp add: protected_entries_def entry_of_account)
qed

lemma apply_acl_effects:
  assumes "apply_acl api path sddl = (res, fx)"
  shows "fx = [] \<and> \<not> is_ok res \<or>
    (\<exists>run. fx = [Built (wide sddl)] @ run @ [FreedDescriptor] \<and> run \<in> {[], [SetOn path]} \<and> (is_ok res \<longleftrightarrow> run = [SetOn path]))"
proof (cases "aa_build api")
  case None
  obtain r run where s: "set_dacl api path = (r, run)" by force
  then have "run \<in> {[], [SetOn path]} \<and> (is_ok r \<longleftrightarrow> run = [SetOn path])"
    by (auto simp: set_dacl_def split: sum.splits if_splits)
  moreover have "res = r" "fx = [Built (wide sddl)] @ run @ [FreedDescriptor]" using assms None s by (simp_all add: apply_acl_def)
  ultimately show ?thesis by blast
qed (use assms in \<open>auto simp: apply_acl_def\<close>)

section \<open>Properties\<close>

text \<open>Whether the thread wears the client's identity after a trace, and how many tokens are open.\<close>

fun wearing :: "bool \<Rightarrow> win_effect list \<Rightarrow> bool" where
  "wearing w [] = w"
| "wearing w (f # fs) = wearing (case f of Impersonate \<Rightarrow> True | Revert \<Rightarrow> False | _ \<Rightarrow> w) fs"

fun open_tokens :: "int \<Rightarrow> win_effect list \<Rightarrow> int" where
  "open_tokens n [] = n"
| "open_tokens n (f # fs) = open_tokens (case f of OpenToken \<Rightarrow> n + 1 | CloseToken \<Rightarrow> n - 1 | _ \<Rightarrow> n) fs"


definition demo_token_view :: token_view where
  "demo_token_view = \<lparr>tv_user = (8, Some ()), tv_elevation = (4, Some 0), tv_sid = Some (map of_nat [83, 0]),
     tv_account_sizes = (0, 0), tv_account = None\<rparr>"


text \<open>
  The list put on a file of the daemon names SYSTEM, the Administrators and at most the
  account the daemon runs as, each with full access, and is cut off from the directory's list;
  whatever text the account's identifier is, it cannot add an entry of its own. A success means
  that this list was set on the file, and the descriptor is freed however it ends.
\<close>

theorem locked_files_name_nobody_else:
  assumes "restrict_to_administrators token api path = (res, fx)"
  shows "fx = [] \<and> \<not> is_ok res \<or>
    (\<exists>descriptor run own. fx = [Built descriptor] @ run @ [FreedDescriptor] \<and> run \<in> {[], [SetOn path]} \<and>
       (is_ok res \<longleftrightarrow> run = [SetOn path]) \<and>
       Option.bind (wide_to_string (Some descriptor)) protected_entries =
         Some ([full_access (lit ''SY''), full_access (lit ''BA'')] @ own) \<and>
       own \<in> {[], [full_access (pc_sid (the (fst (current_process token))))]})"
proof -
  let ?me = "fst (current_process token)"
  have built: "wide_to_string (Some (wide (access_list ?me))) = Some (access_list ?me)"
    using wide_reads_back [OF nul_free_access_list, of ?me "[]"] by (simp only: append_Nil2)
  obtain own where own: "Option.bind (wide_to_string (Some (wide (access_list ?me)))) protected_entries =
      Some ([full_access (lit ''SY''), full_access (lit ''BA'')] @ own)" "own \<in> {[], [full_access (pc_sid (the ?me))]}"
    unfolding built by (cases ?me) (auto simp: protected_entries_access_list split: if_splits)
  note apply_acl_effects [OF assms [unfolded restrict_to_administrators_def]]
  then show ?thesis
  proof
    assume "\<exists>run. fx = [Built (wide (access_list ?me))] @ run @ [FreedDescriptor] \<and>
      run \<in> {[], [SetOn path]} \<and> (is_ok res \<longleftrightarrow> run = [SetOn path])"
    then obtain run where "fx = [Built (wide (access_list ?me))] @ run @ [FreedDescriptor]"
      "run \<in> {[], [SetOn path]}" "is_ok res \<longleftrightarrow> run = [SetOn path]" by (elim exE conjE)
    with own show ?thesis by (intro disjI2 exI conjI)
  qed (rule disjI1)
qed

theorem locked_files_name_nobody_else_witness:
  "\<exists>descriptor own. snd (restrict_to_administrators (Some demo_token_view) \<lparr>aa_build = None, aa_dacl = Inr True, aa_set = 0\<rparr>
      (lit ''key'')) = [Built descriptor, SetOn (lit ''key''), FreedDescriptor] \<and>
    Option.bind (wide_to_string (Some descriptor)) protected_entries =
      Some ([full_access (lit ''SY''), full_access (lit ''BA'')] @ own)"
proof -
  let ?api = "\<lparr>aa_build = None, aa_dacl = Inr True, aa_set = 0\<rparr> :: acl_api"
  obtain res fx where r: "restrict_to_administrators (Some demo_token_view) ?api (lit ''key'') = (res, fx)" by force
  moreover from this have "is_ok res"
    by (auto simp: restrict_to_administrators_def apply_acl_def set_dacl_def)
  ultimately show ?thesis using locked_files_name_nobody_else [OF r] by auto
qed

end
