(* ===== verification/Identity.thy ===== *)
theory Identity
  imports Win_Security
begin

text \<open>
  \<open>daemon/src/identity.rs\<close>: the file that holds the secret key. The files of the machine are a map
  from paths; a file is its bytes and whether others than its owner and the administrators are
  kept from reading it. What the environment and the file system answer, and the key drawn, are
  inputs; a write may stop anywhere. The key type is its 32 bytes.
\<close>

section \<open>The key file\<close>

record key_file =
  kf_bytes :: "u8 list"
  kf_private :: bool

type_synonym disk = "rstr \<rightharpoonup> key_file"

record identity_env =
  id_custom_path :: "rstr option"
  id_config_dir :: "rstr option"
  id_readable :: bool
  id_generated :: "u8 list"
  id_mkdir_error :: "rstr option"
  id_create_error :: "rstr option"
  id_restrict_error :: "acl_error option"
  id_write_error :: "(nat \<times> rstr) option"
  id_sync_error :: "rstr option"

datatype identity_error =
    NoConfigDir
  | WrongKeyLength
  | KeyDirNotCreated rstr
  | KeyFileExists
  | KeyFileNotOpened rstr
  | KeyNotRestricted acl_error
  | KeyNotWritten rstr
  | KeyNotSynced rstr

type_synonym joiner = "rstr \<Rightarrow> rstr \<Rightarrow> rstr"

definition key_path :: "joiner \<Rightarrow> identity_env \<Rightarrow> (identity_error, rstr) result" where
  "key_path join ie =
     (case id_custom_path ie of
        Some custom \<Rightarrow> Inr custom
      | None \<Rightarrow>
          (case id_config_dir ie of
             None \<Rightarrow> Inl NoConfigDir
           | Some dir \<Rightarrow> Inr (join (join dir (lit ''quix'')) (lit ''key''))))"

text \<open>
  The file is created empty, and only if there is none; on Unix its mode keeps others out, on
  Windows its access list is replaced before anything is written. A write that fails has written
  a beginning of the key.
\<close>

definition write_protected ::
    "bool \<Rightarrow> identity_env \<Rightarrow> rstr \<Rightarrow> u8 list \<Rightarrow> disk \<Rightarrow> (identity_error, unit) result \<times> disk" where
  "write_protected windows ie path key disk =
     (case disk path of
        Some _ \<Rightarrow> (Inl KeyFileExists, disk)
      | None \<Rightarrow>
      case id_create_error ie of
        Some e \<Rightarrow> (Inl (KeyFileNotOpened e), disk)
      | None \<Rightarrow>
      let disk = disk(path \<mapsto> \<lparr>kf_bytes = [], kf_private = \<not> windows\<rparr>) in
      case (if windows then id_restrict_error ie else None) of
        Some e \<Rightarrow> (Inl (KeyNotRestricted e), disk)
      | None \<Rightarrow>
      case id_write_error ie of
        Some (k, e) \<Rightarrow>
          (Inl (KeyNotWritten e), disk(path \<mapsto> \<lparr>kf_bytes = take k key, kf_private = True\<rparr>))
      | None \<Rightarrow>
      let disk = disk(path \<mapsto> \<lparr>kf_bytes = key, kf_private = True\<rparr>) in
      case id_sync_error ie of
        Some e \<Rightarrow> (Inl (KeyNotSynced e), disk)
      | None \<Rightarrow> (Inr (), disk))"

text \<open>A key that was there is locked down again on Windows, as far as that works.\<close>

definition load_or_create ::
    "joiner \<Rightarrow> bool \<Rightarrow> identity_env \<Rightarrow> disk \<Rightarrow> (identity_error, u8 list) result \<times> disk" where
  "load_or_create join windows ie disk =
     (case key_path join ie of
        Inl e \<Rightarrow> (Inl e, disk)
      | Inr path \<Rightarrow>
      case (if id_readable ie then disk path else None) of
        Some f \<Rightarrow>
          if length (kf_bytes f) \<noteq> 32 then (Inl WrongKeyLength, disk)
          else if windows \<and> id_restrict_error ie = None
          then (Inr (kf_bytes f), disk(path \<mapsto> f\<lparr>kf_private := True\<rparr>))
          else (Inr (kf_bytes f), disk)
      | None \<Rightarrow>
      case id_mkdir_error ie of
        Some e \<Rightarrow> (Inl (KeyDirNotCreated e), disk)
      | None \<Rightarrow>
      case write_protected windows ie path (id_generated ie) disk of
        (Inl e, disk) \<Rightarrow> (Inl e, disk)
      | (Inr _, disk) \<Rightarrow> (Inr (id_generated ie), disk))"

text \<open>One start of the daemon after another, on the same disk.\<close>

fun starts ::
    "joiner \<Rightarrow> bool \<Rightarrow> identity_env list \<Rightarrow> disk \<Rightarrow> (identity_error, u8 list) result list \<times> disk" where
  "starts join windows [] disk = ([], disk)"
| "starts join windows (ie # ies) disk =
     (case load_or_create join windows ie disk of
        (res, disk) \<Rightarrow> (case starts join windows ies disk of (rs, disk) \<Rightarrow> (res # rs, disk)))"

lemmas identity_evals [evals] = key_path_def write_protected_def load_or_create_def

section \<open>Lemmas\<close>

lemma load_or_create_other_paths:
  "load_or_create join windows ie disk = (res, disk') \<Longrightarrow> key_path join ie = Inr path \<Longrightarrow> q \<noteq> path \<Longrightarrow> disk' q = disk q"
  by (auto simp: load_or_create_def write_protected_def Let_def split: option.splits if_splits)

lemma load_or_create_no_path:
  "load_or_create join windows ie disk = (res, disk') \<Longrightarrow> key_path join ie = Inl e \<Longrightarrow> res = Inl e \<and> disk' = disk"
  by (simp add: load_or_create_def)

text \<open>A file that is there keeps its bytes, and is the only key the start can come up with.\<close>

lemma load_or_create_existing:
  assumes "load_or_create join windows ie disk = (res, disk')" and "key_path join ie = Inr path" and "disk path = Some f"
  shows "\<exists>f'. disk' path = Some f' \<and> kf_bytes f' = kf_bytes f \<and> (kf_private f \<longrightarrow> kf_private f')"
    and "res = Inr k \<Longrightarrow> k = kf_bytes f"
    and "id_readable ie \<Longrightarrow> length (kf_bytes f) = 32 \<Longrightarrow> res = Inr (kf_bytes f)"
    and "id_readable ie \<Longrightarrow> length (kf_bytes f) \<noteq> 32 \<Longrightarrow> res = Inl WrongKeyLength"
  using assms by (auto simp: load_or_create_def write_protected_def split: option.splits if_splits)

text \<open>A new file holds a beginning of the key drawn, out of the reach of others as soon as it holds anything.\<close>

definition safe_key_file :: "u8 list \<Rightarrow> key_file \<Rightarrow> bool" where
  "safe_key_file key f \<longleftrightarrow> kf_bytes f = take (length (kf_bytes f)) key \<and> (kf_bytes f \<noteq> [] \<longrightarrow> kf_private f)"

lemma safe_key_file_beginning: "safe_key_file key \<lparr>kf_bytes = take k key, kf_private = True\<rparr>"
  by (simp add: safe_key_file_def min_def)

lemma write_protected_fresh:
  assumes "write_protected windows ie path key disk = (res, disk')" and "disk path = None"
  shows "disk' path = None \<and> \<not> is_ok res \<or> (\<exists>f. disk' path = Some f \<and> safe_key_file key f \<and> (is_ok res \<longrightarrow> kf_bytes f = key))"
proof (cases "id_create_error ie")
  case None
  note created = assms(2) None
  show ?thesis
  proof (cases "if windows then id_restrict_error ie else None")
    case None
    note restricted = created None
    show ?thesis
      using assms(1) restricted safe_key_file_beginning [of key] safe_key_file_beginning [of key "length key"]
      by (cases "id_write_error ie"; cases "id_sync_error ie") (auto simp: write_protected_def Let_def)
  qed (use assms(1) created in \<open>auto simp: write_protected_def Let_def safe_key_file_def\<close>)
qed (use assms in \<open>auto simp: write_protected_def\<close>)

lemma load_or_create_fresh:
  assumes "load_or_create join windows ie disk = (res, disk')" and "key_path join ie = Inr path" and "disk path = None"
  shows "disk' path = None \<and> \<not> is_ok res \<or>
      (\<exists>f. disk' path = Some f \<and> safe_key_file (id_generated ie) f \<and> (is_ok res \<longrightarrow> kf_bytes f = id_generated ie))"
    and "res = Inr k \<Longrightarrow> k = id_generated ie"
proof -
  obtain r d where w: "write_protected windows ie path (id_generated ie) disk = (r, d)" by force
  have none: "(if id_readable ie then disk path else None) = None" using assms(3) by simp
  show "disk' path = None \<and> \<not> is_ok res \<or>
      (\<exists>f. disk' path = Some f \<and> safe_key_file (id_generated ie) f \<and> (is_ok res \<longrightarrow> kf_bytes f = id_generated ie))"
    and "res = Inr k \<Longrightarrow> k = id_generated ie"
    using assms write_protected_fresh [OF w assms(3)]
    by (cases "id_mkdir_error ie"; cases r; auto simp: load_or_create_def w none)+
qed

lemma load_or_create_after:
  assumes "load_or_create join windows ie disk = (Inr k, disk')" and "key_path join ie = Inr path"
  shows "\<exists>f. disk' path = Some f \<and> kf_bytes f = k"
proof (cases "disk path")
  case None
  then show ?thesis using load_or_create_fresh [OF assms None] by auto
next
  case (Some f)
  then show ?thesis using load_or_create_existing(1,2) [OF assms Some] by auto
qed

lemma starts_kept:
  assumes "starts join windows ies disk = (rs, disk')" and "list_all (\<lambda>ie. key_path join ie = Inr path) ies"
    and "disk path = Some f"
  shows "\<exists>f'. disk' path = Some f' \<and> kf_bytes f' = kf_bytes f \<and> (kf_private f \<longrightarrow> kf_private f')"
  using assms
proof (induction ies arbitrary: disk rs f)
  case (Cons ie ies)
  obtain r d where l: "load_or_create join windows ie disk = (r, d)" by force
  obtain rs' where s: "starts join windows ies d = (rs', disk')"
    using Cons.prems(1) l by (cases "starts join windows ies d") simp
  obtain f1 where f1: "d path = Some f1" "kf_bytes f1 = kf_bytes f" "kf_private f \<longrightarrow> kf_private f1"
    using load_or_create_existing(1) [OF l _ Cons.prems(3)] Cons.prems(2) by auto
  then show ?case using Cons.IH [OF s _ f1(1)] Cons.prems(2) by auto
qed simp

lemma starts_keys:
  assumes "starts join windows ies disk = (rs, disk')" and "list_all (\<lambda>ie. key_path join ie = Inr path) ies"
    and "Inr k \<in> set rs"
  shows "\<exists>f. disk' path = Some f \<and> kf_bytes f = k"
  using assms
proof (induction ies arbitrary: disk rs)
  case (Cons ie ies)
  obtain r d where l: "load_or_create join windows ie disk = (r, d)" by force
  obtain rs' where s: "starts join windows ies d = (rs', disk')"
    using Cons.prems(1) l by (cases "starts join windows ies d") simp
  have rs: "rs = r # rs'" and p: "key_path join ie = Inr path" "list_all (\<lambda>ie. key_path join ie = Inr path) ies"
    using Cons.prems l s by simp_all
  show ?case
  proof (cases "r = Inr k")
    case True
    then obtain f where "d path = Some f" "kf_bytes f = k" using load_or_create_after [OF _ p(1)] l by blast
    then show ?thesis using starts_kept [OF s p(2)] by auto
  next
    case False
    then show ?thesis using Cons.IH [OF s p(2)] Cons.prems(3) rs by simp
  qed
qed simp

lemma starts_private:
  assumes "starts join windows ies disk = (rs, disk')" and "list_all (\<lambda>ie. key_path join ie = Inr path) ies"
    and "disk path = None" and "disk' path = Some f'" and "kf_bytes f' \<noteq> []"
  shows "kf_private f'"
  using assms
proof (induction ies arbitrary: disk rs)
  case (Cons ie ies)
  obtain r d where l: "load_or_create join windows ie disk = (r, d)" by force
  obtain rs' where s: "starts join windows ies d = (rs', disk')"
    using Cons.prems(1) l by (cases "starts join windows ies d") simp
  have p: "key_path join ie = Inr path" "list_all (\<lambda>ie. key_path join ie = Inr path) ies" using Cons.prems by simp_all
  show ?case
  proof (cases "d path")
    case None
    then show ?thesis using Cons.IH [OF s p(2)] Cons.prems by simp
  next
    case (Some f)
    then have "kf_bytes f \<noteq> [] \<longrightarrow> kf_private f"
      using load_or_create_fresh(1) [OF l p(1) Cons.prems(3)] by (auto simp: safe_key_file_def)
    then show ?thesis using starts_kept [OF s p(2) Some] Cons.prems(4,5) by auto
  qed
qed simp

lemma starts_other_paths:
  "starts join windows ies disk = (rs, disk') \<Longrightarrow> list_all (\<lambda>ie. key_path join ie = Inr path) ies \<Longrightarrow>
   q \<noteq> path \<Longrightarrow> disk' q = disk q"
  by (induction ies arbitrary: disk rs) (auto simp: load_or_create_other_paths split: prod.splits)

text \<open>
  A start that is cut off while it writes the key leaves a file no later start can use: each of
  them fails until someone removes it.
\<close>

lemma cut_off_write_blocks:
  assumes "key_path join ie = Inr path" and "disk path = None" and "id_mkdir_error ie = None" and "id_create_error ie = None"
    and "id_restrict_error ie = None" and "id_write_error ie = Some (k, e)" and "k < 32"
    and "load_or_create join windows ie disk = (res, disk')"
    and "key_path join later = Inr path" and "id_readable later"
  shows "res = Inl (KeyNotWritten e)" and "load_or_create join windows later disk' = (Inl WrongKeyLength, disk')"
proof -
  have d: "res = Inl (KeyNotWritten e)" "disk' = disk(path \<mapsto> \<lparr>kf_bytes = take k (id_generated ie), kf_private = True\<rparr>)"
    using assms(1-6,8) by (auto simp: load_or_create_def write_protected_def Let_def split: if_splits)
  then show "res = Inl (KeyNotWritten e)" by simp
  have "min (length (id_generated ie)) k \<noteq> 32" using assms(7) by linarith
  then show "load_or_create join windows later disk' = (Inl WrongKeyLength, disk')"
    using assms(9,10) d(2) by (simp add: load_or_create_def)
qed

section \<open>Properties\<close>

text \<open>
  C20: A node keeps its identity. However many times the daemon starts, and whatever fails while
  it does, the key file is never overwritten: its bytes, once it is there, stay, and every start
  that gets a key gets the same one. A file these starts created was never readable by others
  while it held any part of the key, and no other file is touched.
\<close>

theorem identity_is_kept:
  assumes "starts join windows ies disk = (rs, disk')" and "list_all (\<lambda>ie. key_path join ie = Inr path) ies"
  shows "(\<forall>k \<in> {k. Inr k \<in> set rs}. \<forall>k' \<in> {k. Inr k \<in> set rs}. k = k') \<and>
    (\<forall>k. Inr k \<in> set rs \<longrightarrow> (\<exists>f. disk' path = Some f \<and> kf_bytes f = k)) \<and>
    (\<forall>f. disk path = Some f \<longrightarrow> (\<exists>f'. disk' path = Some f' \<and> kf_bytes f' = kf_bytes f)) \<and>
    (\<forall>f. disk path = None \<and> disk' path = Some f \<and> kf_bytes f \<noteq> [] \<longrightarrow> kf_private f) \<and>
    (\<forall>q. q \<noteq> path \<longrightarrow> disk' q = disk q)"
proof -
  have kept: "Inr k \<in> set rs \<Longrightarrow> \<exists>f. disk' path = Some f \<and> kf_bytes f = k" for k by (rule starts_keys [OF assms])
  have "k = k'" if "Inr k \<in> set rs" "Inr k' \<in> set rs" for k k' using kept [OF that(1)] kept [OF that(2)] by auto
  then show ?thesis
    using kept starts_kept [OF assms] starts_private [OF assms] starts_other_paths [OF assms] by blast
qed

definition demo_identity :: "u8 \<Rightarrow> identity_env" where
  "demo_identity b = \<lparr>id_custom_path = Some (lit ''key''), id_config_dir = None, id_readable = True,
     id_generated = replicate 32 b, id_mkdir_error = None, id_create_error = None, id_restrict_error = None,
     id_write_error = None, id_sync_error = None\<rparr>"

theorem identity_is_kept_witness:
  "\<exists>rs disk' f. starts (\<lambda>a b. a @ b) False [demo_identity 1, demo_identity 2] Map.empty = (rs, disk') \<and>
     Inr (replicate 32 1) \<in> set rs \<and> disk' (lit ''key'') = Some f \<and> kf_bytes f = replicate 32 1 \<and> kf_private f"
proof -
  let ?j = "\<lambda>a b. a @ b :: rstr" and ?ies = "[demo_identity 1, demo_identity 2]"
  have p: "list_all (\<lambda>ie. key_path ?j ie = Inr (lit ''key'')) ?ies" by (simp add: demo_identity_def key_path_def)
  obtain rs disk' where r: "starts ?j False ?ies Map.empty = (rs, disk')" by force
  then have k: "Inr (replicate 32 1) \<in> set rs"
    by (auto simp: demo_identity_def load_or_create_def key_path_def write_protected_def Let_def)
  then obtain f where f: "disk' (lit ''key'') = Some f" "kf_bytes f = replicate 32 1"
    using identity_is_kept [OF r p] by blast
  moreover have "kf_private f" using identity_is_kept [OF r p] f by simp
  ultimately show ?thesis using r k by blast
qed

end
