(* ===== verification/Dns.thy ===== *)
theory Dns
  imports Node
begin

text \<open>
  \<open>daemon/src/dns.rs\<close>: the resolver of the zone. The wire format of a DNS message is a library's,
  a parameter here; what is modelled is the message it parses to, the names that are answered
  for, and the reply. Sockets, binding and the probes are inputs.
\<close>

section \<open>Addresses and constants\<close>

type_synonym socket_addr = "ipaddr \<times> nat"

definition ZONE_PORT :: "bool \<Rightarrow> nat" where
  "ZONE_PORT windows = (if windows then 53 else 5354)"

definition BIND_ATTEMPTS :: nat where "BIND_ATTEMPTS = 10"
definition PROBE_ATTEMPTS :: nat where "PROBE_ATTEMPTS = 3"
definition PROBE_NAME :: rstr where "PROBE_NAME = lit ''probe''"
definition PROBE_ID :: u16 where "PROBE_ID = 0x9117"
definition TTL :: nat where "TTL = 30"
definition MAX_PACKET :: nat where "MAX_PACKET = 512"

section \<open>Messages\<close>

datatype qtype = QA | QAAAA | QOther nat

record question =
  q_name :: rstr
  q_type :: qtype
  q_class :: nat
  q_unicast :: bool

record query =
  qy_id :: u16
  qy_recursion :: bool
  qy_authoritative :: bool
  qy_questions :: "question list"

datatype rdata = RDataA ipv4 | RDataAAAA ipv6

record resource_record =
  rr_name :: rstr
  rr_ttl :: nat
  rr_data :: rdata

record reply =
  rp_id :: u16
  rp_authoritative :: bool
  rp_recursion :: bool
  rp_questions :: "question list"
  rp_answers :: "resource_record list"
  rp_name_error :: bool

section \<open>Names\<close>

text \<open>One name this node answers for.\<close>

type_synonym entry = "rstr \<times> ipv4 \<times> ipv6"

definition host_in_zone :: "rstr \<Rightarrow> rstr option \<Rightarrow> rstr option" where
  "host_in_zone qname network =
     (let name = ascii_lower (trim_end_matches (\<lambda>c. c = 46) qname) in
      case strip_suffix ([46] @ ZONE) name of
        None \<Rightarrow> None
      | Some inner \<Rightarrow>
          (case split_once 46 inner of
             Some (host, rest) \<Rightarrow> if host \<noteq> [] \<and> Some rest = network then Some host else None
           | None \<Rightarrow> if inner \<noteq> [] then Some inner else None))"

definition resolvable :: "externs \<Rightarrow> node \<Rightarrow> entry list" where
  "resolvable x n =
     concat (map (\<lambda>(i, v4, v6).
       (fallback i, v4, v6) #
       (case map_of (hostnames n) i of Some h \<Rightarrow> [(h, v4, v6)] | None \<Rightarrow> [])) (all_addrs x n))"

section \<open>Answering\<close>

definition answer_question ::
    "entry list \<Rightarrow> rstr option \<Rightarrow> question \<Rightarrow> bool \<times> reply \<Rightarrow> bool \<times> reply" where
  "answer_question peers network q st =
     (case st of (found, reply) \<Rightarrow>
        let reply = reply\<lparr>rp_questions := rp_questions reply @ [q]\<rparr> in
        case host_in_zone (q_name q) network of
          None \<Rightarrow> (found, reply)
        | Some lbl \<Rightarrow>
            (case List.find (\<lambda>(name, _, _). name = lbl) peers of
               None \<Rightarrow> (found, reply)
             | Some (_, v4, v6) \<Rightarrow>
                 (case q_type q of
                    QA \<Rightarrow> (True, reply\<lparr>rp_answers := rp_answers reply @
                        [\<lparr>rr_name = q_name q, rr_ttl = TTL, rr_data = RDataA v4\<rparr>]\<rparr>)
                  | QAAAA \<Rightarrow> (True, reply\<lparr>rp_answers := rp_answers reply @
                        [\<lparr>rr_name = q_name q, rr_ttl = TTL, rr_data = RDataAAAA v6\<rparr>]\<rparr>)
                  | QOther _ \<Rightarrow> (True, reply))))"

definition answer_query :: "query \<Rightarrow> entry list \<Rightarrow> rstr option \<Rightarrow> reply" where
  "answer_query query peers network =
     (let reply = \<lparr>rp_id = qy_id query, rp_authoritative = True, rp_recursion = qy_recursion query,
                   rp_questions = [], rp_answers = [], rp_name_error = False\<rparr>
      in case fold (answer_question peers network) (qy_questions query) (False, reply) of
           (found, reply) \<Rightarrow> if found then reply else reply\<lparr>rp_name_error := True\<rparr>)"

definition answer ::
    "(u8 list \<Rightarrow> query option) \<Rightarrow> (reply \<Rightarrow> u8 list option) \<Rightarrow> u8 list \<Rightarrow> entry list \<Rightarrow> rstr option \<Rightarrow> u8 list option" where
  "answer parse build request peers network =
     (case parse request of None \<Rightarrow> None | Some query \<Rightarrow> build (answer_query query peers network))"

text \<open>
  One turn of \<open>answer_loop\<close>: nothing is sent when the read failed or the request was no message.
  A datagram longer than the buffer is cut off.
\<close>

definition answer_turn ::
    "externs \<Rightarrow> (u8 list \<Rightarrow> query option) \<Rightarrow> (reply \<Rightarrow> u8 list option) \<Rightarrow> (u8 list \<times> socket_addr) option \<Rightarrow> node \<Rightarrow>
     (u8 list \<times> socket_addr) option" where
  "answer_turn x parse build received n =
     (case received of
        None \<Rightarrow> None
      | Some (datagram, from) \<Rightarrow>
          map_option (\<lambda>reply. (reply, from))
            (answer parse build (take MAX_PACKET datagram) (resolvable x n)
              (map_option network_label (network_name (n_membership n)))))"

section \<open>Binding and probing\<close>

text \<open>\<open>binds k\<close>: whether the attempt numbered \<open>k\<close> succeeds. The attempt that did, if any.\<close>

fun bind_attempts :: "(nat \<Rightarrow> bool) \<Rightarrow> nat \<Rightarrow> nat \<Rightarrow> nat option" where
  "bind_attempts binds k 0 = None"
| "bind_attempts binds k (Suc left) = (if binds k then Some k else bind_attempts binds (Suc k) left)"

definition bind_with_retry :: "(nat \<Rightarrow> bool) \<Rightarrow> bool" where
  "bind_with_retry binds \<longleftrightarrow> bind_attempts binds 0 BIND_ATTEMPTS \<noteq> None"

text \<open>The candidates for the system resolver, IPv6 first; \<open>None\<close> when the loopback port is taken.\<close>

definition resolver_bind ::
    "externs \<Rightarrow> bool \<Rightarrow> bool \<Rightarrow> (socket_addr \<Rightarrow> nat \<Rightarrow> bool) \<Rightarrow> node \<Rightarrow> socket_addr list option" where
  "resolver_bind x windows testing_binds binds n =
     (if \<not> testing_binds then None
      else case addrs_of x (n_own n) of (v4, v6) \<Rightarrow>
        Some (filter (\<lambda>addr. bind_with_retry (binds addr))
          [(V6 v6, ZONE_PORT windows), (V4 v4, ZONE_PORT windows)]))"

definition probe_query :: query where
  "probe_query =
     \<lparr>qy_id = PROBE_ID, qy_recursion = False, qy_authoritative = False,
      qy_questions = [\<lparr>q_name = PROBE_NAME @ [46] @ ZONE, q_type = QAAAA, q_class = 1, q_unicast = False\<rparr>]\<rparr>"

text \<open>What came back within the timeout, parsed; anything else than a message is \<open>None\<close>.\<close>

definition probe_once :: "reply option \<Rightarrow> bool" where
  "probe_once reply =
     (case reply of None \<Rightarrow> False | Some r \<Rightarrow> rp_id r = PROBE_ID \<and> rp_authoritative r)"

definition dns_probe :: "(nat \<Rightarrow> reply option) \<Rightarrow> bool" where
  "dns_probe replies \<longleftrightarrow> list_ex (\<lambda>k. probe_once (replies k)) [0..<PROBE_ATTEMPTS]"

definition reachable_server :: "(socket_addr \<Rightarrow> nat \<Rightarrow> reply option) \<Rightarrow> socket_addr list \<Rightarrow> socket_addr option" where
  "reachable_server replies candidates = List.find (\<lambda>addr. dns_probe (replies addr)) candidates"

lemmas dns_evals [evals] = ZONE_PORT_def BIND_ATTEMPTS_def PROBE_ATTEMPTS_def PROBE_NAME_def PROBE_ID_def
  TTL_def MAX_PACKET_def host_in_zone_def resolvable_def answer_question_def answer_query_def answer_def
  answer_turn_def bind_with_retry_def resolver_bind_def probe_query_def probe_once_def dns_probe_def
  reachable_server_def

section \<open>What a name resolves to\<close>

text \<open>The reference: the entry of the label a name stands for.\<close>

definition resolve :: "entry list \<Rightarrow> rstr option \<Rightarrow> rstr \<Rightarrow> (ipv4 \<times> ipv6) option" where
  "resolve peers network name =
     (case host_in_zone name network of
        None \<Rightarrow> None
      | Some lbl \<Rightarrow> map_option snd (List.find (\<lambda>e. fst e = lbl) peers))"

definition answer_of :: "entry list \<Rightarrow> rstr option \<Rightarrow> question \<Rightarrow> resource_record option" where
  "answer_of peers network q =
     (case (resolve peers network (q_name q), q_type q) of
        (Some (v4, _), QA) \<Rightarrow> Some \<lparr>rr_name = q_name q, rr_ttl = 30, rr_data = RDataA v4\<rparr>
      | (Some (_, v6), QAAAA) \<Rightarrow> Some \<lparr>rr_name = q_name q, rr_ttl = 30, rr_data = RDataAAAA v6\<rparr>
      | _ \<Rightarrow> None)"

lemma answer_question_eq:
  "answer_question peers network q (found, r) =
     (found \<or> resolve peers network (q_name q) \<noteq> None,
      r\<lparr>rp_questions := rp_questions r @ [q],
        rp_answers := rp_answers r @ (case answer_of peers network q of Some a \<Rightarrow> [a] | None \<Rightarrow> [])\<rparr>)"
  by (auto simp: answer_question_def resolve_def answer_of_def TTL_def case_prod_unfold
      split: option.split qtype.split)

lemma answer_questions_eq:
  "fold (answer_question peers network) qs (found, r) =
     (found \<or> (\<exists>q \<in> set qs. resolve peers network (q_name q) \<noteq> None),
      r\<lparr>rp_questions := rp_questions r @ qs,
        rp_answers := rp_answers r @ List.map_filter (answer_of peers network) qs\<rparr>)"
  by (induction qs arbitrary: found r) (auto simp: answer_question_eq List.map_filter_simps split: option.split)

section \<open>The names of a member\<close>

lemma zone_label_parts: "46 \<notin> set ZONE" "ZONE \<noteq> []"
  by (simp_all add: ZONE_def lit_def)

lemma host_flat:
  assumes "46 \<notin> set h" and "h \<noteq> []" and "ascii_lower (trim_end_matches (\<lambda>c. c = 46) q) = h @ [46] @ ZONE"
  shows "host_in_zone q network = Some h"
proof -
  have "strip_suffix ([46] @ ZONE) (h @ [46] @ ZONE) = Some h" by (rule strip_suffix_append)
  moreover have "split_once 46 h = None" using assms(1) by (simp add: split_once_None)
  ultimately show ?thesis using assms(2) by (simp add: host_in_zone_def Let_def assms(3))
qed

lemma host_qualified:
  assumes "46 \<notin> set h" and "h \<noteq> []"
    and "ascii_lower (trim_end_matches (\<lambda>c. c = 46) q) = h @ [46] @ w @ [46] @ ZONE"
  shows "host_in_zone q network = (if network = Some w then Some h else None)"
proof -
  have "strip_suffix ([46] @ ZONE) ((h @ [46] @ w) @ [46] @ ZONE) = Some (h @ [46] @ w)"
    by (rule strip_suffix_append)
  moreover have "split_once 46 (h @ 46 # w) = Some (h, w)" using assms(1) by (simp add: split_once_Some)
  ultimately show ?thesis using assms(2) by (auto simp: host_in_zone_def Let_def assms(3))
qed

lemma fold_update_lookup:
  "distinct (map fst kvs) \<Longrightarrow>
   map_of (fold (\<lambda>(k, v). AList.update k v) kvs al) k = (case map_of kvs k of Some v \<Rightarrow> Some v | None \<Rightarrow> map_of al k)"
proof (induction kvs arbitrary: al)
  case (Cons kv kvs)
  obtain k' v' where kv: "kv = (k', v')" by force
  have "map_of kvs k' = None" using Cons.prems kv by (simp add: map_of_eq_None_iff)
  with Cons kv show ?case by (simp add: map_of_aupdate split: option.split)
qed simp

text \<open>The hostname table is the roster's: every member under its own id.\<close>

lemma named_pairs:
  "set (List.map_filter (\<lambda>p. map_option (\<lambda>h. (mid p, h)) (hostname p)) ps) = {(mid p, h) |p h. p \<in> set ps \<and> hostname p = Some h}"
  by (auto simp: set_map_filter)

lemma named_keys_distinct:
  assumes "distinct (map mid ps)"
  shows "keys_distinct (List.map_filter (\<lambda>p. map_option (\<lambda>h. (mid p, h)) (hostname p)) ps)"
  using assms
proof (induction ps)
  case Nil
  then show ?case by (simp add: List.map_filter_simps)
next
  case (Cons p ps)
  have "mid p \<notin> fst ` set (List.map_filter (\<lambda>p. map_option (\<lambda>h. (mid p, h)) (hostname p)) ps)"
    using Cons.prems unfolding named_pairs by auto
  with Cons show ?case by (simp add: List.map_filter_simps split: option.split)
qed

lemma distinct_roster_ids: "roster_inv m \<Longrightarrow> distinct (map mid (roster m))"
proof -
  assume "roster_inv m"
  then have "distinct (map mid (members m))" by (simp add: roster_inv_def)
  moreover have "mset (map mid (roster m)) = mset (map mid (members m))" by (simp add: roster_def)
  ultimately show ?thesis by (metis mset_eq_imp_distinct_iff)
qed

lemma hostnames_lookup:
  assumes "roster_inv (n_membership n)" and "p \<in> set (members (n_membership n))"
  shows "map_of (hostnames n) (mid p) = hostname p"
proof -
  let ?kvs = "List.map_filter (\<lambda>p. map_option (\<lambda>h. (mid p, h)) (hostname p)) (roster (n_membership n))"
  have d: "distinct (map mid (roster (n_membership n)))" by (rule distinct_roster_ids [OF assms(1)])
  have k: "keys_distinct ?kvs" by (rule named_keys_distinct [OF d])
  have p: "p \<in> set (roster (n_membership n))" using assms(2) by simp
  have "q = p" if "q \<in> set (roster (n_membership n))" "mid q = mid p" for q
    using d p that by (simp add: distinct_map inj_on_def)
  then have "(mid p, h) \<in> set ?kvs \<longleftrightarrow> hostname p = Some h" for h
    using p unfolding named_pairs by auto
  then have "map_of ?kvs (mid p) = Some h \<longleftrightarrow> hostname p = Some h" for h
    using map_of_mem_iff [OF k, of "mid p" h] by simp
  then have "map_of ?kvs (mid p) = hostname p" by (cases "hostname p") (metis not_None_eq)+
  then show ?thesis using fold_update_lookup [OF k, of "[]" "mid p"] by (simp add: hostnames_def split: option.split)
qed

definition member_addrs :: "externs \<Rightarrow> member \<Rightarrow> ipv4 \<times> ipv6" where
  "member_addrs x p = virtual_addrs (sha256 x) (case id_parse x (mid p) of Some i \<Rightarrow> as_bytes i | None \<Rightarrow> [])"

lemma resolvable_eq:
  "resolvable x n = concat (map (\<lambda>p. map (\<lambda>h. (h, member_addrs x p))
     (fallback (mid p) # (case map_of (hostnames n) (mid p) of Some h \<Rightarrow> [h] | None \<Rightarrow> [])))
     (roster (n_membership n)))"
  unfolding resolvable_def all_addrs_def member_addrs_def [symmetric]
  by (rule arg_cong [of _ _ concat]) (simp add: case_prod_unfold split: option.split)

lemma set_resolvable:
  assumes "roster_inv (n_membership n)"
  shows "e \<in> set (resolvable x n) \<longleftrightarrow>
    (\<exists>p \<in> set (members (n_membership n)). snd e = member_addrs x p \<and> (fst e = fallback (mid p) \<or> hostname p = Some (fst e)))"
proof -
  have e: "e \<in> set (resolvable x n) \<longleftrightarrow>
      (\<exists>p \<in> set (members (n_membership n)). snd e = member_addrs x p \<and>
         (fst e = fallback (mid p) \<or> map_of (hostnames n) (mid p) = Some (fst e)))"
  proof -
    have "e \<in> set (map (\<lambda>h. (h, member_addrs x p))
        (fallback (mid p) # (case map_of (hostnames n) (mid p) of Some h \<Rightarrow> [h] | None \<Rightarrow> []))) \<longleftrightarrow>
        snd e = member_addrs x p \<and> (fst e = fallback (mid p) \<or> map_of (hostnames n) (mid p) = Some (fst e))" for p
      by (cases e; cases "map_of (hostnames n) (mid p)") auto
    then show ?thesis unfolding resolvable_eq set_concat set_map set_roster_sorted by simp
  qed
  show ?thesis unfolding e using hostnames_lookup [OF assms] by auto
qed

lemma find_all_same:
  assumes "x \<in> set xs" and "P x" and "\<And>y. y \<in> set xs \<Longrightarrow> P y \<Longrightarrow> f y = v"
  shows "map_option f (List.find P xs) = Some v"
proof (cases "List.find P xs")
  case None
  with assms(1,2) show ?thesis by (auto simp: find_None_iff')
next
  case (Some y)
  then have "y \<in> set xs \<and> P y" by (rule find_Some_mem)
  with Some assms(3) show ?thesis by simp
qed

lemma resolve_label:
  assumes "roster_inv (n_membership n)" and "unambiguous (n_membership n)" and "p \<in> set (members (n_membership n))"
    and "h = fallback (mid p) \<or> hostname p = Some h" and "host_in_zone q network = Some h"
  shows "resolve (resolvable x n) network q = Some (member_addrs x p)"
proof -
  have "(h, member_addrs x p) \<in> set (resolvable x n)"
    using set_resolvable [OF assms(1)] assms(3,4) by auto
  moreover have "snd e = member_addrs x p" if e: "e \<in> set (resolvable x n)" "fst e = h" for e
  proof -
    obtain p' where p': "p' \<in> set (members (n_membership n))" "snd e = member_addrs x p'"
      "fst e = fallback (mid p') \<or> hostname p' = Some (fst e)"
      using e(1) set_resolvable [OF assms(1)] by auto
    then have "h \<in> labels p \<inter> labels p'" using assms(4) e(2) by (auto simp: labels_def)
    then have "p' = p" using assms(2,3) p'(1) unfolding unambiguous_def by blast
    with p' show ?thesis by simp
  qed
  ultimately have "map_option snd (List.find (\<lambda>e. fst e = h) (resolvable x n)) = Some (member_addrs x p)"
    by (intro find_all_same [of "(h, member_addrs x p)"]) simp_all
  then show ?thesis by (simp add: resolve_def assms(5))
qed

lemma in_force_exact:
  assumes "node_inv x n" and "collision_free x (others x n)" and "i \<in> set (others x n)" and "a \<in> overlay x i"
  shows "route (n_peers n) a = Some i"
proof -
  have "routes (n_peers n) = routes_of x (remdups (others x n))"
    using node_invD(4) [OF assms(1)] by (simp add: in_force_def)
  then show ?thesis
    using routes_of_exact [of x "remdups (others x n)" a i] assms(2-4) by (simp add: route_def)
qed

section \<open>Properties\<close>


text \<open>
  C31: A name leads to the peer it names. In a node whose tables are in force, where no two
  members share a name or an address, every hostname or fallback of another member, in any
  case, with trailing dots, flat or under the network's own label, resolves to that member's
  overlay addresses, and packets to either of them are routed to it. Whatever else resolves
  gives the addresses of some member.
\<close>

theorem names_lead_to_their_peer:
  assumes "node_inv x n" and "unambiguous (n_membership n)" and "collision_free x (others x n)"
    and "p \<in> set (members (n_membership n))" and "id_parse x (mid p) = Some i" and "i \<noteq> n_own n"
    and "h = fallback (mid p) \<or> hostname p = Some h" and "h \<noteq> []" and "\<forall>c \<in> set h. hostname_char c"
    and "ascii_lower (trim_end_matches (\<lambda>c. c = 46) q) = h @ [46] @ ZONE \<or>
      (\<exists>w. network_name (n_membership n) = Some w \<and>
         ascii_lower (trim_end_matches (\<lambda>c. c = 46) q) = h @ [46] @ network_label w @ [46] @ ZONE)"
  shows "let network = map_option network_label (network_name (n_membership n)) in
    resolve (resolvable x n) network q = Some (addrs_of x i) \<and>
    route (n_peers n) (V4 (fst (addrs_of x i))) = Some i \<and> route (n_peers n) (V6 (snd (addrs_of x i))) = Some i \<and>
    (\<forall>q' a. resolve (resolvable x n) network q' = Some a \<longrightarrow>
       (\<exists>p' \<in> set (members (n_membership n)). a = member_addrs x p'))"
proof -
  let ?net = "map_option network_label (network_name (n_membership n))"
  have inv: "roster_inv (n_membership n)" by (rule node_invD(1) [OF assms(1)])
  have dot: "46 \<notin> set h" using assms(9) by (auto simp: hostname_char_def char_defs)
  have "host_in_zone q ?net = Some h"
    using assms(10) host_flat [OF dot assms(8), of q ?net] host_qualified [OF dot assms(8), of q _ ?net] by auto
  moreover have "member_addrs x p = addrs_of x i" by (simp add: member_addrs_def assms(5))
  ultimately have r: "resolve (resolvable x n) ?net q = Some (addrs_of x i)"
    using resolve_label [OF inv assms(2,4,7)] by simp
  have o: "i \<in> set (others x n)" using assms(4-6) by (auto simp: set_others)
  have a: "route (n_peers n) (V4 (fst (addrs_of x i))) = Some i" "route (n_peers n) (V6 (snd (addrs_of x i))) = Some i"
    by (rule in_force_exact [OF assms(1,3) o]; simp add: overlay_def)+
  have "\<exists>p' \<in> set (members (n_membership n)). a = member_addrs x p'"
    if "resolve (resolvable x n) ?net q' = Some a" for q' a
    using that set_resolvable [OF inv] by (auto simp: resolve_def dest!: find_Some_mem split: option.splits)
  with r a show ?thesis by (simp add: Let_def)
qed

section \<open>Witnesses\<close>

text \<open>A node that joined a network whose coordinator is called \<open>nas\<close>.\<close>

definition demo_named :: node where
  "demo_named = node_step plain_externs demo_start
     (NJoined demo_env (demo_id 3) (Some (lit ''Home'')) [\<lparr>mid = demo_id 3, hostname = Some (lit ''nas'')\<rparr>])"

lemma demo_id_eq: "demo_id k = replicate 32 (unat (of_nat k :: u8))"
  by (simp add: demo_id_def demo_key_def plain_text_def)

lemma demo_named_parts:
  "n_own demo_named = demo_key 1" "network_name (n_membership demo_named) = Some (lit ''Home'')"
  "members (n_membership demo_named) = [\<lparr>mid = demo_id 3, hostname = Some (lit ''nas'')\<rparr>, new_member (demo_id 1)]"
proof -
  have own: "n_own demo_start = demo_key 1" by (simp add: started_def frame_simps) (simp add: new_node_def)
  then show "n_own demo_named = demo_key 1"
    by (simp add: demo_named_def node_step_def state_set_joined_def save_then_refresh_def case_prod_unfold frame_simps)
  have "demo_id 3 \<noteq> demo_id 1" by (simp add: demo_id_eq)
  moreover have "own_str plain_externs demo_start = demo_id 1" by (simp only: own demo_id_def)
  then have m: "n_membership demo_named = set_joined (demo_id 3) (demo_id 1) (Some (lit ''Home''))
      [\<lparr>mid = demo_id 3, hostname = Some (lit ''nas'')\<rparr>] (n_membership demo_start)"
    by (simp add: demo_named_def node_step_def state_set_joined_def save_then_refresh_def case_prod_unfold
        frame_simps demo_env_def)
  ultimately show "members (n_membership demo_named) =
      [\<lparr>mid = demo_id 3, hostname = Some (lit ''nas'')\<rparr>, new_member (demo_id 1)]"
    by (simp add: set_joined_def apply_roster_def apply_member_def push_member_def is_member_def member_of_def
        List.map_filter_def new_member_def)
  show "network_name (n_membership demo_named) = Some (lit ''Home'')"
    unfolding m set_joined_def by (simp add: apply_roster_frame)
qed

lemma demo_named_inv: "node_inv plain_externs demo_named"
  unfolding demo_named_def
  by (rule node_step_inv [OF started_inv [OF roster_inv_default]]) (simp add: node_ok_def demo_env_def)

theorem names_lead_to_their_peer_witness:
  "resolve (resolvable plain_externs demo_named) (Some (lit ''home'')) (lit ''NAS.home.quix.'') =
     Some (addrs_of plain_externs (demo_key 3)) \<and>
   route (n_peers demo_named) (V6 (snd (addrs_of plain_externs (demo_key 3)))) = Some (demo_key 3)"
proof -
  have w: "network_label (lit ''Home'') = lit ''home''" by (simp add: evals Let_def)
  have p: "\<lparr>mid = demo_id 3, hostname = Some (lit ''nas'')\<rparr> \<in> set (members (n_membership demo_named))"
    by (simp add: demo_named_parts)
  have name: "lit ''nas'' \<noteq> replicate k c" if "k \<noteq> 3" for k and c :: nat
  proof
    assume "lit ''nas'' = replicate k c"
    then have "length (lit ''nas'') = k" by simp
    with that show False by (simp add: lit_def)
  qed
  have un: "unambiguous (n_membership demo_named)"
    using name [of 32] name [of 8]
    by (simp add: unambiguous_def demo_named_parts labels_def new_member_def demo_id_eq fallback_def FALLBACK_LEN_def)
  have keys: "demo_key 3 \<noteq> demo_key 1"
  proof -
    have "(3 :: u8) \<noteq> 1" by simp
    then show ?thesis by (simp add: demo_key_def)
  qed
  have "set (others plain_externs demo_named) \<subseteq> {demo_key 3}"
    using demo_id_parses [of 3] demo_id_parses [of 1]
    by (auto simp: set_others demo_named_parts new_member_def)
  then have cf: "collision_free plain_externs (others plain_externs demo_named)"
    unfolding collision_free_def by blast
  have q: "ascii_lower (trim_end_matches (\<lambda>c. c = 46) (lit ''NAS.home.quix.'')) =
      lit ''nas'' @ [46] @ network_label (lit ''Home'') @ [46] @ ZONE"
    unfolding w by (simp add: evals ZONE_def)
  have h: "lit ''nas'' \<noteq> []" "\<forall>c \<in> set (lit ''nas''). hostname_char c" by (simp_all add: evals)
  from names_lead_to_their_peer [OF demo_named_inv un cf p _ _ _ h, of "demo_key 3" "lit ''NAS.home.quix.''"]
  show ?thesis
    using q keys demo_id_parses [of 3] unfolding Let_def by (simp add: demo_named_parts w)
qed

end
