(* ===== verification/Registration.thy ===== *)
theory Registration
  imports Dns
begin

text \<open>
  \<open>daemon/src/registration.rs\<close>: having the system's resolver pointed at this node for the zone,
  trying again in the background until it works, and handing the zone back on shutdown. What a
  registration gives, probes and the moments a stop arrives are inputs; what the daemon asks of
  the system is a trace, which \<open>Zone_Rules\<close> carries out. Waits are in seconds.
\<close>

section \<open>What registering can fail with\<close>

text \<open>No system resolver to register with, and what to do about it; or a failure of this attempt.\<close>

datatype resolv_error = NoResolver rstr "rstr option" | Transient rstr

definition show_socket :: "socket_addr \<Rightarrow> rstr" where
  "show_socket s =
     (case s of
        (V4 v4, port) \<Rightarrow> show_ipv4 v4 @ [58] @ decimal port
      | (V6 v6, port) \<Rightarrow> [91] @ show_ipv6 v6 @ [93, 58] @ decimal port)"

section \<open>Waiting\<close>

definition FIRST_RETRY :: nat where "FIRST_RETRY = 2"
definition MAX_RETRY :: nat where "MAX_RETRY = 60"
definition STOP_LIMIT :: nat where "STOP_LIMIT = 10"

definition saturating_sub :: "u32 \<Rightarrow> u32 \<Rightarrow> u32" where
  "saturating_sub a b = (if a < b then 0 else a - b)"

definition saturating_add :: "u32 \<Rightarrow> u32 \<Rightarrow> u32" where
  "saturating_add a b = (if 2 ^ 32 \<le> unat a + unat b then - 1 else a + b)"

definition checked_shl :: "u32 \<Rightarrow> u32 \<Rightarrow> u32 option" where
  "checked_shl a k = (if unat k < 32 then Some (push_bit (unat k) a) else None)"

text \<open>Two seconds times a 32-bit factor is within a \<open>Duration\<close>, so the multiplication never fails.\<close>

definition delay :: "u32 \<Rightarrow> nat" where
  "delay retry =
     (let factor = (case checked_shl 1 (saturating_sub retry 1) of Some f \<Rightarrow> f | None \<Rightarrow> - 1)
      in min MAX_RETRY (FIRST_RETRY * unat factor))"

section \<open>Attempts\<close>

datatype failure = Unreachable | RegisterFailed resolv_error

text \<open>What the daemon did: asked the system to register a server, released the zone, told \<open>status\<close>.\<close>

datatype reg_effect = RegisterAt socket_addr | Released | Told dns_registration

text \<open>One try: the server found reachable, if any, and what registering it would give.\<close>

definition attempt ::
    "socket_addr option \<Rightarrow> (socket_addr \<Rightarrow> (resolv_error, unit) result) \<Rightarrow>
     (failure, socket_addr) result \<times> reg_effect list" where
  "attempt found register_at =
     (case found of
        None \<Rightarrow> (Inl Unreachable, [])
      | Some server \<Rightarrow>
          (case register_at server of
             Inl e \<Rightarrow> (Inl (RegisterFailed e), [RegisterAt server])
           | Inr _ \<Rightarrow> (Inr server, [RegisterAt server])))"

definition reported :: "failure \<Rightarrow> rstr \<Rightarrow> dns_registration" where
  "reported f fallback_addr =
     (case f of
        RegisterFailed (NoResolver _ remedy) \<Rightarrow> DnsUnavailable (Some fallback_addr) remedy
      | Unreachable \<Rightarrow> DnsRetrying fallback_addr
      | RegisterFailed (Transient _) \<Rightarrow> DnsRetrying fallback_addr)"

text \<open>
  One round of the retry loop: whether a stop came while waiting, while probing, right before or
  during the registration; what the probe found; and what registering gives.
\<close>

record round =
  stop_waiting :: bool
  stop_probing :: bool
  rd_found :: "socket_addr option"
  stop_before :: bool
  stop_during :: bool
  registers :: bool

datatype retry_outcome = Succeeded u32 socket_addr | Stopped

text \<open>
  The loop: \<open>stopping\<close> is a stop that came during a registration that then failed. \<open>None\<close> is a
  loop still going when the rounds given are used up.
\<close>

fun retry_until_stopped :: "bool \<Rightarrow> u32 \<Rightarrow> round list \<Rightarrow> retry_outcome option \<times> reg_effect list" where
  "retry_until_stopped stopping retry [] = (if stopping then Some Stopped else None, [])"
| "retry_until_stopped stopping retry (r # rs) =
     (if stopping \<or> stop_waiting r then (Some Stopped, [])
      else if stop_probing r then (Some Stopped, [])
      else case rd_found r of
        None \<Rightarrow> retry_until_stopped False (saturating_add retry 1) rs
      | Some target \<Rightarrow>
          if stop_before r then (Some Stopped, [])
          else if registers r then (Some (Succeeded retry target), [RegisterAt target])
          else (case retry_until_stopped (stop_during r) (saturating_add retry 1) rs of
                  (outcome, fx) \<Rightarrow> (outcome, RegisterAt target # fx)))"

text \<open>The background task: the loop, and the status once it has registered.\<close>

definition retry_task :: "round list \<Rightarrow> retry_outcome option \<times> reg_effect list" where
  "retry_task rounds =
     (case retry_until_stopped False 1 rounds of
        (Some (Succeeded retries target), fx) \<Rightarrow> (Some (Succeeded retries target), fx @ [Told DnsRegistered])
      | (outcome, fx) \<Rightarrow> (outcome, fx))"

record registration =
  attempted :: bool
  retrying :: bool

definition start ::
    "rstr \<Rightarrow> socket_addr list \<Rightarrow> socket_addr option \<Rightarrow> (socket_addr \<Rightarrow> (resolv_error, unit) result) \<Rightarrow>
     registration \<times> reg_effect list" where
  "start fallback_addr candidates found register_at =
     (if candidates = [] then
        (\<lparr>attempted = False, retrying = False\<rparr>, [Told (DnsUnavailable (Some fallback_addr) None)])
      else case attempt found register_at of
          (Inr server, fx) \<Rightarrow> (\<lparr>attempted = True, retrying = False\<rparr>, fx @ [Told DnsRegistered])
        | (Inl failure, fx) \<Rightarrow>
            (\<lparr>attempted = (fx \<noteq> []), retrying = True\<rparr>, fx @ [Told (reported failure fallback_addr)]))"

text \<open>
  \<open>stop\<close>: the background task is asked to stop and waited for; then the zone is released if the
  system may hold it. \<open>attempted\<close> was set before each registration, so it is set when the task
  asked for one.
\<close>

definition stop :: "registration \<Rightarrow> reg_effect list \<Rightarrow> reg_effect list" where
  "stop reg task_fx =
     (if attempted reg \<or> list_ex (\<lambda>f. case f of RegisterAt _ \<Rightarrow> True | _ \<Rightarrow> False) task_fx then [Released] else [])"

text \<open>A registration from start to stop, over the rounds its background task went through.\<close>

definition registration_life ::
    "rstr \<Rightarrow> socket_addr list \<Rightarrow> socket_addr option \<Rightarrow> (socket_addr \<Rightarrow> (resolv_error, unit) result) \<Rightarrow>
     round list \<Rightarrow> reg_effect list" where
  "registration_life fallback_addr candidates found register_at rounds =
     (case start fallback_addr candidates found register_at of
        (reg, fx) \<Rightarrow>
          let task_fx = (if retrying reg then snd (retry_task rounds) else [])
          in fx @ task_fx @ stop reg task_fx)"

lemmas registration_evals [evals] = show_socket_def FIRST_RETRY_def MAX_RETRY_def STOP_LIMIT_def saturating_sub_def
  saturating_add_def checked_shl_def delay_def attempt_def reported_def retry_task_def start_def stop_def
  registration_life_def

section \<open>Lemmas\<close>

lemma delay_eq:
  assumes "retry \<noteq> 0"
  shows "delay retry = min 60 (2 ^ unat retry)"
proof -
  have one: "1 \<le> unat retry" using assms by (simp add: Suc_leI unat_gt_0)
  then have sub: "unat (saturating_sub retry 1) = unat retry - 1"
    using assms by (simp add: saturating_sub_def unat_sub word_less_nat_alt word_le_nat_alt)
  have pow: "2 * 2 ^ (unat retry - 1) = (2 :: nat) ^ unat retry" using one by (metis Suc_diff_1 Suc_le_lessD One_nat_def power_Suc)
  show ?thesis
  proof (cases "unat retry - 1 < 32")
    case True
    then have "(2 :: nat) ^ (unat retry - 1) < 2 ^ 32" by (intro power_strict_increasing) simp_all
    then have "unat (of_nat (2 ^ (unat retry - 1)) :: u32) = 2 ^ (unat retry - 1)"
      by (simp only: unat_of_nat) simp
    moreover have "push_bit (unat retry - 1) (1 :: u32) = of_nat (2 ^ (unat retry - 1))"
      by (simp add: push_bit_eq_mult)
    ultimately have "unat (push_bit (unat retry - 1) (1 :: u32)) = 2 ^ (unat retry - 1)" by simp
    with True pow show ?thesis by (simp add: delay_def checked_shl_def sub MAX_RETRY_def FIRST_RETRY_def)
  next
    case False
    then have "(64 :: nat) \<le> 2 ^ unat retry" using power_increasing [of 6 "unat retry" "2 :: nat"] by simp
    with False show ?thesis
      by (simp add: delay_def checked_shl_def sub MAX_RETRY_def FIRST_RETRY_def unsigned_minus_1_eq_mask mask_eq_exp_minus_1)
  qed
qed

text \<open>The first answer the loop gives is the answer whatever comes later.\<close>

definition round_stops :: "round \<Rightarrow> bool" where
  "round_stops r \<longleftrightarrow> stop_waiting r \<or> stop_probing r \<or> rd_found r \<noteq> None \<and> (stop_before r \<or> stop_during r)"

lemma stopped_before [simp]: "retry_until_stopped True retry rs = (Some Stopped, [])"
  by (cases rs) simp_all

lemma stop_ends_loop:
  "round_stops r \<Longrightarrow>
   retry_until_stopped b retry (rs @ r # later) = retry_until_stopped b retry (rs @ [r]) \<and>
   fst (retry_until_stopped b retry (rs @ [r])) \<noteq> None"
proof (induction rs arbitrary: b retry)
  case Nil
  then show ?case by (auto simp: round_stops_def split: option.split)
next
  case (Cons q rs)
  then show ?case by (simp add: case_prod_unfold split: option.split)
qed

lemma loop_effects:
  "retry_until_stopped b retry rs = (outcome, fx) \<Longrightarrow>
   set fx \<subseteq> {RegisterAt s |s. \<exists>r \<in> set rs. rd_found r = Some s}"
proof (induction b retry rs arbitrary: outcome fx rule: retry_until_stopped.induct)
  case (2 stopping retry r rs)
  then show ?case by (fastforce split: if_splits option.splits prod.splits)
qed (simp split: if_splits)

lemma loop_succeeded:
  "retry_until_stopped b retry rs = (Some (Succeeded k t), fx) \<Longrightarrow> RegisterAt t \<in> set fx"
  by (induction b retry rs arbitrary: fx rule: retry_until_stopped.induct)
    (auto split: if_splits option.splits prod.splits)

lemma retry_task_effects:
  "set (snd (retry_task rs)) \<subseteq> insert (Told DnsRegistered) {RegisterAt s |s. \<exists>r \<in> set rs. rd_found r = Some s}"
proof -
  obtain outcome fx where l: "retry_until_stopped False 1 rs = (outcome, fx)" by force
  from loop_effects [OF l] show ?thesis by (auto simp: retry_task_def l split: option.split retry_outcome.split)
qed

lemma retry_task_told:
  "Told DnsRegistered \<in> set (snd (retry_task rs)) \<Longrightarrow> \<exists>s. RegisterAt s \<in> set (snd (retry_task rs))"
proof -
  obtain outcome fx where l: "retry_until_stopped False 1 rs = (outcome, fx)" by force
  assume "Told DnsRegistered \<in> set (snd (retry_task rs))"
  then obtain k t where "outcome = Some (Succeeded k t)"
    using loop_effects [OF l] by (auto simp: retry_task_def l split: option.splits retry_outcome.splits)
  with l loop_succeeded [of False 1 rs k t fx] have "RegisterAt t \<in> set (snd (retry_task rs))"
    by (simp add: retry_task_def)
  then show ?thesis by blast
qed

definition quiet :: "round \<Rightarrow> bool" where
  "quiet r \<longleftrightarrow> \<not> round_stops r \<and> (rd_found r = None \<or> \<not> registers r)"

text \<open>A round in which nothing is registered and no stop arrives only counts.\<close>

lemma quiet_rounds:
  "list_all quiet rs \<Longrightarrow>
   fst (retry_until_stopped False retry (rs @ later)) =
   fst (retry_until_stopped False (((\<lambda>k. saturating_add k 1) ^^ length rs) retry) later)"
proof (induction rs arbitrary: retry)
  case (Cons r rs)
  then have "quiet r" and rs: "list_all quiet rs" by simp_all
  then have "fst (retry_until_stopped False retry ((r # rs) @ later)) =
      fst (retry_until_stopped False (saturating_add retry 1) (rs @ later))"
    by (auto simp: quiet_def round_stops_def case_prod_unfold split: option.split)
  with Cons.IH [OF rs, of "saturating_add retry 1"] show ?case
    by (simp add: funpow_Suc_right del: funpow.simps retry_until_stopped.simps)
qed simp

lemma unat_saturating_add: "unat (saturating_add a 1) = min (2 ^ 32 - 1) (unat a + 1)"
proof -
  have "unat a < 2 ^ 32" using unsigned_less [of a, where ?'a = nat] by simp
  moreover have "unat (- 1 :: u32) = 2 ^ 32 - 1" by (simp add: unsigned_minus_1_eq_mask mask_eq_exp_minus_1)
  ultimately show ?thesis by (auto simp: saturating_add_def unat_word_ariths)
qed

lemma unat_counted: "unat (((\<lambda>k. saturating_add k 1) ^^ n) a) = min (2 ^ 32 - 1) (unat a + n)"
proof (induction n)
  case 0
  have "unat a < 2 ^ 32" using unsigned_less [of a, where ?'a = nat] by simp
  then show ?case by simp
next
  case (Suc n)
  then show ?case by (simp add: unat_saturating_add)
qed

section \<open>Properties\<close>

text \<open>
  What was handed to the system is handed back, last. Over the whole life of a registration,
  from the start to the stop, the zone is released exactly when the system was asked to
  register it at least once, and the release comes after every such request; every server
  registered is one a probe had reached, none when no address could be bound; and \<open>status\<close> is
  only told the zone is registered when it was asked for.
\<close>

lemma release_follows_registration:
  "let tr = registration_life fallback_addr candidates found register_at rounds in
    (if \<exists>s. RegisterAt s \<in> set tr then (\<exists>before. tr = before @ [Released] \<and> Released \<notin> set before)
     else Released \<notin> set tr \<and> Told DnsRegistered \<notin> set tr) \<and>
    {s. RegisterAt s \<in> set tr} \<subseteq> (if candidates = [] then {} else {s. found = Some s \<or> (\<exists>r \<in> set rounds. rd_found r = Some s)})"
proof -
  obtain reg fx where st: "start fallback_addr candidates found register_at = (reg, fx)" by force
  define task where "task = (if retrying reg then snd (retry_task rounds) else [])"
  have tr: "registration_life fallback_addr candidates found register_at rounds = fx @ task @ stop reg task"
    by (simp add: registration_life_def st task_def Let_def)
  have fx: "Released \<notin> set fx" "attempted reg \<longleftrightarrow> (\<exists>s. RegisterAt s \<in> set fx)"
    "Told DnsRegistered \<in> set fx \<Longrightarrow> attempted reg"
    "\<And>s. RegisterAt s \<in> set fx \<Longrightarrow> candidates \<noteq> [] \<and> found = Some s"
    "candidates = [] \<Longrightarrow> \<not> retrying reg"
    using st by (auto simp: start_def attempt_def reported_def split: if_splits option.splits sum.splits
        failure.splits resolv_error.splits)
  have task: "Released \<notin> set task" "\<And>s. RegisterAt s \<in> set task \<Longrightarrow> retrying reg \<and> (\<exists>r \<in> set rounds. rd_found r = Some s)"
    "Told DnsRegistered \<in> set task \<Longrightarrow> \<exists>s. RegisterAt s \<in> set task"
    using retry_task_effects [of rounds] retry_task_told [of rounds] by (auto simp: task_def)
  have stop: "stop reg task = (if \<exists>s. RegisterAt s \<in> set (fx @ task) then [Released] else [])"
  proof -
    have "list_ex (\<lambda>f. case f of RegisterAt _ \<Rightarrow> True | _ \<Rightarrow> False) task \<longleftrightarrow> (\<exists>s. RegisterAt s \<in> set task)"
    proof -
      have c: "(\<lambda>f. case f of RegisterAt _ \<Rightarrow> True | _ \<Rightarrow> False) = (\<lambda>f. \<exists>s. f = RegisterAt s)"
        by (rule ext) (simp split: reg_effect.split)
      show ?thesis unfolding c list_ex_iff by blast
    qed
    then show ?thesis using fx(2) by (simp only: stop_def set_append Un_iff ex_disj_distrib)
  qed
  show ?thesis
    unfolding tr Let_def stop using fx task by (auto simp del: split_paired_Ex)
qed


text \<open>
  C35: Retrying goes on until it works. However many rounds registered nothing, the first in which
  a server is reached and the system takes it ends the task with that server and the number of
  the retry, which counts up to the limit of its 32 bits and stays there; and the wait before
  a retry is two seconds doubled each time, never more than a minute and never none.
\<close>

theorem retry_until_it_works:
  assumes "list_all quiet rs" and "\<not> round_stops r" and "rd_found r = Some t" and "registers r"
  shows "\<exists>k. fst (retry_until_stopped False 1 (rs @ r # later)) = Some (Succeeded k t) \<and>
    unat k = min (2 ^ 32 - 1) (length rs + 1) \<and> delay k = min 60 (2 ^ unat k) \<and> 2 \<le> delay k"
proof -
  define k where "k = ((\<lambda>k. saturating_add k 1) ^^ length rs) (1 :: u32)"
  have "fst (retry_until_stopped False 1 (rs @ r # later)) = fst (retry_until_stopped False k (r # later))"
    unfolding k_def by (rule quiet_rounds [OF assms(1)])
  also have "\<dots> = Some (Succeeded k t)"
    using assms(2-4) by (auto simp: round_stops_def)
  finally have s: "fst (retry_until_stopped False 1 (rs @ r # later)) = Some (Succeeded k t)" .
  have k: "unat k = min (2 ^ 32 - 1) (length rs + 1)" using unat_counted [of "length rs" 1] by (simp add: k_def add.commute)
  then have "k \<noteq> 0" "1 \<le> unat k" by (auto simp: min_def split: if_splits)
  moreover from this have "(2 :: nat) ^ 1 \<le> 2 ^ unat k" by (intro power_increasing) simp_all
  ultimately have "delay k = min 60 (2 ^ unat k)" "2 \<le> delay k" using delay_eq [of k] by simp_all
  with s k show ?thesis by blast
qed

section \<open>Witnesses\<close>

definition demo_round :: round where
  "demo_round = \<lparr>stop_waiting = False, stop_probing = False, rd_found = Some (V4 7, 5354), stop_before = False,
     stop_during = False, registers = True\<rparr>"


theorem retry_until_it_works_witness:
  "\<exists>k. fst (retry_until_stopped False 1 [demo_round\<lparr>rd_found := None\<rparr>, demo_round]) =
     Some (Succeeded k (V4 7, 5354)) \<and> unat k = 2 \<and> delay k = 4"
proof -
  have "list_all quiet [demo_round\<lparr>rd_found := None\<rparr>]" "\<not> round_stops demo_round"
    "rd_found demo_round = Some (V4 7, 5354)" "registers demo_round"
    by (simp_all add: quiet_def round_stops_def demo_round_def)
  from retry_until_it_works [OF this, of "[]"]
  show ?thesis by (auto simp del: retry_until_stopped.simps)
qed

end
