(* ===== verification/Daemon.thy ===== *)
theory Daemon
  imports Identity Registration
begin

text \<open>
  The daemon as a process: \<open>daemon/src/args.rs\<close> (the command line), \<open>log.rs\<close>, \<open>service.rs\<close> (the
  Windows service), \<open>main.rs\<close> (bringing the parts up and down), with the device of \<open>tun.rs\<close>. What
  the environment, the file system, the network and the service manager answer are inputs; what
  the process does is a trace, in its order. What the background registration does while the
  daemon serves stands before the stop.
\<close>

section \<open>The command line: \<open>args.rs\<close>\<close>

datatype invocation = RunDaemon | ShowVersion | ShowHelp

datatype args_error = UnrecognizedArgument rstr | TooManyArguments nat

definition parse_args :: "rstr list \<Rightarrow> (args_error, invocation) result" where
  "parse_args args =
     (case args of
        [] \<Rightarrow> Inr RunDaemon
      | [one] \<Rightarrow>
          if one \<in> {lit ''--version'', lit ''-V'', lit ''version''} then Inr ShowVersion
          else if one \<in> {lit ''--help'', lit ''-h'', lit ''help''} then Inr ShowHelp
          else Inl (UnrecognizedArgument one)
      | _ \<Rightarrow> Inl (TooManyArguments (length args)))"

section \<open>Messages: \<open>log.rs\<close>\<close>

text \<open>
  The file is opened at the first message: \<open>None\<close> before that, then what became of it, and the
  lines written. \<open>opens\<close> is what opening would give, \<open>None\<close> when no path is set.
\<close>

datatype console = Stdout rstr | Stderr rstr

type_synonym open_log = "rstr list option option"

definition log_file :: "(rstr, unit) result option \<Rightarrow> open_log \<Rightarrow> rstr list option \<times> console list" where
  "log_file opens file =
     (case file of
        Some f \<Rightarrow> (f, [])
      | None \<Rightarrow>
          (case opens of
             None \<Rightarrow> (None, [])
           | Some (Inr _) \<Rightarrow> (Some [], [])
           | Some (Inl e) \<Rightarrow> (None, [Stderr e])))"

definition padded :: "rstr \<Rightarrow> rstr" where
  "padded level = level @ replicate (5 - length level) 32"

definition log_write ::
    "(rstr, unit) result option \<Rightarrow> rstr \<Rightarrow> bool \<Rightarrow> rstr \<Rightarrow> rstr \<Rightarrow> open_log \<Rightarrow> open_log \<times> console list" where
  "log_write opens stamp written level message file =
     (let out = (if level = lit ''WARN'' then Stderr message else Stdout message) in
      case log_file opens file of (f, said) \<Rightarrow>
        (Some (map_option (\<lambda>lines.
           if written then lines @ [stamp @ [32] @ padded level @ [32] @ message] else lines) f),
         out # said))"

section \<open>The device\<close>

definition DEFAULT_INTERFACE_NAME :: rstr where "DEFAULT_INTERFACE_NAME = lit ''quix''"

definition interface_name :: "rstr option \<Rightarrow> rstr" where
  "interface_name custom = (case custom of Some name \<Rightarrow> name | None \<Rightarrow> DEFAULT_INTERFACE_NAME)"

record tun_config =
  tc_name :: rstr
  tc_ipv4 :: "rstr \<times> nat"
  tc_ipv6 :: "rstr \<times> nat"
  tc_mtu :: nat

definition tun_create :: "rstr option \<Rightarrow> ipv4 \<Rightarrow> ipv6 \<Rightarrow> tun_config" where
  "tun_create custom v4 v6 =
     \<lparr>tc_name = interface_name custom, tc_ipv4 = (show_ipv4 v4, V4_PREFIX_LEN), tc_ipv6 = (show_ipv6 v6, V6_PREFIX_LEN),
      tc_mtu = MTU\<rparr>"

section \<open>Running: \<open>main.rs\<close>\<close>

text \<open>
  What the start meets, in its order: the key, the endpoint, the relay, the device, the roster and
  settings on disk, the resolver's sockets, the registration's first attempt and the rounds after it,
  how serving the socket ended (\<open>None\<close> when a stop came first), and closing the router.
\<close>

record boot_env =
  be_windows :: bool
  be_join :: joiner
  be_identity :: identity_env
  be_public :: "u8 list \<Rightarrow> eid"
  be_bind_error :: "rstr option"
  be_online :: bool
  be_iface :: "rstr option"
  be_tun_error :: "rstr option"
  be_membership :: "(rstr, membership) result"
  be_settings_json :: settings_json
  be_settings :: file_read
  be_tool :: route_tool
  be_loopback_binds :: bool
  be_binds :: "socket_addr \<Rightarrow> nat \<Rightarrow> bool"
  be_fallback :: rstr
  be_found :: "socket_addr option"
  be_register_at :: "socket_addr \<Rightarrow> (resolv_error, unit) result"
  be_rounds :: "round list"
  be_served :: "(rstr, unit) result option"
  be_router_error :: "rstr option"

datatype boot_effect =
    EndpointBound eid
  | WaitedForRelay bool
  | DeviceUp tun_config
  | RoutesUp
  | RouterUp
  | ResolverUp "socket_addr list"
  | Reg reg_effect
  | ReaderUp
  | DialerUp
  | Stopping
  | RouterDown

datatype boot_error =
    NoIdentity identity_error
  | NotBound rstr
  | NoDevice rstr
  | NoRoster rstr
  | SocketFailed rstr
  | RouterFailed rstr

text \<open>The resolver, when its loopback port is free, and the registration it makes possible.\<close>

definition boot_resolver :: "externs \<Rightarrow> boot_env \<Rightarrow> node \<Rightarrow> registration option \<times> boot_effect list" where
  "boot_resolver x be n =
     (case resolver_bind x (be_windows be) (be_loopback_binds be) (be_binds be) n of
        None \<Rightarrow> (None, [])
      | Some candidates \<Rightarrow>
          (case Registration.start (be_fallback be) candidates (be_found be) (be_register_at be) of
             (reg, fx) \<Rightarrow> (Some reg, ResolverUp candidates # map Reg fx)))"

text \<open>From serving to the end: the background task, the stop, the zone handed back, the router closed.\<close>

definition serve_and_stop :: "boot_env \<Rightarrow> registration option \<Rightarrow> (boot_error, unit) result \<times> boot_effect list" where
  "serve_and_stop be reg =
     (let task_fx = (case reg of Some r \<Rightarrow> if retrying r then snd (retry_task (be_rounds be)) else [] | None \<Rightarrow> []);
          stop_fx = (case reg of Some r \<Rightarrow> Registration.stop r task_fx | None \<Rightarrow> [])
      in (case be_router_error be of
            Some e \<Rightarrow> Inl (RouterFailed e)
          | None \<Rightarrow> (case be_served be of Some (Inl e) \<Rightarrow> Inl (SocketFailed e) | _ \<Rightarrow> Inr ()),
          [ReaderUp, DialerUp] @ map Reg task_fx @ (if be_served be = None then [Stopping] else []) @
          map Reg stop_fx @ [RouterDown]))"

definition daemon_run ::
    "externs \<Rightarrow> boot_env \<Rightarrow> disk \<Rightarrow> (boot_error, unit) result \<times> disk \<times> boot_effect list \<times> node option" where
  "daemon_run x be disk =
     (case load_or_create (be_join be) (be_windows be) (be_identity be) disk of
        (Inl e, disk) \<Rightarrow> (Inl (NoIdentity e), disk, [], None)
      | (Inr key, disk) \<Rightarrow>
      case be_bind_error be of
        Some e \<Rightarrow> (Inl (NotBound e), disk, [], None)
      | None \<Rightarrow>
      let own = be_public be key; fx = [EndpointBound own, WaitedForRelay (be_online be)] in
      case addrs_of x own of (v4, v6) \<Rightarrow>
      case be_tun_error be of
        Some e \<Rightarrow> (Inl (NoDevice e), disk, fx, None)
      | None \<Rightarrow>
      let fx = fx @ [DeviceUp (tun_create (be_iface be) v4 v6)] in
      case be_membership be of
        Inl e \<Rightarrow> (Inl (NoRoster e), disk, fx, None)
      | Inr m \<Rightarrow>
      let n = started x (be_tool be) own m (settings_at_start (be_settings_json be) (be_settings be)) in
      case boot_resolver x be n of (reg, reg_fx) \<Rightarrow>
      case serve_and_stop be reg of (res, end_fx) \<Rightarrow>
        (res, disk, fx @ [RoutesUp, RouterUp] @ reg_fx @ end_fx, Some n))"

section \<open>The Windows service: \<open>service.rs\<close>\<close>

datatype scm_control = Interrogate | StopService | ShutdownService | OtherControl

datatype control_answer = NoError | NotImplemented

text \<open>What a control is answered, and whether it asks the daemon to stop.\<close>

definition service_control :: "scm_control \<Rightarrow> control_answer \<times> bool" where
  "service_control c =
     (case c of
        Interrogate \<Rightarrow> (NoError, False)
      | StopService \<Rightarrow> (NoError, True)
      | ShutdownService \<Rightarrow> (NoError, True)
      | OtherControl \<Rightarrow> (NotImplemented, False))"

datatype service_exit = Win32Exit u32 | ServiceSpecific u32

datatype service_effect = ReportRunning | ReportStopped service_exit | DaemonDid boot_effect

datatype service_failure = HandlerRefused rstr | StatusRefused rstr | DaemonFailed boot_error

text \<open>The service's part: registering the handler, reporting that it runs, and that it stopped.\<close>

record service_env =
  sv_register_error :: "rstr option"
  sv_running_error :: "rstr option"
  sv_stopped_error :: "rstr option"

definition service_serve ::
    "externs \<Rightarrow> service_env \<Rightarrow> boot_env \<Rightarrow> disk \<Rightarrow> (service_failure, unit) result \<times> disk \<times> service_effect list" where
  "service_serve x sv be disk =
     (case sv_register_error sv of
        Some e \<Rightarrow> (Inl (HandlerRefused e), disk, [])
      | None \<Rightarrow>
      case sv_running_error sv of
        Some e \<Rightarrow> (Inl (StatusRefused e), disk, [])
      | None \<Rightarrow>
      case daemon_run x be disk of (res, disk, fx, _) \<Rightarrow>
      let done = [ReportRunning] @ map DaemonDid fx in
      case sv_stopped_error sv of
        Some e \<Rightarrow> (Inl (StatusRefused e), disk, done)
      | None \<Rightarrow>
          (case res of
             Inr u \<Rightarrow> (Inr u, disk, done @ [ReportStopped (Win32Exit 0)])
           | Inl e \<Rightarrow> (Inl (DaemonFailed e), disk, done @ [ReportStopped (ServiceSpecific 1)])))"

section \<open>The process\<close>

text \<open>
  \<open>main\<close>: a process the service manager started is its service, whatever its arguments; a process
  started by hand reads its command line, and only a bare one runs the daemon.
\<close>

datatype main_end =
    WasService
  | RefusedArguments args_error
  | SaidVersion
  | SaidUsage
  | RanDaemon "(boot_error, unit) result"

definition daemon_main ::
    "externs \<Rightarrow> bool \<Rightarrow> service_env \<Rightarrow> boot_env \<Rightarrow> rstr list \<Rightarrow> disk \<Rightarrow> main_end \<times> disk \<times> service_effect list" where
  "daemon_main x by_service_manager sv be args disk =
     (if be_windows be \<and> by_service_manager
      then (case service_serve x sv be disk of (_, disk, fx) \<Rightarrow> (WasService, disk, fx))
      else case parse_args args of
        Inl e \<Rightarrow> (RefusedArguments e, disk, [])
      | Inr ShowVersion \<Rightarrow> (SaidVersion, disk, [])
      | Inr ShowHelp \<Rightarrow> (SaidUsage, disk, [])
      | Inr RunDaemon \<Rightarrow> (case daemon_run x be disk of (res, disk, fx, _) \<Rightarrow> (RanDaemon res, disk, map DaemonDid fx)))"

lemmas daemon_evals [evals] = parse_args_def log_file_def padded_def log_write_def DEFAULT_INTERFACE_NAME_def
  interface_name_def tun_create_def boot_resolver_def serve_and_stop_def daemon_run_def
  service_control_def service_serve_def daemon_main_def

section \<open>Lemmas\<close>

lemma parse_args_runs: "parse_args args = Inr RunDaemon \<longleftrightarrow> args = []"
  by (auto simp: parse_args_def split: list.splits if_splits)

text \<open>The log file is opened once, whatever comes of it, and then only grows.\<close>

lemma log_write_opened_once:
  "log_write opens stamp written level message (Some f) = (file', out) \<Longrightarrow>
   log_write opens' stamp written level message (Some f) = (file', out)"
  by (simp add: log_write_def log_file_def)

lemma log_write_grows:
  assumes "log_write opens stamp written level message (Some (Some ls)) = (file', out)"
  shows "\<exists>more. file' = Some (Some (ls @ more)) \<and> length more \<le> 1 \<and> length out = 1"
  using assms by (auto simp: log_write_def log_file_def Let_def)

definition registrations :: "boot_effect list \<Rightarrow> reg_effect list" where
  "registrations fx = List.map_filter (\<lambda>f. case f of Reg r \<Rightarrow> Some r | _ \<Rightarrow> None) fx"

lemma registrations_simps [simp]:
  "registrations [] = []" "registrations (Reg r # fx) = r # registrations fx"
  "registrations (a @ b) = registrations a @ registrations b" "registrations (map Reg rs) = rs"
  "(\<And>r. f \<noteq> Reg r) \<Longrightarrow> registrations (f # fx) = registrations fx"
proof -
  show "registrations (map Reg rs) = rs" by (induction rs) (simp_all add: registrations_def List.map_filter_simps)
  assume "\<And>r. f \<noteq> Reg r"
  then have "(case f of Reg r \<Rightarrow> Some r | _ \<Rightarrow> None) = None" by (simp split: boot_effect.split)
  then show "registrations (f # fx) = registrations fx" by (simp add: registrations_def List.map_filter_simps)
qed (simp_all add: registrations_def List.map_filter_simps List.map_filter_def)

lemma set_registrations: "r \<in> set (registrations fx) \<longleftrightarrow> Reg r \<in> set fx"
proof (induction fx)
  case (Cons f fx)
  then show ?case by (cases f) auto
qed simp

lemma start_releases_nothing:
  "Registration.start fallback_addr cands found register_at = (reg, fx) \<Longrightarrow> Released \<notin> set fx"
  by (auto simp: start_def attempt_def split: if_splits option.splits sum.splits)

lemma stop_only_releases: "Registration.stop reg task \<in> {[], [Released]}"
  by (simp add: stop_def)

text \<open>What a daemon that came up did, by what its resolver became.\<close>

lemma served_without_resolver:
  assumes "boot_resolver x be n = (None, rfx)" and "serve_and_stop be None = (res, efx)"
  shows "registrations (rfx @ efx) = []" and "\<exists>rest. efx = rest @ [RouterDown]"
  using assms by (auto simp: boot_resolver_def serve_and_stop_def split: option.splits prod.splits)

lemma served_with_resolver:
  assumes "boot_resolver x be n = (Some reg, rfx)" and "serve_and_stop be (Some reg) = (res, efx)"
  obtains cands mid where "rfx @ efx = ResolverUp cands # mid @ map Reg (Registration.stop reg
      (if retrying reg then snd (retry_task (be_rounds be)) else [])) @ [RouterDown]"
    and "Reg Released \<notin> set mid"
    and "registrations (rfx @ efx) = registration_life (be_fallback be) cands (be_found be) (be_register_at be) (be_rounds be)"
proof -
  obtain cands sfx where st: "Registration.start (be_fallback be) cands (be_found be) (be_register_at be) = (reg, sfx)"
    "rfx = ResolverUp cands # map Reg sfx"
    using assms(1) by (auto simp: boot_resolver_def split: option.splits prod.splits)
  define task where "task = (if retrying reg then snd (retry_task (be_rounds be)) else [])"
  define mid where "mid = map Reg sfx @ [ReaderUp, DialerUp] @ map Reg task @ (if be_served be = None then [Stopping] else [])"
  have e: "rfx @ efx = ResolverUp cands # mid @ map Reg (Registration.stop reg task) @ [RouterDown]"
    using assms(2) st(2) by (simp add: serve_and_stop_def task_def mid_def Let_def)
  have "Released \<notin> set task" using retry_task_effects [of "be_rounds be"] by (auto simp: task_def)
  then have "Reg Released \<notin> set mid" using start_releases_nothing [OF st(1)] by (auto simp: mid_def)
  moreover have "registrations (rfx @ efx) =
      registration_life (be_fallback be) cands (be_found be) (be_register_at be) (be_rounds be)"
    unfolding e by (simp add: mid_def registration_life_def st(1) task_def Let_def)
  ultimately show ?thesis using e that unfolding task_def by blast
qed

lemma before_later: "xs @ u # ys = a @ v # b \<Longrightarrow> v \<notin> set (xs @ [u]) \<Longrightarrow> u \<in> set a"
proof (induction xs arbitrary: a)
  case Nil
  then show ?case by (cases a) auto
next
  case (Cons y xs)
  then show ?case by (cases a) auto
qed

abbreviation boot_prefix :: "externs \<Rightarrow> boot_env \<Rightarrow> u8 list \<Rightarrow> boot_effect list" where
  "boot_prefix x be key \<equiv> [EndpointBound (be_public be key), WaitedForRelay (be_online be),
     DeviceUp (case addrs_of x (be_public be key) of (v4, v6) \<Rightarrow> tun_create (be_iface be) v4 v6), RoutesUp, RouterUp]"

lemma daemon_run_came_up:
  assumes "daemon_run x be disk = (res, disk', fx, Some n)"
  obtains key m reg rfx efx where
    "load_or_create (be_join be) (be_windows be) (be_identity be) disk = (Inr key, disk')" and "be_membership be = Inr m"
    and "n = started x (be_tool be) (be_public be key) m (settings_at_start (be_settings_json be) (be_settings be))"
    and "boot_resolver x be n = (reg, rfx)" and "serve_and_stop be reg = (res, efx)"
    and "fx = boot_prefix x be key @ rfx @ efx"
  using assms
  by (auto simp: daemon_run_def Let_def split: prod.splits sum.splits option.splits)

lemma released_in_order:
  assumes "boot_resolver x be n = (reg, rfx)" and "serve_and_stop be reg = (res, efx)" and fx: "fx = boot_prefix x be key @ rfx @ efx"
  shows "if \<exists>s. Reg (RegisterAt s) \<in> set fx
       then (\<exists>before. fx = before @ [Reg Released, RouterDown] \<and> Reg Released \<notin> set before \<and>
         (\<forall>a s b. before = a @ Reg (RegisterAt s) # b \<longrightarrow> (\<exists>cands. ResolverUp cands \<in> set a \<and> cands \<noteq> [])))
       else Reg Released \<notin> set fx \<and> last fx = RouterDown"
proof (cases reg)
  case None
  from served_without_resolver [of x be n rfx res efx] assms(1,2) None
  have "registrations fx = []" "last fx = RouterDown" by (auto simp: fx)
  then show ?thesis using set_registrations [of _ fx] by auto
next
  case (Some r)
  define stops where "stops = Registration.stop r (if retrying r then snd (retry_task (be_rounds be)) else [])"
  from served_with_resolver [OF assms(1,2) [unfolded Some]] obtain cands mid where
    e: "rfx @ efx = ResolverUp cands # mid @ map Reg stops @ [RouterDown]" "Reg Released \<notin> set mid"
    "registrations (rfx @ efx) = registration_life (be_fallback be) cands (be_found be) (be_register_at be) (be_rounds be)"
    unfolding stops_def by blast
  have regs: "registrations fx = registration_life (be_fallback be) cands (be_found be) (be_register_at be) (be_rounds be)"
    using e(3) by (simp add: fx)
  have stops: "stops = [] \<or> stops = [Released]" using stop_only_releases by (auto simp: stops_def)
  note life = release_follows_registration [of "be_fallback be" cands "be_found be" "be_register_at be" "be_rounds be",
      folded regs, unfolded Let_def set_registrations]
  show ?thesis
  proof (cases "\<exists>s. Reg (RegisterAt s) \<in> set fx")
    case True
    then have "Reg Released \<in> set fx" using life set_registrations [of Released fx] by auto
    then have s: "stops = [Released]" using stops e(1,2) by (auto simp: fx)
    define before where "before = boot_prefix x be key @ ResolverUp cands # mid"
    have "fx = before @ [Reg Released, RouterDown]" "Reg Released \<notin> set before"
      using e(1,2) s by (simp_all add: fx before_def)
    moreover have "cands \<noteq> []" using life True by (auto split: if_splits)
    moreover have "ResolverUp cands \<in> set a" if "before = a @ Reg (RegisterAt s) # b" for a s b
      by (rule before_later [OF that [unfolded before_def]]) simp
    ultimately show ?thesis unfolding if_P [OF True] by blast
  next
    case False
    then have "Reg Released \<notin> set fx" using life by (simp add: set_registrations [symmetric])
    moreover have "last fx = RouterDown" by (simp add: fx e(1))
    ultimately show ?thesis using False by simp
  qed
qed

text \<open>A daemon that did not come up registered nothing and served nobody.\<close>

lemma daemon_run_failed:
  assumes "daemon_run x be disk = (res, disk', fx, None)"
  shows "\<not> is_ok res" and "set fx \<subseteq> {f. \<exists>own online cfg. f = EndpointBound own \<or> f = WaitedForRelay online \<or> f = DeviceUp cfg}"
  using assms by (auto simp: daemon_run_def Let_def split: prod.splits sum.splits option.splits)

lemma came_up_in_order:
  assumes run: "daemon_run x be disk = (res, disk', fx, Some n)" and path: "key_path (be_join be) (be_identity be) = Inr path"
  shows "(\<exists>f. disk' path = Some f \<and> n_own n = be_public be (kf_bytes f)) \<and>
    (\<exists>m. be_membership be = Inr m \<and> n_membership n = m \<and> (roster_inv m \<longrightarrow> node_inv x n)) \<and>
    (if \<exists>s. Reg (RegisterAt s) \<in> set fx
     then (\<exists>before. fx = before @ [Reg Released, RouterDown] \<and> Reg Released \<notin> set before \<and>
       (\<forall>a s b. before = a @ Reg (RegisterAt s) # b \<longrightarrow> (\<exists>cands. ResolverUp cands \<in> set a \<and> cands \<noteq> [])))
     else Reg Released \<notin> set fx \<and> last fx = RouterDown)"
proof -
  obtain key m reg rfx efx where
    up: "load_or_create (be_join be) (be_windows be) (be_identity be) disk = (Inr key, disk')" "be_membership be = Inr m"
    "n = started x (be_tool be) (be_public be key) m (settings_at_start (be_settings_json be) (be_settings be))"
    and parts: "boot_resolver x be n = (reg, rfx)" "serve_and_stop be reg = (res, efx)" and fx: "fx = boot_prefix x be key @ rfx @ efx"
    using run by (rule daemon_run_came_up)
  have "n_own n = be_public be key" and m: "n_membership n = m"
    by (simp_all add: up(3) started_def frame_simps) (simp_all add: new_node_def)
  then have identity: "\<exists>f. disk' path = Some f \<and> n_own n = be_public be (kf_bytes f)"
    using load_or_create_after [OF up(1) path] by auto
  have roster: "\<exists>m. be_membership be = Inr m \<and> n_membership n = m \<and> (roster_inv m \<longrightarrow> node_inv x n)"
    using started_inv [of m x] up(2,3) m by blast
  show ?thesis by (intro conjI identity roster released_in_order [OF parts fx])
qed

section \<open>Properties\<close>


definition demo_boot :: boot_env where
  "demo_boot = \<lparr>be_windows = False, be_join = \<lambda>a b. a @ b, be_identity = demo_identity 1, be_public = Eid,
     be_bind_error = None, be_online = False, be_iface = None, be_tun_error = None,
     be_membership = Inr default_membership, be_settings_json = \<lambda>_. None, be_settings = FileMissing,
     be_tool = e_tool demo_env, be_loopback_binds = True, be_binds = \<lambda>_ _. True, be_fallback = [],
     be_found = Some (V4 0, 53), be_register_at = \<lambda>_. Inr (), be_rounds = [],
     be_served = Some (Inl (lit ''closed'')), be_router_error = None\<rparr>"

definition demo_service :: service_env where
  "demo_service = \<lparr>sv_register_error = None, sv_running_error = None, sv_stopped_error = None\<rparr>"


end
