(* ===== verification/Storage.thy ===== *)
theory Storage
  imports Daemon
begin

text \<open>
  What the daemon keeps on disk beside its key: \<open>load\<close>, \<open>parse\<close> and \<open>save\<close> of
  \<open>daemon/src/membership.rs\<close> and \<open>daemon/src/settings.rs\<close>. A roster is stored in the shape serde
  derives for it: fields with a default may be missing, members may be bare ids, invites go through
  \<open>hex_tokens\<close>. The JSON text of that shape is serde's, a pair of parameters; reading a file gives
  its text, or that it is missing or unreadable, and what a failed write leaves is an input.
\<close>

section \<open>The stored shape of a roster\<close>

record stored_membership =
  st_network_name :: "rstr option"
  st_coordinator_id :: "rstr option"
  st_network_id :: "rstr option"
  st_members :: "member_repr list"
  st_pending_invites :: "stored_invite list option"
  st_bindings :: "(rstr \<times> rstr) list option"

definition member_repr_of :: "member \<Rightarrow> member_repr" where
  "member_repr_of p = FullMember (mid p) (hostname p)"

text \<open>A \<open>BTreeMap\<close> is written in the order of its keys.\<close>

definition btree_entries :: "(rstr \<rightharpoonup> rstr) \<Rightarrow> (rstr \<times> rstr) list" where
  "btree_entries b = map (\<lambda>h. (h, the (b h))) (sorted_list_of_set (dom b))"

definition membership_stored :: "externs \<Rightarrow> membership \<Rightarrow> stored_membership" where
  "membership_stored x m =
     \<lparr>st_network_name = network_name m, st_coordinator_id = coordinator_id m, st_network_id = network_id m,
      st_members = map member_repr_of (members m), st_pending_invites = Some (serialize_invites x (pending_invites m)),
      st_bindings = Some (btree_entries (bindings m))\<rparr>"

definition membership_from :: "externs \<Rightarrow> stored_membership \<Rightarrow> (token_error, membership) result" where
  "membership_from x s =
     (case deserialize_invites x (case st_pending_invites s of Some es \<Rightarrow> es | None \<Rightarrow> []) of
        Inl e \<Rightarrow> Inl e
      | Inr invites \<Rightarrow>
          Inr \<lparr>network_name = st_network_name s, coordinator_id = st_coordinator_id s, network_id = st_network_id s,
            members = map member_of_repr (st_members s), pending_invites = invites,
            bindings = (case st_bindings s of Some es \<Rightarrow> map_of (rev es) | None \<Rightarrow> Map.empty)\<rparr>)"

section \<open>Files\<close>

record store_env =
  se_custom_path :: "rstr option"
  se_config_dir :: "rstr option"
  se_mkdir_error :: "rstr option"
  se_write_error :: "(file_read \<times> rstr) option"

type_synonym store = "rstr \<Rightarrow> file_read"

datatype store_error =
    NoConfigDirectory
  | FileNotReadable
  | FileNotJson
  | FileBadToken token_error
  | DirectoryNotCreated rstr
  | FileNotWritten rstr

definition config_path :: "joiner \<Rightarrow> store_env \<Rightarrow> rstr \<Rightarrow> (store_error, rstr) result" where
  "config_path join se name =
     (case se_custom_path se of
        Some custom \<Rightarrow> Inr custom
      | None \<Rightarrow>
          (case se_config_dir se of
             None \<Rightarrow> Inl NoConfigDirectory
           | Some dir \<Rightarrow> Inr (join (join dir (lit ''quix'')) name)))"

definition membership_path :: "joiner \<Rightarrow> store_env \<Rightarrow> (store_error, rstr) result" where
  "membership_path join se = config_path join se (lit ''network.json'')"

definition settings_path :: "joiner \<Rightarrow> store_env \<Rightarrow> (store_error, rstr) result" where
  "settings_path join se = config_path join se (lit ''settings.json'')"

text \<open>\<open>create_dir_all\<close> and \<open>std::fs::write\<close>, which truncates the file before it writes.\<close>

definition save_text :: "store_env \<Rightarrow> rstr \<Rightarrow> rstr \<Rightarrow> store \<Rightarrow> (store_error, unit) result \<times> store" where
  "save_text se path text st =
     (case se_mkdir_error se of
        Some e \<Rightarrow> (Inl (DirectoryNotCreated e), st)
      | None \<Rightarrow>
          (case se_write_error se of
             Some (left, e) \<Rightarrow> (Inl (FileNotWritten e), st(path := left))
           | None \<Rightarrow> (Inr (), st(path := FileText text))))"

section \<open>The roster\<close>

definition membership_parse ::
    "externs \<Rightarrow> (rstr \<Rightarrow> stored_membership option) \<Rightarrow> rstr \<Rightarrow> (store_error, membership) result" where
  "membership_parse x json data =
     (case json (trim_start_matches (\<lambda>c. c = 0xFEFF) data) of
        None \<Rightarrow> Inl FileNotJson
      | Some s \<Rightarrow> (case membership_from x s of Inl e \<Rightarrow> Inl (FileBadToken e) | Inr m \<Rightarrow> Inr m))"

definition membership_load ::
    "externs \<Rightarrow> (rstr \<Rightarrow> stored_membership option) \<Rightarrow> joiner \<Rightarrow> store_env \<Rightarrow> store \<Rightarrow> (store_error, membership) result" where
  "membership_load x json join se st =
     (case membership_path join se of
        Inl e \<Rightarrow> Inl e
      | Inr path \<Rightarrow>
          (case st path of
             FileText data \<Rightarrow> membership_parse x json data
           | FileMissing \<Rightarrow> Inr default_membership
           | FileUnreadable \<Rightarrow> Inl FileNotReadable))"

definition membership_save ::
    "externs \<Rightarrow> (stored_membership \<Rightarrow> rstr) \<Rightarrow> joiner \<Rightarrow> store_env \<Rightarrow> membership \<Rightarrow> store \<Rightarrow> (store_error, unit) result \<times> store" where
  "membership_save x to_json join se m st =
     (case membership_path join se of
        Inl e \<Rightarrow> (Inl e, st)
      | Inr path \<Rightarrow> save_text se path (to_json (membership_stored x m)) st)"

section \<open>The settings\<close>

definition settings_save ::
    "(settings \<Rightarrow> rstr) \<Rightarrow> joiner \<Rightarrow> store_env \<Rightarrow> settings \<Rightarrow> store \<Rightarrow> (store_error, unit) result \<times> store" where
  "settings_save to_json join se s st =
     (case settings_path join se of
        Inl e \<Rightarrow> (Inl e, st)
      | Inr path \<Rightarrow> save_text se path (to_json s) st)"

lemmas storage_evals [evals] = member_repr_of_def membership_stored_def membership_from_def config_path_def
  membership_path_def settings_path_def save_text_def membership_parse_def membership_load_def
  membership_save_def settings_save_def

section \<open>Lemmas\<close>

text \<open>A document serde writes starts with no byte order mark, and is read back as what was written.\<close>

definition reads_back :: "('a \<Rightarrow> rstr) \<Rightarrow> (rstr \<Rightarrow> 'a option) \<Rightarrow> 'a \<Rightarrow> bool" where
  "reads_back to_json json a \<longleftrightarrow>
     json (to_json a) = Some a \<and> to_json a \<noteq> [] \<and> hd (to_json a) \<noteq> 0xFEFF"

lemma reads_back_trimmed:
  "reads_back to_json json a \<Longrightarrow> json (trim_start_matches (\<lambda>c. c = 0xFEFF) (replicate n 0xFEFF @ to_json a)) = Some a"
  by (induction n) (auto simp: reads_back_def trim_start_matches_def neq_Nil_conv)

lemma btree_read_back:
  assumes "finite (dom b)"
  shows "map_of (rev (btree_entries b)) = b"
proof
  fix h
  have keys: "map fst (btree_entries b) = sorted_list_of_set (dom b)"
    by (simp add: btree_entries_def comp_def)
  then have "distinct (map fst (rev (btree_entries b)))" by (simp add: rev_map [symmetric])
  then have "map_of (rev (btree_entries b)) h = Some k \<longleftrightarrow> (h, k) \<in> set (btree_entries b)" for k
    by (simp add: map_of_eq_Some_iff)
  also have "(h, k) \<in> set (btree_entries b) \<longleftrightarrow> b h = Some k" for k
    using assms by (auto simp: btree_entries_def)
  finally show "map_of (rev (btree_entries b)) h = b h" by (metis option.exhaust)
qed

lemma member_back: "member_of_repr (member_repr_of p) = p"
  by (simp add: member_of_repr_def member_repr_of_def)

lemma membership_back:
  assumes "\<And>t. hex_decode x (hex_encode x t) = Some t" and "\<forall>t \<in> akeys (pending_invites m). length t = 16"
    and "roster_inv m"
  shows "\<exists>out. membership_from x (membership_stored x m) = Inr (m\<lparr>pending_invites := out\<rparr>) \<and>
    map_of out = map_of (pending_invites m) \<and> roster_inv (m\<lparr>pending_invites := out\<rparr>)"
proof -
  have d: "keys_distinct (pending_invites m)" and fin: "finite (dom (bindings m))" using assms(3) by (simp_all add: roster_inv_def)
  obtain out where out: "deserialize_invites x (serialize_invites x (pending_invites m)) = Inr out"
    "mset out = mset (pending_invites m)" "keys_distinct out" "map_of out = map_of (pending_invites m)"
    using stored_invites_back [OF assms(1,2) d] by blast
  have "membership_from x (membership_stored x m) = Inr (m\<lparr>pending_invites := out\<rparr>)"
    by (simp add: membership_from_def membership_stored_def out(1) btree_read_back [OF fin] comp_def member_back)
  moreover have "set out = set (pending_invites m)" using out(2) by (rule mset_eq_setD)
  then have "roster_inv (m\<lparr>pending_invites := out\<rparr>)"
    using assms(3) out(3) by (simp add: roster_inv_def hostnames_bound_def)
  ultimately show ?thesis using out(4) by blast
qed

lemma saved_text: "save_text se path text st = (Inr (), st') \<Longrightarrow> st' = st(path := FileText text)"
  by (auto simp: save_text_def split: option.splits)

text \<open>The same for the settings, of which nothing but the text is stored.\<close>

lemma saved_settings_reload:
  assumes "reads_back to_json json s" and "settings_save to_json join se s st = (Inr (), st')"
    and "settings_path join se = Inr path"
  shows "settings_load json (st' path) = Inr s"
  using assms reads_back_trimmed [OF assms(1), of 0]
  by (auto simp: settings_save_def settings_load_def settings_parse_def dest!: saved_text)

text \<open>A file from before hostnames, a bare list of ids, loads as a roster of unnamed members.\<close>

lemma bare_ids_load:
  assumes "st_members s = map LegacyMember ids" and "st_pending_invites s = None" and "st_bindings s = None" and "distinct ids"
  shows "\<exists>m. membership_from x s = Inr m \<and> members m = map new_member ids \<and> roster_inv m"
  using assms
  by (simp add: membership_from_def deserialize_invites_def comp_def member_of_repr_def roster_inv_def hostnames_bound_def
      new_member_def)

section \<open>Where the code departs from this\<close>

text \<open>
  A write that is cut off leaves a file that is not JSON, and \<open>load\<close> fails at every later start: a
  daemon with that roster never runs. The old file is gone by then.
\<close>

lemma cut_off_roster_stops_the_daemon:
  assumes "membership_path join se = Inr path" and "se_mkdir_error se = None"
    and "se_write_error se = Some (FileText left, e)" and "json (trim_start_matches (\<lambda>c. c = 0xFEFF) left) = None"
    and "membership_save x to_json join se m st = (res, st')"
    and "be_membership be = (case membership_load x json join se' st' of Inl e \<Rightarrow> Inl (message e) | Inr m \<Rightarrow> Inr m)"
    and "membership_path join se' = Inr path"
  shows "membership_load x json join se' st' = Inl FileNotJson" and "snd (snd (snd (daemon_run y be disk))) = None"
proof -
  show load: "membership_load x json join se' st' = Inl FileNotJson"
    using assms(1-5,7) by (auto simp: membership_load_def membership_save_def save_text_def membership_parse_def)
  show "snd (snd (snd (daemon_run y be disk))) = None"
    using assms(6) by (simp add: load daemon_run_def Let_def split: sum.split option.split prod.split)
qed

text \<open>
  The comments of both files say that one that fails to parse stops the daemon starting; of the
  settings that is not so, the daemon starts without an operator.
\<close>

lemma unparsable_settings_are_survived:
  "settings_parse json text = None \<Longrightarrow> settings_at_start json (FileText text) = default_settings"
  by (simp add: settings_at_start_def settings_load_def)

text \<open>
  The \<open>bindings\<close> of a file from before they existed are empty although its members have hostnames:
  a claim of such a hostname by somebody else is granted as it is, without \<open>force\<close>.
\<close>

lemma unbound_name_of_old_file_moves:
  "\<exists>m. membership_from plain_externs
       \<lparr>st_network_name = Some (lit ''home''), st_coordinator_id = Some (lit ''coord''), st_network_id = Some (lit ''n''),
        st_members = [FullMember (lit ''coord'') (Some (lit ''web'')), LegacyMember (lit ''guest'')],
        st_pending_invites = None, st_bindings = None\<rparr> = Inr m \<and>
     fst (claim_hostname (lit ''guest'') (lit ''web'') False m) = Inr (lit ''web'') \<and>
     (\<forall>i \<in> {lit ''coord'', lit ''guest''}. hostname_of (snd (claim_hostname (lit ''guest'') (lit ''web'') False m)) i = Some (lit ''web''))"
  by (simp add: evals deserialize_invites_def member_of_repr_def Let_def)

section \<open>Properties\<close>

text \<open>
  C19: A restart brings the network back. When the roster of a node in order was saved, loading it
  from the same place gives the same network: name, coordinator, members with their hostnames,
  bindings and the outstanding invite under every token, again in order; and a daemon started on it
  has the routes and the host routes of the one before. It holds for every JSON encoding that reads
  back what it wrote and starts with no byte order mark, and a hex encoding that does.
\<close>

theorem restart_keeps_the_network:
  assumes "reads_back to_json json (membership_stored x (n_membership n))"
    and "\<And>t. hex_decode x (hex_encode x t) = Some t" and "\<forall>t \<in> akeys (pending_invites (n_membership n)). length t = 16"
    and "node_inv x n"
    and "membership_save x to_json join se (n_membership n) st = (Inr (), st')"
  shows "\<exists>out. membership_load x json join se st' = Inr ((n_membership n)\<lparr>pending_invites := out\<rparr>) \<and>
    map_of out = map_of (pending_invites (n_membership n)) \<and>
    (let n' = started x tool (n_own n) ((n_membership n)\<lparr>pending_invites := out\<rparr>) s in
       node_inv x n' \<and> routes (n_peers n') = routes (n_peers n) \<and> n_installed n' = n_installed n)"
proof -
  let ?m = "n_membership n"
  obtain out where out: "membership_from x (membership_stored x ?m) = Inr (?m\<lparr>pending_invites := out\<rparr>)"
    "map_of out = map_of (pending_invites ?m)" "roster_inv (?m\<lparr>pending_invites := out\<rparr>)"
    using membership_back [OF assms(2,3) node_invD(1) [OF assms(4)]] by blast
  obtain path where path: "membership_path join se = Inr path" "st' = st(path := FileText (to_json (membership_stored x ?m)))"
    using assms(5) by (auto simp: membership_save_def split: sum.splits dest!: saved_text)
  have load: "membership_load x json join se st' = Inr (?m\<lparr>pending_invites := out\<rparr>)"
    using reads_back_trimmed [OF assms(1), of 0] by (simp add: membership_load_def path membership_parse_def out(1))
  define n' where "n' = started x tool (n_own n) (?m\<lparr>pending_invites := out\<rparr>) s"
  have inv: "node_inv x n'" unfolding n'_def by (rule started_inv [OF out(3)])
  have "n_own n' = n_own n" "members (n_membership n') = members ?m"
    by (simp_all add: n'_def started_def refresh_routes_def refresh_apply_def new_node_def split: prod.split)
  then have "others x n' = others x n" by (intro others_cong) simp_all
  then have "routes (n_peers n') = routes (n_peers n)"
    using node_invD(4) [OF inv] node_invD(4) [OF assms(4)] by (simp add: in_force_def)
  moreover from this have "n_installed n' = n_installed n"
    using node_invD(4) [OF inv] node_invD(4) [OF assms(4)] by (simp add: in_force_def routed_addrs_def)
  ultimately show ?thesis using load out(2) inv by (intro exI [of _ out]) (simp add: n'_def Let_def)
qed

text \<open>A network just created, its document, and a reader that knows that document.\<close>

definition demo_network :: membership where
  "demo_network = create (lit ''n1'') (lit ''home'') (lit ''coord'') (Some (lit ''web'')) default_membership"

definition demo_document :: rstr where
  "demo_document = lit ''{\"network_name\":\"home\",\"coordinator_id\":\"coord\",\"network_id\":\"n1\",\"members\":[{\"id\":\"coord\",\"hostname\":\"web\"}],\"pending_invites\":[],\"bindings\":{\"web\":\"coord\"}}''"

theorem restart_keeps_the_network_witness:
  "membership_load plain_externs (\<lambda>t. if t = demo_document then Some (membership_stored plain_externs demo_network) else None)
     (\<lambda>a b. a @ [47] @ b) \<lparr>se_custom_path = None, se_config_dir = Some (lit ''/etc''), se_mkdir_error = None, se_write_error = None\<rparr>
     ((\<lambda>_. FileMissing)(lit ''/etc/quix/network.json'' := FileText demo_document)) = Inr demo_network"
proof -
  let ?x = plain_externs and ?json = "\<lambda>t. if t = demo_document then Some (membership_stored plain_externs demo_network) else None"
    and ?join = "\<lambda>a b. a @ [47] @ b" and ?st' = "(\<lambda>_. FileMissing)(lit ''/etc/quix/network.json'' := FileText demo_document)"
    and ?se = "\<lparr>se_custom_path = None, se_config_dir = Some (lit ''/etc''), se_mkdir_error = None, se_write_error = None\<rparr>"
  let ?n = "started ?x \<lparr>rt_windows = False, rt_iface = [], rt_exec = \<lambda>_ _. Inl []\<rparr> (Eid []) demo_network default_settings"
  have m: "n_membership ?n = demo_network"
    by (simp add: started_def refresh_routes_def refresh_apply_def new_node_def split: prod.split)
  have none: "pending_invites demo_network = []"
    by (simp add: demo_network_def create_def default_membership_def bind_def)
  have "roster_inv demo_network" unfolding demo_network_def by (rule create_inv) (simp add: default_membership_def)
  then have "node_inv ?x ?n" by (rule started_inv)
  moreover have "reads_back (\<lambda>_. demo_document) ?json (membership_stored ?x demo_network)"
    by (simp add: reads_back_def demo_document_def lit_def)
  moreover have "membership_save ?x (\<lambda>_. demo_document) ?join ?se demo_network (\<lambda>_. FileMissing) = (Inr (), ?st')"
    by (simp add: membership_save_def membership_path_def config_path_def save_text_def lit_def)
  ultimately obtain out where "membership_load ?x ?json ?join ?se ?st' = Inr (demo_network\<lparr>pending_invites := out\<rparr>)"
    "map_of out = map_of (pending_invites demo_network)"
    using restart_keeps_the_network [of "\<lambda>_. demo_document" ?json ?x ?n ?join ?se "\<lambda>_. FileMissing" ?st'] m none by auto
  moreover from this none have "demo_network\<lparr>pending_invites := out\<rparr> = demo_network" by simp
  ultimately show ?thesis by simp
qed

end
