(* ===== verification/Zone_Rules.thy ===== *)
theory Zone_Rules
  imports Registration
begin

text \<open>
  \<open>daemon/src/resolv.rs\<close>: telling the operating system that the zone is this node's to answer,
  through systemd-resolved or through the rules of Windows' name resolution policy (NRPT). The
  programs it runs change a system, whose state is a parameter with what running a program does to
  it; what NRPT itself does with a rule is a hypothesis of the lemmas that need it. The trace of
  \<open>Registration\<close> is carried out on that system, from the start of the daemon to its stop. What
  the log says of a first failure is \<open>report_first\<close> of \<open>registration.rs\<close>.
\<close>

section \<open>Running the resolver's tools\<close>

record 's resolver_tool =
  rv_windows :: bool
  rv_linux :: bool
  rv_iface :: rstr
  rv_exec :: "rstr \<Rightarrow> rstr list \<Rightarrow> 's \<Rightarrow> (rstr, proc_output) result \<times> 's"

definition resolv_run :: "'s resolver_tool \<Rightarrow> rstr \<Rightarrow> rstr list \<Rightarrow> 's \<Rightarrow> (rstr, unit) result \<times> 's" where
  "resolv_run t program args s =
     (case rv_exec t program args s of
        (Inl e, s) \<Rightarrow> (Inl (lit ''running '' @ program @ lit '': '' @ e), s)
      | (Inr out, s) \<Rightarrow>
          if succeeded out then (Inr (), s)
          else let message = trim (utf8_text (err_bytes out));
                   message = (if message = [] then trim (utf8_text (out_bytes out)) else message)
               in (Inl (program @ [32] @ join_with [32] args @ lit '': '' @ message), s))"

text \<open>A failure with the context it is given.\<close>

definition in_context :: "rstr \<Rightarrow> (rstr, unit) result \<times> 's \<Rightarrow> (rstr, unit) result \<times> 's" where
  "in_context what r = (case r of (Inl e, s) \<Rightarrow> (Inl (what @ lit '': '' @ e), s) | (Inr u, s) \<Rightarrow> (Inr u, s))"

definition transiently :: "(rstr, unit) result \<times> 's \<Rightarrow> (resolv_error, unit) result \<times> 's" where
  "transiently r = (case r of (Inl e, s) \<Rightarrow> (Inl (Transient e), s) | (Inr u, s) \<Rightarrow> (Inr u, s))"

section \<open>systemd-resolved\<close>

definition REMEDY :: "bool \<Rightarrow> rstr option" where
  "REMEDY linux =
     (if linux
      then Some (lit ''systemd-resolved is not running; enable it with `sudo systemctl enable --now systemd-resolved`'')
      else None)"

definition resolvectl :: "'s resolver_tool \<Rightarrow> rstr list \<Rightarrow> 's \<Rightarrow> (rstr, unit) result \<times> 's" where
  "resolvectl t args s = resolv_run t (lit ''resolvectl'') args s"

definition resolv_available :: "'s resolver_tool \<Rightarrow> 's \<Rightarrow> (rstr, unit) result \<times> 's" where
  "resolv_available t s =
     (case rv_exec t (lit ''resolvectl'') [lit ''status''] s of
        (res, s) \<Rightarrow>
          if (case res of Inr out \<Rightarrow> succeeded out | Inl _ \<Rightarrow> False) then (Inr (), s)
          else (Inl (lit ''resolvectl is missing or systemd-resolved is not running''), s))"

definition resolved_register :: "'s resolver_tool \<Rightarrow> socket_addr \<Rightarrow> 's \<Rightarrow> (resolv_error, unit) result \<times> 's" where
  "resolved_register t server s =
     (case resolv_available t s of
        (Inl e, s) \<Rightarrow> (Inl (NoResolver (lit ''systemd-resolved is not available: '' @ e) (REMEDY (rv_linux t))), s)
      | (Inr _, s) \<Rightarrow>
          (case in_context (lit ''pointing the link at our resolver'')
               (resolvectl t [lit ''dns'', rv_iface t, show_socket server] s) of
             (Inl e, s) \<Rightarrow> (Inl (Transient e), s)
           | (Inr _, s) \<Rightarrow>
               transiently (in_context (lit ''claiming the zone'')
                 (resolvectl t [lit ''domain'', rv_iface t, [126] @ ZONE] s))))"

definition resolved_deregister :: "'s resolver_tool \<Rightarrow> 's \<Rightarrow> (rstr, unit) result \<times> 's" where
  "resolved_deregister t s = resolvectl t [lit ''revert'', rv_iface t] s"

section \<open>NRPT\<close>

abbreviation quoted :: "rstr \<Rightarrow> rstr" where "quoted s \<equiv> [39] @ s @ [39]"

definition NRPT_COMMENT :: rstr where "NRPT_COMMENT = lit ''quix mesh resolver''"

abbreviation powershell_args :: "rstr \<Rightarrow> rstr list" where
  "powershell_args script \<equiv> [lit ''-NoProfile'', lit ''-NonInteractive'', lit ''-Command'', script]"

definition powershell :: "'s resolver_tool \<Rightarrow> rstr \<Rightarrow> 's \<Rightarrow> (rstr, unit) result \<times> 's" where
  "powershell t script s = resolv_run t (lit ''powershell'') (powershell_args script) s"

definition add_script :: "socket_addr \<Rightarrow> rstr" where
  "add_script server =
     lit ''Add-DnsClientNrptRule -Namespace '' @ quoted ([46] @ ZONE) @ lit '' -NameServers '' @ quoted (show_ip (fst server)) @
     lit '' -Comment '' @ quoted NRPT_COMMENT"

definition remove_script :: rstr where
  "remove_script =
     lit ''Get-DnsClientNrptRule | Where-Object { $_.Comment -eq '' @ quoted NRPT_COMMENT @
     lit '' } | Remove-DnsClientNrptRule -Force -ErrorAction SilentlyContinue''"

definition nrpt_deregister :: "'s resolver_tool \<Rightarrow> 's \<Rightarrow> (rstr, unit) result \<times> 's" where
  "nrpt_deregister t s = in_context (lit ''removing the NRPT rule'') (powershell t remove_script s)"

text \<open>The rules of an earlier run are cleared first, whatever comes of it.\<close>

definition nrpt_register :: "'s resolver_tool \<Rightarrow> socket_addr \<Rightarrow> 's \<Rightarrow> (resolv_error, unit) result \<times> 's" where
  "nrpt_register t server s =
     (case nrpt_deregister t s of
        (_, s) \<Rightarrow> transiently (in_context (lit ''adding the NRPT rule'') (powershell t (add_script server) s)))"

section \<open>Either platform\<close>

definition resolv_register :: "'s resolver_tool \<Rightarrow> socket_addr \<Rightarrow> 's \<Rightarrow> (resolv_error, unit) result \<times> 's" where
  "resolv_register t server s =
     (if rv_windows t then nrpt_register t server s else resolved_register t server s)"

definition resolv_deregister :: "'s resolver_tool \<Rightarrow> 's \<Rightarrow> (rstr, unit) result \<times> 's" where
  "resolv_deregister t s = (if rv_windows t then nrpt_deregister t s else resolved_deregister t s)"

definition resolv_error_text :: "resolv_error \<Rightarrow> rstr" where
  "resolv_error_text e = (case e of NoResolver source _ \<Rightarrow> source | Transient source \<Rightarrow> source)"

section \<open>What the log says of a first failure\<close>

definition report_first :: "bool \<Rightarrow> failure \<Rightarrow> socket_addr list \<Rightarrow> rstr \<Rightarrow> rstr list" where
  "report_first windows f candidates fallback_addr =
     (case f of
        Unreachable \<Rightarrow>
          [lit ''warning: nothing on this machine can reach the '' @ ZONE @ lit '' resolver at '' @
             join_with (lit '' or '') (map show_socket candidates) @
             lit '', so it is not registered with the system resolver yet'',
           lit ''another VPN'' @ [39] @ lit ''s IPv6 leak protection unbinds IPv6 from every adapter, and its DNS leak protection filters port '' @
             decimal (ZONE_PORT windows) @ lit ''; either will do this, and so can an interface that is still settling'',
           lit ''retrying in the background; until then names resolve via '' @ fallback_addr]
      | RegisterFailed e \<Rightarrow>
          [lit ''warning: could not register *.'' @ ZONE @ lit '' with the system resolver: '' @ resolv_error_text e] @
          (case e of
             NoResolver _ remedy \<Rightarrow>
               (case remedy of Some r \<Rightarrow> [r] | None \<Rightarrow> []) @
               [lit ''names resolve via '' @ fallback_addr @ lit '' until then; the daemon keeps watching in case that changes'']
           | Transient _ \<Rightarrow>
               [lit ''retrying in the background; until then names resolve via '' @ fallback_addr]))"

section \<open>A registration carried out\<close>

fun carry_out :: "'s resolver_tool \<Rightarrow> reg_effect list \<Rightarrow> 's \<Rightarrow> 's" where
  "carry_out t [] s = s"
| "carry_out t (RegisterAt server # fx) s = carry_out t fx (snd (resolv_register t server s))"
| "carry_out t (Released # fx) s = carry_out t fx (snd (resolv_deregister t s))"
| "carry_out t (Told _ # fx) s = carry_out t fx s"

section \<open>A stop that does not wait any longer\<close>

text \<open>The background task has \<open>STOP_LIMIT\<close> to end after it was asked to; past it, it is cancelled.\<close>

definition wait_for_stop :: "nat \<Rightarrow> nat \<Rightarrow> bool" where
  "wait_for_stop took limit \<longleftrightarrow> took < limit"

text \<open>
  A stop whose task took that long. A cancelled task does nothing more, but what the system had
  been asked before may still happen, after the release: that is \<open>late\<close>.
\<close>

definition stop_within :: "registration \<Rightarrow> nat \<Rightarrow> reg_effect list \<Rightarrow> reg_effect list \<Rightarrow> reg_effect list" where
  "stop_within reg took task_fx late =
     (let finished = (retrying reg \<longrightarrow> wait_for_stop took STOP_LIMIT)
      in stop reg task_fx @ (if finished then [] else late))"

lemma stop_in_time: "took < STOP_LIMIT \<Longrightarrow> stop_within reg took task_fx late = stop reg task_fx"
  by (simp add: stop_within_def wait_for_stop_def)

lemmas zone_rules_evals [evals] = wait_for_stop_def stop_within_def resolv_run_def in_context_def transiently_def REMEDY_def resolvectl_def resolv_available_def
  resolved_register_def resolved_deregister_def NRPT_COMMENT_def powershell_def add_script_def remove_script_def
  nrpt_deregister_def nrpt_register_def resolv_register_def resolv_deregister_def resolv_error_text_def report_first_def

lemma carry_out_append: "carry_out t (fx @ gx) s = carry_out t gx (carry_out t fx s)"
  by (induction t fx s rule: carry_out.induct) simp_all

section \<open>The rules of NRPT\<close>

record nrpt_rule =
  nr_namespace :: rstr
  nr_server :: rstr
  nr_comment :: rstr

definition zone_rule :: "socket_addr \<Rightarrow> nrpt_rule" where
  "zone_rule server = \<lparr>nr_namespace = [46] @ ZONE, nr_server = show_ip (fst server), nr_comment = NRPT_COMMENT\<rparr>"

definition foreign :: "nrpt_rule \<Rightarrow> bool" where
  "foreign r \<longleftrightarrow> nr_comment r \<noteq> NRPT_COMMENT"

text \<open>
  What Windows documents of the two scripts: the first adds a rule, the second removes the rules
  with the comment; one that does not succeed changes nothing.
\<close>

definition ran_well :: "(rstr, proc_output) result \<Rightarrow> bool" where
  "ran_well res = (case res of Inr out \<Rightarrow> succeeded out | Inl _ \<Rightarrow> False)"

abbreviation runs_script :: "'s resolver_tool \<Rightarrow> rstr \<Rightarrow> 's \<Rightarrow> (rstr, proc_output) result \<times> 's" where
  "runs_script t script \<equiv> rv_exec t (lit ''powershell'') (powershell_args script)"

definition keeps_nrpt :: "'s resolver_tool \<Rightarrow> ('s \<Rightarrow> nrpt_rule list) \<Rightarrow> bool" where
  "keeps_nrpt t rules \<longleftrightarrow>
     (\<forall>server s. rules (snd (runs_script t (add_script server) s)) =
        (if ran_well (fst (runs_script t (add_script server) s)) then rules s @ [zone_rule server] else rules s)) \<and>
     (\<forall>s. rules (snd (runs_script t remove_script s)) =
        (if ran_well (fst (runs_script t remove_script s)) then filter foreign (rules s) else rules s))"

lemma resolv_run_ok: "is_ok (fst (resolv_run t program args s)) \<longleftrightarrow> ran_well (fst (rv_exec t program args s))"
  by (cases "rv_exec t program args s") (auto simp: resolv_run_def ran_well_def Let_def split: sum.split)

lemma resolv_run_state: "snd (resolv_run t program args s) = snd (rv_exec t program args s)"
  by (cases "rv_exec t program args s") (auto simp: resolv_run_def Let_def split: sum.split)

lemma context_parts:
  "is_ok (fst (in_context what r)) \<longleftrightarrow> is_ok (fst r)" "snd (in_context what r) = snd r"
  "is_ok (fst (transiently r)) \<longleftrightarrow> is_ok (fst r)" "snd (transiently r) = snd r"
  by (cases r; auto simp: in_context_def transiently_def split: sum.split)+

lemma nrpt_removed:
  assumes "keeps_nrpt t rules"
  shows "rules (snd (nrpt_deregister t s)) = (if is_ok (fst (nrpt_deregister t s)) then filter foreign (rules s) else rules s)"
  using assms
  by (simp add: nrpt_deregister_def powershell_def context_parts resolv_run_ok resolv_run_state keeps_nrpt_def del: split_paired_All)

lemma nrpt_added:
  assumes "keeps_nrpt t rules"
  shows "rules (snd (nrpt_register t server s)) =
    (if is_ok (fst (nrpt_register t server s)) then rules (snd (nrpt_deregister t s)) @ [zone_rule server]
     else rules (snd (nrpt_deregister t s)))"
  using assms
  by (simp add: nrpt_register_def powershell_def context_parts resolv_run_ok resolv_run_state keeps_nrpt_def case_prod_unfold
      del: split_paired_All)

lemma zone_rule_ours [simp]: "\<not> foreign (zone_rule server)"
  by (simp add: foreign_def zone_rule_def)

text \<open>Nothing the daemon runs touches a rule of anybody else.\<close>

lemma others_untouched:
  assumes "rv_windows t" and "keeps_nrpt t rules"
  shows "filter foreign (rules (carry_out t fx s)) = filter foreign (rules s)"
proof (induction t\<equiv>t fx s rule: carry_out.induct)
  case (2 server fx s)
  then show ?case using assms nrpt_added [OF assms(2), of server s] nrpt_removed [OF assms(2), of s]
    by (auto simp: resolv_register_def)
next
  case (3 fx s)
  then show ?case using assms nrpt_removed [OF assms(2), of s] by (auto simp: resolv_deregister_def)
qed simp_all

text \<open>A registration that succeeded, after clearing that did, leaves one rule of ours, for that server.\<close>

lemma one_rule_of_ours:
  assumes "rv_windows t" and "keeps_nrpt t rules"
    and "fst (resolv_deregister t s) = Inr ()" and "fst (resolv_register t server s) = Inr ()"
  shows "rules (snd (resolv_register t server s)) = filter foreign (rules s) @ [zone_rule server]"
  using assms nrpt_added [OF assms(2), of server s] nrpt_removed [OF assms(2), of s]
  by (auto simp: resolv_register_def resolv_deregister_def)

lemma nothing_asked: "{a. RegisterAt a \<in> set fx} = {} \<Longrightarrow> Released \<notin> set fx \<Longrightarrow> carry_out t fx s = s"
  by (induction t fx s rule: carry_out.induct) auto

section \<open>Where the code departs from this\<close>

text \<open>A registration that lands after the release leaves a rule behind.\<close>

lemma late_rule_outlives_the_run:
  assumes "rv_windows t" and "keeps_nrpt t rules" and "retrying reg" and "STOP_LIMIT \<le> took"
    and "list_ex (\<lambda>f. case f of RegisterAt _ \<Rightarrow> True | _ \<Rightarrow> False) task_fx"
    and "is_ok (fst (resolv_register t server (snd (resolv_deregister t s))))"
  shows "zone_rule server \<in> set (rules (carry_out t (stop_within reg took task_fx [RegisterAt server]) s))"
  using assms nrpt_added [OF assms(2), of server "snd (resolv_deregister t s)"]
  by (auto simp: stop_within_def wait_for_stop_def stop_def resolv_register_def)

text \<open>
  A rule that outlives a run, because its registration was cut off on shutdown, is said to be cleared
  by the next start. It is cleared by the next registration: a run in which no address can be
  reached never asks for one, and leaves the system pointing at a resolver that is not there.
\<close>

lemma old_rule_outlives_unreachable_run:
  assumes "found = None" and "\<forall>r \<in> set rounds. rd_found r = None"
  shows "carry_out t (registration_life fallback_addr candidates found register_at rounds) s = s"
proof -
  let ?tr = "registration_life fallback_addr candidates found register_at rounds"
  note r = release_follows_registration [of fallback_addr candidates found register_at rounds, unfolded Let_def]
  have "{a. RegisterAt a \<in> set ?tr} = {}" using conjunct2 [OF r] assms by (auto split: if_splits)
  moreover from this have "Released \<notin> set ?tr" using conjunct1 [OF r] by (metis (no_types, lifting) Collect_empty_eq)
  ultimately show ?thesis by (rule nothing_asked)
qed

section \<open>Properties\<close>


text \<open>A system that is its rules, on which both scripts always work.\<close>

definition add_prefix :: rstr where
  "add_prefix = lit ''Add-DnsClientNrptRule -Namespace '' @ quoted ([46] @ ZONE) @ lit '' -NameServers '' @ [39]"

definition add_suffix :: rstr where
  "add_suffix = [39] @ lit '' -Comment '' @ quoted NRPT_COMMENT"

definition demo_exec :: "rstr \<Rightarrow> rstr list \<Rightarrow> nrpt_rule list \<Rightarrow> (rstr, proc_output) result \<times> nrpt_rule list" where
  "demo_exec program args rules =
     (Inr \<lparr>succeeded = True, out_bytes = [], err_bytes = []\<rparr>,
      if args = powershell_args remove_script then filter foreign rules
      else let rest = drop (length add_prefix) (last args)
        in rules @ [\<lparr>nr_namespace = [46] @ ZONE, nr_server = take (length rest - length add_suffix) rest, nr_comment = NRPT_COMMENT\<rparr>])"

definition demo_windows :: "nrpt_rule list resolver_tool" where
  "demo_windows = \<lparr>rv_windows = True, rv_linux = False, rv_iface = lit ''quix'', rv_exec = demo_exec\<rparr>"

lemma demo_windows_keeps: "keeps_nrpt demo_windows id"
proof -
  have "add_script server = add_prefix @ show_ip (fst server) @ add_suffix" for server
    by (simp add: add_script_def add_prefix_def add_suffix_def)
  moreover have "add_script server \<noteq> remove_script" for server
    by (simp add: add_script_def remove_script_def lit_def)
  ultimately show ?thesis
    by (simp add: keeps_nrpt_def demo_windows_def demo_exec_def ran_well_def zone_rule_def)
qed


end
