(* ===== verification/Sockets.thy ===== *)
theory Sockets
  imports Ipc Dns
begin

text \<open>
  The two ends at which the daemon listens: the local socket of \<open>daemon/src/ipc.rs\<close>, how it is made
  and the loop that accepts on it, and the UDP sockets of \<open>daemon/src/dns.rs\<close>. A connection and a
  datagram are handled by the steps of \<open>Ipc\<close> and \<open>Dns\<close>; what the system answers is an input. A loop
  that serves for ever is a recursion over what it was given.
\<close>

section \<open>The local socket\<close>

record listen_env =
  le_windows :: bool
  le_name :: rstr
  le_parent :: "rstr option"
  le_name_error :: "rstr option"
  le_mkdir_error :: "rstr option"
  le_security_error :: "rstr option"
  le_create_error :: "rstr option"
  le_chmod_error :: "rstr option"

datatype listen_effect =
    MadeDirectory rstr
  | RemovedStale rstr
  | OpenedToEveryone rstr
  | Bound rstr

text \<open>
  On Unix the socket's directory is made, a socket left behind is removed, and the new one is made
  readable and writable for everyone once it is bound. Whether the removal worked is ignored.
\<close>

definition listener_unix :: "listen_env \<Rightarrow> (rstr, unit) result \<times> listen_effect list" where
  "listener_unix le =
     (let made = (case le_parent le of Some dir \<Rightarrow> [MadeDirectory dir] | None \<Rightarrow> []);
          removed = made @ [RemovedStale (le_name le)] in
      case (if le_parent le \<noteq> None then le_mkdir_error le else None) of
        Some e \<Rightarrow> (Inl e, [])
      | None \<Rightarrow>
      case le_name_error le of
        Some e \<Rightarrow> (Inl e, removed)
      | None \<Rightarrow>
      case le_create_error le of
        Some e \<Rightarrow> (Inl e, removed)
      | None \<Rightarrow>
      case le_chmod_error le of
        Some e \<Rightarrow> (Inl e, removed @ [Bound (le_name le)])
      | None \<Rightarrow> (Inr (), removed @ [Bound (le_name le), OpenedToEveryone (le_name le)]))"

text \<open>On Windows the pipe is made with an access list that grants everyone, before it is there.\<close>

definition listener_windows :: "listen_env \<Rightarrow> (rstr, unit) result \<times> listen_effect list" where
  "listener_windows le =
     (case le_name_error le of
        Some e \<Rightarrow> (Inl e, [])
      | None \<Rightarrow>
      case le_security_error le of
        Some e \<Rightarrow> (Inl e, [])
      | None \<Rightarrow>
      case le_create_error le of
        Some e \<Rightarrow> (Inl e, [])
      | None \<Rightarrow> (Inr (), [OpenedToEveryone (le_name le), Bound (le_name le)]))"

definition build_listener :: "listen_env \<Rightarrow> (rstr, unit) result \<times> listen_effect list" where
  "build_listener le = (if le_windows le then listener_windows le else listener_unix le)"

text \<open>What an accept gives: a failure, or a connection whose line cannot be read, or one that is handled.\<close>

datatype incoming =
    AcceptFailed rstr
  | LineUnreadable rstr
  | Connection ipc_env credentials rstr "u8 list"

fun accept_loop ::
    "externs \<Rightarrow> (rstr \<Rightarrow> request option) \<Rightarrow> incoming list \<Rightarrow> node \<Rightarrow> (ipc_result option \<times> push list) list \<times> node" where
  "accept_loop x json [] n = ([], n)"
| "accept_loop x json (AcceptFailed _ # later) n = accept_loop x json later n"
| "accept_loop x json (LineUnreadable _ # later) n =
     (case accept_loop x json later n of (rs, n) \<Rightarrow> ((None, []) # rs, n))"
| "accept_loop x json (Connection ie creds line buffered # later) n =
     (case ipc_handle x json ie creds line buffered n of (res, n, pushes) \<Rightarrow>
        (case accept_loop x json later n of (rs, n) \<Rightarrow> ((Some res, pushes) # rs, n)))"

definition ipc_serve ::
    "externs \<Rightarrow> (rstr \<Rightarrow> request option) \<Rightarrow> listen_env \<Rightarrow> incoming list \<Rightarrow> node \<Rightarrow>
     (rstr, (ipc_result option \<times> push list) list) result \<times> node" where
  "ipc_serve x json le given n =
     (case build_listener le of
        (Inl e, _) \<Rightarrow> (Inl e, n)
      | (Inr _, _) \<Rightarrow> (case accept_loop x json given n of (rs, n) \<Rightarrow> (Inr rs, n)))"

section \<open>The sockets of the resolver\<close>

definition DEFAULT_ADDR :: rstr where "DEFAULT_ADDR = lit ''127.0.0.1:5354''"

text \<open>Where the resolver always answers: \<open>parse\<close> is the standard library's reading of a socket address.\<close>

definition listen_addr :: "(rstr \<Rightarrow> socket_addr option) \<Rightarrow> rstr option \<Rightarrow> (rstr, socket_addr) result" where
  "listen_addr parse custom =
     (let raw = (case custom of Some a \<Rightarrow> a | None \<Rightarrow> DEFAULT_ADDR) in
      case parse raw of Some a \<Rightarrow> Inr a | None \<Rightarrow> Inl (lit ''QUIX_DNS_ADDR is not an address: '' @ raw))"

text \<open>
  Each socket is served by a task of its own; the turns of all of them in the order they are taken,
  each at the node as it is then, with the socket it came in on.
\<close>

definition dns_serve ::
    "externs \<Rightarrow> (u8 list \<Rightarrow> query option) \<Rightarrow> (reply \<Rightarrow> u8 list option) \<Rightarrow> socket_addr list \<Rightarrow>
     (nat \<times> (u8 list \<times> socket_addr) option \<times> node) list \<Rightarrow> (socket_addr \<times> u8 list \<times> socket_addr) list" where
  "dns_serve x parse build sockets turns =
     List.map_filter (\<lambda>(k, received, n).
       if k < length sockets then map_option (\<lambda>(reply, dest). (sockets ! k, reply, dest)) (answer_turn x parse build received n)
       else None) turns"

lemmas sockets_evals [evals] = listener_unix_def listener_windows_def build_listener_def ipc_serve_def DEFAULT_ADDR_def
  listen_addr_def dns_serve_def

section \<open>Lemmas\<close>

text \<open>Whatever fails, a listener that was built is bound and open to everyone; who may do what is \<open>authorize\<close>'s.\<close>

lemma built_is_open:
  "build_listener le = (Inr (), fx) \<Longrightarrow> Bound (le_name le) \<in> set fx \<and> OpenedToEveryone (le_name le) \<in> set fx"
  by (auto simp: build_listener_def listener_unix_def listener_windows_def Let_def split: if_splits option.splits)

text \<open>A caller who is neither a superuser nor the operator.\<close>

definition powerless :: "node \<Rightarrow> credentials \<Rightarrow> bool" where
  "powerless n creds \<longleftrightarrow> \<not> is_superuser (caller_of creds) \<and> \<not> is_operator (state_operator n) (caller_of creds)"

lemma powerless_handle:
  assumes "powerless n creds"
  shows "\<exists>res. ipc_handle x json ie creds line buffered n = (res, n, []) \<and> (\<forall>t. res \<noteq> Transfers t)"
proof (cases "json (trim line)")
  case None
  then show ?thesis by (simp add: ipc_handle_def)
next
  case (Some req)
  show ?thesis
  proof (cases "is_read_only req")
    case True
    from read_only_handle [of json line req x ie creds buffered n] Some True show ?thesis by auto
  next
    case False
    then have "\<exists>msg. authorize (ie_accounts ie) req (caller_of creds) (state_operator n) = Inl msg"
      using assms by (auto simp: powerless_def authorize_def)
    with refused_handle [of json line req] Some show ?thesis by fastforce
  qed
qed

text \<open>
  However many connections such callers make to the socket that is open to all of them, and
  whatever they write, the node stays as it is, nothing is sent and no transfer begins.
\<close>

lemma powerless_change_nothing:
  assumes "\<forall>c \<in> set given. case c of Connection _ creds _ _ \<Rightarrow> powerless n creds | _ \<Rightarrow> True"
  shows "snd (accept_loop x json given n) = n \<and>
    (\<forall>(res, pushes) \<in> set (fst (accept_loop x json given n)). pushes = [] \<and> (\<forall>t. res \<noteq> Some (Transfers t)))"
  using assms
proof (induction given)
  case (Cons c given)
  then have ih: "snd (accept_loop x json given n) = n"
    "\<forall>(res, pushes) \<in> set (fst (accept_loop x json given n)). pushes = [] \<and> (\<forall>t. res \<noteq> Some (Transfers t))" by simp_all
  show ?case
  proof (cases c)
    case (Connection ie creds line buffered)
    then obtain res where "ipc_handle x json ie creds line buffered n = (res, n, [])" "\<forall>t. res \<noteq> Transfers t"
      using powerless_handle [of n creds x json ie line buffered] Cons.prems by auto
    with ih Connection show ?thesis by (simp add: case_prod_unfold)
  qed (use ih in \<open>simp_all add: case_prod_unfold\<close>)
qed simp

text \<open>The reply to a query leaves by the socket the query came in on, to where it came from.\<close>

lemma replies_go_back:
  assumes "(s, reply, dest) \<in> set (dns_serve x parse build sockets turns)"
  shows "s \<in> set sockets \<and> (\<exists>k datagram n. (k, Some (datagram, dest), n) \<in> set turns \<and> s = sockets ! k)"
  using assms by (force simp: dns_serve_def set_map_filter answer_turn_def split: if_splits option.splits)

end
