(* ===== verification/Expiry.thy ===== *)
theory Expiry
  imports Proto
begin

text \<open>
  \<open>cli/src/commands/expiry.rs\<close> and its callers in \<open>invite.rs\<close> and \<open>file/send.rs\<close>: the windows
  asked for with \<open>--expires\<close>. Seconds are 64-bit words; the multiplication is checked, as in the
  source. What a window is for only shows in the texts, so a refusal names it.
\<close>

definition checked_mul :: "u64 \<Rightarrow> u64 \<Rightarrow> u64 option" where
  "checked_mul a b = (if unat a * unat b < 2 ^ 64 then Some (a * b) else None)"

datatype expiry_error =
    NotWhole rstr rstr
  | ExpiresAtOnce rstr
  | UnknownUnit rstr
  | TooLong rstr rstr

definition MINUTE :: nat where "MINUTE = 60"
definition HOUR :: nat where "HOUR = 60 * MINUTE"
definition DAY :: nat where "DAY = 24 * HOUR"

text \<open>\<open>span\<close>: the largest whole unit that fits.\<close>

definition span_unit :: "nat \<Rightarrow> nat \<times> rstr" where
  "span_unit s =
     (if s mod DAY = 0 \<and> DAY \<le> s then (s div DAY, lit ''day'')
      else if s mod HOUR = 0 \<and> HOUR \<le> s then (s div HOUR, lit ''hour'')
      else if s mod MINUTE = 0 \<and> MINUTE \<le> s then (s div MINUTE, lit ''minute'')
      else (s, lit ''second''))"

definition span :: "nat \<Rightarrow> rstr" where
  "span s =
     (case span_unit s of (n, unit) \<Rightarrow>
        if n = 1 then lit ''1 '' @ unit else decimal n @ lit '' '' @ unit @ lit ''s'')"

definition per_unit :: "rstr \<Rightarrow> u64 option" where
  "per_unit unit =
     (if unit \<in> set (map lit [''min'', ''mins'', ''minute'', ''minutes'']) then Some 60
      else if unit \<in> set (map lit [''hour'', ''hours'', ''hr'', ''hrs'']) then Some (60 * 60)
      else if unit \<in> set (map lit [''day'', ''days'']) then Some (24 * 60 * 60)
      else None)"

definition parse_u64 :: "rstr \<Rightarrow> u64 option" where
  "parse_u64 s = map_option of_nat (parse_unsigned (2 ^ 64) s)"

definition parse_window :: "rstr \<Rightarrow> rstr \<Rightarrow> u64 \<Rightarrow> rstr \<Rightarrow> (expiry_error, u64) result" where
  "parse_window amount unit limit what =
     (case parse_u64 amount of
        None \<Rightarrow> Inl (NotWhole amount unit)
      | Some n \<Rightarrow>
          if n = 0 then Inl (ExpiresAtOnce what)
          else case per_unit (ascii_lower unit) of
            None \<Rightarrow> Inl (UnknownUnit (ascii_lower unit))
          | Some per \<Rightarrow>
              (case checked_mul n per of
                 Some s \<Rightarrow> if s \<le> limit then Inr s else Inl (TooLong what (span (unat limit)))
               | None \<Rightarrow> Inl (TooLong what (span (unat limit)))))"

definition invite_ttl_secs :: "(rstr \<times> rstr) option \<Rightarrow> (expiry_error, u64) result" where
  "invite_ttl_secs expires =
     (case expires of
        Some (amount, unit) \<Rightarrow> parse_window amount unit (of_nat MAX_INVITE_TTL) (lit ''an invite'')
      | None \<Rightarrow> Inr (of_nat DEFAULT_INVITE_TTL))"

definition send_ttl_secs :: "(rstr \<times> rstr) option \<Rightarrow> (expiry_error, u64) result" where
  "send_ttl_secs expires =
     (case expires of
        Some (amount, unit) \<Rightarrow> parse_window amount unit (of_nat MAX_FILE_TTL) (lit ''a file offer'')
      | None \<Rightarrow> Inr (of_nat DEFAULT_FILE_TTL))"

lemmas expiry_evals [evals] = checked_mul_def MINUTE_def HOUR_def DAY_def span_unit_def span_def per_unit_def
  parse_u64_def parse_window_def invite_ttl_secs_def send_ttl_secs_def

section \<open>Lemmas\<close>

lemma checked_mul_Some: "checked_mul a b = Some c \<longleftrightarrow> unat a * unat b < 2 ^ 64 \<and> unat c = unat a * unat b"
proof -
  have "unat (a * b) = unat a * unat b" if "unat a * unat b < 2 ^ 64" using that by (simp add: unat_mult_lem [symmetric])
  then show ?thesis by (auto simp: checked_mul_def word_unat_eq_iff)
qed

text \<open>A window is accepted exactly when the product, not wrapped, is positive and within the limit.\<close>

lemma parse_window_Inr:
  "parse_window amount unit limit what = Inr s \<longleftrightarrow>
     (\<exists>n per. parse_unsigned (2 ^ 64) amount = Some n \<and> 0 < n \<and> per_unit (ascii_lower unit) = Some per \<and>
        unat s = n * unat per \<and> n * unat per \<le> unat limit)"
proof -
  have u: "unat (of_nat n :: u64) = n" if "parse_unsigned (2 ^ 64) amount = Some n" for n
    using parse_unsigned_below [OF that] by (simp add: unat_of_nat)
  have z: "(of_nat n :: u64) = 0 \<longleftrightarrow> n = 0" if "parse_unsigned (2 ^ 64) amount = Some n" for n
    using u [OF that] by (metis unat_0 unat_eq_zero)
  have top: "unat limit < 2 ^ 64" using unsigned_less [of limit, where ?'a = nat] by simp
  show ?thesis
  proof (cases "parse_unsigned (2 ^ 64) amount")
    case (Some n)
    show ?thesis
    proof (cases "n = 0 \<or> per_unit (ascii_lower unit) = None")
      case False
      then obtain per where per: "per_unit (ascii_lower unit) = Some per" "n \<noteq> 0" by auto
      show ?thesis
      proof (cases "checked_mul (of_nat n) per")
        case None
        then have "\<not> n * unat per \<le> unat limit"
          using u [OF Some] top by (auto simp: checked_mul_def split: if_splits)
        then show ?thesis using Some per None z [OF Some] by (simp add: parse_window_def parse_u64_def)
      next
        case (Some t)
        then have "unat t = n * unat per"
          using u [OF \<open>parse_unsigned (2 ^ 64) amount = Some n\<close>] by (simp add: checked_mul_Some)
        then show ?thesis
          using \<open>parse_unsigned (2 ^ 64) amount = Some n\<close> per Some z [OF \<open>parse_unsigned (2 ^ 64) amount = Some n\<close>]
          by (auto simp: parse_window_def parse_u64_def word_le_nat_alt word_unat_eq_iff)
      qed
    qed (use Some z [OF Some] in \<open>auto simp: parse_window_def parse_u64_def\<close>)
  qed (simp add: parse_window_def parse_u64_def)
qed

lemma per_unit_pos: "per_unit u = Some per \<Longrightarrow> 0 < unat per"
  by (auto simp: per_unit_def split: if_splits)

lemma parse_window_bounds:
  assumes "parse_window amount unit limit what = Inr s"
  shows "1 \<le> unat s \<and> unat s \<le> unat limit"
proof -
  from assms obtain n per where "0 < n" "per_unit (ascii_lower unit) = Some per" "unat s = n * unat per"
    "n * unat per \<le> unat limit" by (auto simp: parse_window_Inr)
  with per_unit_pos show ?thesis by (metis One_nat_def Suc_leI nat_0_less_mult_iff)
qed

lemma ttl_bounds:
  "invite_ttl_secs e = Inr s \<Longrightarrow> 1 \<le> unat s \<and> unat s \<le> MAX_INVITE_TTL"
  "send_ttl_secs e = Inr s \<Longrightarrow> 1 \<le> unat s \<and> unat s \<le> MAX_FILE_TTL"
  using parse_window_bounds [of _ _ "of_nat MAX_INVITE_TTL" _ s] parse_window_bounds [of _ _ "of_nat MAX_FILE_TTL" _ s]
  by (auto simp: invite_ttl_secs_def send_ttl_secs_def proto_consts split: option.splits)

end
