(* ===== verification/Cli_Send.thy ===== *)
theory Cli_Send
  imports Filename Frame Expiry
begin

text \<open>
  \<open>cli/src/commands/file/send.rs\<close>, with the exit codes of \<open>file/mod.rs\<close> and \<open>main.rs\<close>: the sending
  command. What the operating system says of the file, the chunks its reads return, what the
  daemon answers and whether it still takes frames are inputs; the frames written are the
  output. The hash and the parser of the daemon's events are parameters. Byte counts are 64-bit
  words.
\<close>

section \<open>Before the daemon is contacted\<close>

text \<open>
  What a path shows: its metadata, the file opened, and its last component, which may be missing
  or not Unicode.
\<close>

record path_view =
  pv_metadata :: "(rstr, bool) result"
  pv_open :: "rstr option"
  pv_opened :: "(rstr, bool \<times> u64) result"
  pv_file_name :: "rstr option option"

datatype prepare_error =
    CannotLookAt rstr
  | IsADirectory
  | CannotOpen rstr
  | NotARegularFile
  | HasNoFileName
  | NameNotUnicode
  | NameRefused filename_error

text \<open>\<open>pv_metadata\<close> says whether it is a directory, \<open>pv_opened\<close> whether it is a regular file.\<close>

definition prepare :: "platform \<Rightarrow> path_view \<Rightarrow> (prepare_error, rstr \<times> u64) result" where
  "prepare platform path =
     (case pv_metadata path of
        Inl e \<Rightarrow> Inl (CannotLookAt e)
      | Inr is_dir \<Rightarrow>
      if is_dir then Inl IsADirectory
      else case pv_open path of
        Some e \<Rightarrow> Inl (CannotOpen e)
      | None \<Rightarrow>
      case pv_opened path of
        Inl e \<Rightarrow> Inl (CannotLookAt e)
      | Inr (is_file, sz) \<Rightarrow>
      if \<not> is_file then Inl NotARegularFile
      else case pv_file_name path of
        None \<Rightarrow> Inl HasNoFileName
      | Some None \<Rightarrow> Inl NameNotUnicode
      | Some (Some name) \<Rightarrow>
          (case check name platform of Inl e \<Rightarrow> Inl (NameRefused e) | Inr _ \<Rightarrow> Inr (name, sz)))"

section \<open>Streaming\<close>

datatype stream_error =
    ReadFailed rstr
  | FileGrew
  | FileShrank
  | BrokenOff "rstr option"

definition grew_text :: rstr where "grew_text = lit ''the file grew while it was being sent''"
definition shrank_text :: rstr where "shrank_text = lit ''the file shrank while it was being sent''"

text \<open>Why the daemon stopped taking frames: its next frame, if that is an error.\<close>

definition broken_off :: "(frame_error, frame) result \<Rightarrow> stream_error" where
  "broken_off next = (case next of Inr (Error message) \<Rightarrow> BrokenOff (Some message) | _ \<Rightarrow> BrokenOff None)"

text \<open>
  The reads of the file, each with whether the daemon takes the frame made of it; an empty read,
  or no more of them, is the end of the file. The result is the number of bytes and the bytes
  hashed so far.
\<close>

fun stream_reads ::
    "u64 \<Rightarrow> stream_error \<Rightarrow> u64 \<Rightarrow> u8 list \<Rightarrow> ((rstr, u8 list) result \<times> bool) list \<Rightarrow>
     (stream_error, u64 \<times> u8 list) result \<times> frame list" where
  "stream_reads sz broken sent hashed [] = (Inr (sent, hashed), [])"
| "stream_reads sz broken sent hashed ((rd, written) # rds) =
     (case rd of
        Inl e \<Rightarrow> (Inl (ReadFailed e), [Error e])
      | Inr buf \<Rightarrow>
          if buf = [] then (Inr (sent, hashed), [])
          else let sent = sent + of_nat (length buf) in
            if sent > sz then (Inl FileGrew, [Error grew_text])
            else if \<not> written then (Inl broken, [])
            else (case stream_reads sz broken sent (hashed @ buf) rds of
                    (res, frames) \<Rightarrow> (res, Data buf # frames)))"

record stream_env =
  se_reads :: "((rstr, u8 list) result \<times> bool) list"
  se_hash_written :: bool
  se_end_written :: bool
  se_after :: "(frame_error, frame) result"

definition stream :: "(u8 list \<Rightarrow> u8 list) \<Rightarrow> u64 \<Rightarrow> stream_env \<Rightarrow> (stream_error, unit) result \<times> frame list" where
  "stream blake3 sz se =
     (case stream_reads sz (broken_off (se_after se)) 0 [] (se_reads se) of
        (Inl e, frames) \<Rightarrow> (Inl e, frames)
      | (Inr (sent, hashed), frames) \<Rightarrow>
          if sent \<noteq> sz then (Inl FileShrank, frames @ [Error shrank_text])
          else if \<not> se_hash_written se then (Inl (broken_off (se_after se)), frames)
          else if \<not> se_end_written se
          then (Inl (broken_off (se_after se)), frames @ [Hash (blake3 hashed)])
          else (Inr (), frames @ [Hash (blake3 hashed), End]))"

section \<open>The command\<close>

datatype ended = EndedRejected | EndedExpired | EndedCancelled

definition ended_code :: "ended \<Rightarrow> int" where
  "ended_code e = (case e of EndedRejected \<Rightarrow> 3 | EndedExpired \<Rightarrow> 4 | EndedCancelled \<Rightarrow> 130)"

datatype send_error =
    BadWindow expiry_error
  | NotPrepared prepare_error
  | NoTransfer rstr
  | SendFailed rstr
  | SendEnded ended
  | DeliveredTooSoon
  | UnexpectedFromDaemon
  | UnreadableEvent
  | DaemonWentAway
  | NotStreamed stream_error

text \<open>What \<open>main\<close> exits with.\<close>

definition exit_code :: "(send_error, unit) result \<Rightarrow> int" where
  "exit_code r = (case r of Inr _ \<Rightarrow> 0 | Inl (SendEnded e) \<Rightarrow> ended_code e | Inl _ \<Rightarrow> 1)"

type_synonym event_parse = "u8 list \<Rightarrow> file_event option"

text \<open>The answer to the offer; no answer is an interrupt.\<close>

definition take_answer :: "event_parse \<Rightarrow> (frame_error, frame) result option \<Rightarrow> (send_error, unit) result" where
  "take_answer parse answer =
     (case answer of
        None \<Rightarrow> Inl (SendEnded EndedCancelled)
      | Some (Inr (Control json)) \<Rightarrow>
          (case parse json of
             None \<Rightarrow> Inl UnreadableEvent
           | Some Accepted \<Rightarrow> Inr ()
           | Some Rejected \<Rightarrow> Inl (SendEnded EndedRejected)
           | Some Expired \<Rightarrow> Inl (SendEnded EndedExpired)
           | Some Delivered \<Rightarrow> Inl DeliveredTooSoon)
      | Some (Inr (Error message)) \<Rightarrow> Inl (SendFailed message)
      | Some (Inr _) \<Rightarrow> Inl UnexpectedFromDaemon
      | Some (Inl _) \<Rightarrow> Inl DaemonWentAway)"

definition take_outcome :: "event_parse \<Rightarrow> (frame_error, frame) result option \<Rightarrow> (send_error, unit) result" where
  "take_outcome parse outcome =
     (case outcome of
        None \<Rightarrow> Inl (SendEnded EndedCancelled)
      | Some (Inr (Control json)) \<Rightarrow>
          (case parse json of
             None \<Rightarrow> Inl UnreadableEvent
           | Some Delivered \<Rightarrow> Inr ()
           | Some _ \<Rightarrow> Inl UnexpectedFromDaemon)
      | Some (Inr (Error message)) \<Rightarrow> Inl (SendFailed message)
      | Some (Inr _) \<Rightarrow> Inl UnexpectedFromDaemon
      | Some (Inl _) \<Rightarrow> Inl DaemonWentAway)"

text \<open>
  What the command meets: the daemon's first response (an error, an offer on its way, or something
  else), the answer, the stream, where an interrupt may cut it off, and the outcome. An interrupt
  while streaming leaves a beginning of the frames written.
\<close>

datatype first_response = FileOffered | RefusedWith rstr | SomethingElse | NotReached rstr

record send_env =
  sv_response :: first_response
  sv_answer :: "(frame_error, frame) result option"
  sv_stream :: stream_env
  sv_cut :: "nat option"
  sv_outcome :: "(frame_error, frame) result option"

definition send_file ::
    "(u8 list \<Rightarrow> u8 list) \<Rightarrow> platform \<Rightarrow> event_parse \<Rightarrow> (rstr \<times> rstr) option \<Rightarrow> path_view \<Rightarrow> rstr \<Rightarrow> send_env \<Rightarrow>
     (send_error, unit) result \<times> request option \<times> frame list" where
  "send_file blake3 platform parse expires path target sv =
     (case send_ttl_secs expires of
        Inl e \<Rightarrow> (Inl (BadWindow e), None, [])
      | Inr ttl \<Rightarrow>
      case prepare platform path of
        Inl e \<Rightarrow> (Inl (NotPrepared e), None, [])
      | Inr (name, sz) \<Rightarrow>
      let req = Some (FileSend name (unat sz) target (unat ttl)) in
      case sv_response sv of
        NotReached e \<Rightarrow> (Inl (NoTransfer e), req, [])
      | RefusedWith message \<Rightarrow> (Inl (SendFailed message), req, [])
      | SomethingElse \<Rightarrow> (Inl UnexpectedFromDaemon, req, [])
      | FileOffered \<Rightarrow>
      case take_answer parse (sv_answer sv) of
        Inl e \<Rightarrow> (Inl e, req, [])
      | Inr _ \<Rightarrow>
      case stream blake3 sz (sv_stream sv) of (streamed, frames) \<Rightarrow>
      case sv_cut sv of
        Some k \<Rightarrow> (Inl (SendEnded EndedCancelled), req, take k frames)
      | None \<Rightarrow>
      case streamed of
        Inl e \<Rightarrow> (Inl (NotStreamed e), req, frames)
      | Inr _ \<Rightarrow> (take_outcome parse (sv_outcome sv), req, frames))"

lemmas cli_send_evals [evals] = prepare_def broken_off_def stream_def ended_code_def exit_code_def
  take_answer_def take_outcome_def send_file_def

section \<open>Lemmas\<close>

text \<open>A file that reads as chunks of the declared size is streamed whole.\<close>

lemma stream_reads_chunks:
  assumes "[] \<notin> set chunks" and "unat sent + length (concat chunks) \<le> unat sz"
  shows "stream_reads sz broken sent hashed (map (\<lambda>c. (Inr c, True)) chunks) =
    (Inr (sent + of_nat (length (concat chunks)), hashed @ concat chunks), map Data chunks)"
  using assms
proof (induction chunks arbitrary: sent hashed)
  case (Cons c cs)
  have "unat sz < 2 ^ 64" using unsigned_less [of sz, where ?'a = nat] by simp
  then have "unat sent + length c < 2 ^ 64" using Cons.prems(2) by simp
  moreover from this have "unat (of_nat (length c) :: u64) = length c" by (simp add: unat_of_nat)
  ultimately have u: "unat (sent + of_nat (length c)) = unat sent + length c" by (simp add: unat_plus_if')
  then have "sent + of_nat (length c) \<le> sz" using Cons.prems(2) by (simp add: word_le_nat_alt)
  moreover have "stream_reads sz broken (sent + of_nat (length c)) (hashed @ c) (map (\<lambda>c. (Inr c, True)) cs) =
      (Inr (sent + of_nat (length c) + of_nat (length (concat cs)), (hashed @ c) @ concat cs), map Data cs)"
    by (rule Cons.IH) (use Cons.prems u in auto)
  ultimately show ?case using Cons.prems(1) by (auto simp: Let_def not_less add.assoc)
qed simp

lemma stream_chunks:
  assumes "[] \<notin> set chunks" and "length (concat chunks) = unat sz" and "se_hash_written se" and "se_end_written se"
    and "se_reads se = map (\<lambda>c. (Inr c, True)) chunks"
  shows "stream blake3 sz se = (Inr (), map Data chunks @ [Hash (blake3 (concat chunks)), End])"
  using stream_reads_chunks [of chunks 0 sz] assms by (simp add: stream_def)

text \<open>Whatever happens, an end frame closes exactly the declared number of bytes and their hash.\<close>

lemma stream_reads_Inr:
  assumes "stream_reads sz broken sent hashed rds = (res, frames)"
  shows "End \<notin> set frames"
    and "res = Inr (sent', hashed') \<Longrightarrow> \<exists>bufs. frames = map Data bufs \<and> hashed' = hashed @ concat bufs \<and>
      sent' = sent + of_nat (length (concat bufs))"
proof -
  have "End \<notin> set frames \<and> (res = Inr (sent', hashed') \<longrightarrow> (\<exists>bufs. frames = map Data bufs \<and>
      hashed' = hashed @ concat bufs \<and> sent' = sent + of_nat (length (concat bufs))))"
    using assms
  proof (induction sz broken sent hashed rds arbitrary: res frames rule: stream_reads.induct)
    case (2 sz broken sent hashed rd written rds)
    show ?case
    proof (cases "\<exists>buf. rd = Inr buf \<and> buf \<noteq> [] \<and> sent + of_nat (length buf) \<le> sz \<and> written")
      case True
      then obtain buf where b: "rd = Inr buf" "buf \<noteq> []" "sent + of_nat (length buf) \<le> sz" "written" by blast
      obtain r fr where run: "stream_reads sz broken (sent + of_nat (length buf)) (hashed @ buf) rds = (r, fr)" by force
      have eq: "res = r" "frames = Data buf # fr" using 2(2) b run by (simp_all add: Let_def leD)
      have ih: "End \<notin> set fr \<and> (r = Inr (sent', hashed') \<longrightarrow> (\<exists>bufs. fr = map Data bufs \<and>
          hashed' = (hashed @ buf) @ concat bufs \<and> sent' = sent + of_nat (length buf) + of_nat (length (concat bufs))))"
        using 2(1) [OF _ _ refl _ _ run] b by (simp add: leD)
      show ?thesis
      proof (intro conjI impI)
        show "End \<notin> set frames" using ih eq by simp
        assume "res = Inr (sent', hashed')"
        then obtain bufs where "fr = map Data bufs" "hashed' = (hashed @ buf) @ concat bufs"
          "sent' = sent + of_nat (length buf) + of_nat (length (concat bufs))" using ih eq by blast
        then show "\<exists>bufs. frames = map Data bufs \<and> hashed' = hashed @ concat bufs \<and>
            sent' = sent + of_nat (length (concat bufs))"
          using eq by (intro exI [of _ "buf # bufs"]) (simp add: add.assoc)
      qed
    next
      case False
      then show ?thesis
        using 2(2) by (auto simp: Let_def not_less split: sum.splits if_splits)
    qed
  qed auto
  then show "End \<notin> set frames"
    and "res = Inr (sent', hashed') \<Longrightarrow> \<exists>bufs. frames = map Data bufs \<and> hashed' = hashed @ concat bufs \<and>
      sent' = sent + of_nat (length (concat bufs))" by blast+
qed

lemma stream_end:
  assumes "stream blake3 sz se = (res, frames)" and "End \<in> set frames"
  shows "\<exists>bufs. frames = map Data bufs @ [Hash (blake3 (concat bufs)), End] \<and> of_nat (length (concat bufs)) = sz \<and> res = Inr ()"
proof -
  obtain r fr where run: "stream_reads sz (broken_off (se_after se)) 0 [] (se_reads se) = (r, fr)" by force
  have "End \<notin> set fr" by (rule stream_reads_Inr(1) [OF run])
  with assms run obtain sent hashed where r: "r = Inr (sent, hashed)" "sent = sz" "res = Inr ()"
    "frames = fr @ [Hash (blake3 hashed), End]"
    by (auto simp: stream_def split: sum.splits prod.splits if_splits)
  from stream_reads_Inr(2) [OF run r(1)] obtain bufs where "fr = map Data bufs" "hashed = concat bufs"
    "sent = of_nat (length (concat bufs))" by auto
  with r show ?thesis by auto
qed

end
