(* ===== verification/Cli_Receive.thy ===== *)
theory Cli_Receive
  imports Filename Frame Expiry
begin

text \<open>
  \<open>cli/src/commands/file/receive.rs\<close>, \<open>dest.rs\<close> and \<open>space.rs\<close>: the receiving command. What a
  directory holds is a map from names to contents; the partial file is the list of bytes
  written to it, in no directory until it is put in place. What the operating system answers
  (whether a write, a flush or putting a file in place fails, how much space is free) is an
  input, and the hash is a parameter. Byte counts are 64-bit words.

  A file is put in place only when it is exactly what was offered, never over another one, and
  a command that fails leaves the directory as it was.
\<close>

section \<open>Where a file goes: \<open>dest.rs\<close>\<close>

record destination =
  dest_dir :: rstr
  dest_note :: "rstr option"

datatype dest_error = NoWorkingDirectory | NowhereToSave

definition resolve_dest :: "bool \<Rightarrow> rstr option \<Rightarrow> rstr option \<Rightarrow> rstr option \<Rightarrow> (dest_error, destination) result" where
  "resolve_dest here cwd downloads home =
     (if here then (case cwd of
          None \<Rightarrow> Inl NoWorkingDirectory
        | Some dir \<Rightarrow> Inr \<lparr>dest_dir = dir, dest_note = None\<rparr>)
      else case (downloads, home) of
        (Some dir, _) \<Rightarrow> Inr \<lparr>dest_dir = dir, dest_note = None\<rparr>
      | (None, Some home) \<Rightarrow>
          Inr \<lparr>dest_dir = home,
            dest_note = Some (lit ''no Downloads folder is configured, so saving to '' @ home)\<rparr>
      | (None, None) \<Rightarrow> Inl NowhereToSave)"

section \<open>Free space: \<open>space.rs\<close>\<close>

text \<open>On Unix, the blocks free and their size; nothing when they cannot be told or overflow.\<close>

definition space_available :: "(u64 \<times> u64) option \<Rightarrow> u64 option" where
  "space_available stats = (case stats of None \<Rightarrow> None | Some (bavail, frsize) \<Rightarrow> checked_mul bavail frsize)"

text \<open>On Windows, what is free for the caller, quotas honoured, unless the call fails.\<close>

definition space_available_windows :: "bool \<times> u64 \<Rightarrow> u64 option" where
  "space_available_windows answer = (case answer of (ok, available) \<Rightarrow> if ok then Some available else None)"

definition space_check :: "u64 option \<Rightarrow> u64 \<Rightarrow> bool" where
  "space_check available sz =
     (case available of Some free \<Rightarrow> \<not> free < sz | None \<Rightarrow> True)"

section \<open>Putting the file in place\<close>

type_synonym directory = "rstr \<rightharpoonup> u8 list"

datatype receive_error =
    MoreThanOffered
  | CouldNotWrite rstr
  | TransferFailed rstr
  | UnexpectedMessage
  | DaemonGone
  | SizeDiffers u64 u64
  | HashDiffers
  | CouldNotFlush rstr
  | CouldNotSave rstr rstr
  | NamesTaken rstr

definition SAVE_MAX_SUFFIX :: nat where "SAVE_MAX_SUFFIX = 9999"

definition candidate :: "rstr \<Rightarrow> nat \<Rightarrow> rstr" where
  "candidate name n = (if n = 0 then name else numbered name n)"

text \<open>
  \<open>persist_noclobber\<close> refuses a name that is taken; any other failure is an input. \<open>left\<close> counts
  the numbers still to be tried.
\<close>

fun persist_from ::
    "(rstr \<Rightarrow> rstr option) \<Rightarrow> rstr \<Rightarrow> u8 list \<Rightarrow> directory \<Rightarrow> nat \<Rightarrow> nat \<Rightarrow>
     (receive_error, rstr) result \<times> directory" where
  "persist_from fails name data dir n 0 = (Inl (NamesTaken name), dir)"
| "persist_from fails name data dir n (Suc left) =
     (let target = candidate name n in
      case dir target of
        Some _ \<Rightarrow> persist_from fails name data dir (Suc n) left
      | None \<Rightarrow>
          (case fails target of
             Some e \<Rightarrow> (Inl (CouldNotSave target e), dir)
           | None \<Rightarrow> (Inr target, dir(target \<mapsto> data))))"

definition part_finish ::
    "rstr option \<Rightarrow> (rstr \<Rightarrow> rstr option) \<Rightarrow> rstr \<Rightarrow> u8 list \<Rightarrow> directory \<Rightarrow>
     (receive_error, rstr) result \<times> directory" where
  "part_finish flush_error fails name data dir =
     (case flush_error of
        Some e \<Rightarrow> (Inl (CouldNotFlush e), dir)
      | None \<Rightarrow> persist_from fails name data dir 0 (Suc SAVE_MAX_SUFFIX))"

section \<open>Receiving\<close>

record receiver =
  rv_received :: u64
  rv_written :: "u8 list"
  rv_trailer :: "u8 list option"

definition new_receiver :: receiver where
  "new_receiver = \<lparr>rv_received = 0, rv_written = [], rv_trailer = None\<rparr>"

text \<open>
  The loop over the frames, each with the error its write would meet. A queue that has run out is
  a reader that has ended.
\<close>

fun receive_frames ::
    "u64 \<Rightarrow> receiver \<Rightarrow> ((frame_error, frame) result \<times> rstr option) list \<Rightarrow> (receive_error, receiver) result" where
  "receive_frames sz r [] = Inl DaemonGone"
| "receive_frames sz r ((next, write_error) # q) =
     (case next of
        Inr (Data data) \<Rightarrow>
          let received = rv_received r + of_nat (length data) in
          if received > sz then Inl MoreThanOffered
          else (case write_error of
            Some e \<Rightarrow> Inl (CouldNotWrite e)
          | None \<Rightarrow> receive_frames sz (r\<lparr>rv_received := received, rv_written := rv_written r @ data\<rparr>) q)
      | Inr (Hash hash) \<Rightarrow> receive_frames sz (r\<lparr>rv_trailer := Some hash\<rparr>) q
      | Inr End \<Rightarrow> Inr r
      | Inr (Error message) \<Rightarrow> Inl (TransferFailed message)
      | Inr (Control _) \<Rightarrow> Inl UnexpectedMessage
      | Inl _ \<Rightarrow> Inl DaemonGone)"

text \<open>
  What the operating system answers: what a flush says, and putting the file under a name; and
  how the directory and a path in it are shown.
\<close>

record os_answers =
  os_flush :: "rstr option"
  os_persist :: "rstr \<Rightarrow> rstr option"
  os_dir :: rstr
  os_path :: "rstr \<Rightarrow> rstr"

text \<open>What the daemon is told: the reason, unless the transfer was over from the other side.\<close>

definition reason_text :: "os_answers \<Rightarrow> receive_error \<Rightarrow> rstr" where
  "reason_text os e =
     (case e of
        MoreThanOffered \<Rightarrow> lit ''more data arrived than was offered''
      | CouldNotWrite err \<Rightarrow> lit ''could not write to '' @ os_dir os @ lit '': '' @ err
      | UnexpectedMessage \<Rightarrow> lit ''unexpected message mid-transfer''
      | SizeDiffers received sz \<Rightarrow>
          lit ''received '' @ decimal (unat received) @ lit '' bytes of '' @ decimal (unat sz)
      | HashDiffers \<Rightarrow> lit ''the file did not match the sender'' @ [39] @ lit ''s hash''
      | CouldNotFlush err \<Rightarrow> err
      | CouldNotSave target err \<Rightarrow> lit ''could not save '' @ os_path os target @ lit '': '' @ err
      | NamesTaken name \<Rightarrow>
          lit ''every name from '' @ name @ lit '' to '' @ numbered name SAVE_MAX_SUFFIX @ lit '' is taken''
      | TransferFailed message \<Rightarrow> lit ''the transfer failed: '' @ message
      | DaemonGone \<Rightarrow> lit ''the daemon went away mid-transfer; nothing was saved'')"

definition verdict :: "os_answers \<Rightarrow> receive_error \<Rightarrow> frame list" where
  "verdict os e =
     (case e of TransferFailed _ \<Rightarrow> [] | DaemonGone \<Rightarrow> [] | _ \<Rightarrow> [Error (reason_text os e)])"

definition receive ::
    "(u8 list \<Rightarrow> u8 list) \<Rightarrow> os_answers \<Rightarrow> rstr \<Rightarrow> u64 \<Rightarrow>
     ((frame_error, frame) result \<times> rstr option) list \<Rightarrow> directory \<Rightarrow>
     (receive_error, rstr) result \<times> directory \<times> frame list" where
  "receive blake3 os name sz frames dir =
     (case receive_frames sz new_receiver frames of
        Inl e \<Rightarrow> (Inl e, dir, verdict os e)
      | Inr r \<Rightarrow>
          if rv_received r \<noteq> sz
          then (Inl (SizeDiffers (rv_received r) sz), dir, verdict os (SizeDiffers (rv_received r) sz))
          else if rv_trailer r \<noteq> Some (blake3 (rv_written r))
          then (Inl HashDiffers, dir, verdict os HashDiffers)
          else (case part_finish (os_flush os) (os_persist os) name (rv_written r) dir of
              (Inl e, dir) \<Rightarrow> (Inl e, dir, verdict os e)
            | (Inr saved, dir) \<Rightarrow> (Inr saved, dir, [End])))"

lemmas cli_receive_evals [evals] = resolve_dest_def space_available_def space_available_windows_def space_check_def
  SAVE_MAX_SUFFIX_def candidate_def part_finish_def new_receiver_def verdict_def receive_def

section \<open>The accept command\<close>

datatype accept_error =
    CannotSaveInto rstr
  | ListingFailed rstr
  | RefusingName filename_error
  | NotEnoughSpace
  | NotOpened rstr
  | AcceptFailed rstr
  | NotReceived receive_error
  | AcceptCancelled

text \<open>
  What the command meets: whether a file can be created, the listing, the space free then and
  later, the daemon's answer (name, size and sender), the frames, and where an interrupt caught
  it: before the file was in place, or after, while the daemon was being told.
\<close>

datatype caught = BeforeSaved | AfterSaved

record accept_env =
  ae_create_error :: "rstr option"
  ae_listing :: "(rstr, incoming_offer list) result"
  ae_space_listed :: "u64 option"
  ae_answer :: "(accept_error, rstr \<times> u64 \<times> rstr) result"
  ae_space_answered :: "u64 option"
  ae_frames :: "((frame_error, frame) result \<times> rstr option) list"
  ae_os :: os_answers
  ae_interrupted :: "caught option"

datatype cli_effect = Asked request | Wrote frame

definition check_name :: "platform \<Rightarrow> rstr \<Rightarrow> (accept_error, unit) result" where
  "check_name platform name =
     (case check name platform of Inl e \<Rightarrow> Inl (RefusingName e) | Inr u \<Rightarrow> Inr u)"

definition check_space :: "u64 option \<Rightarrow> u64 \<Rightarrow> (accept_error, unit) result" where
  "check_space free sz = (if space_check free sz then Inr () else Inl NotEnoughSpace)"

text \<open>Checks before the offer is touched, when it is listed.\<close>

definition vet_listed :: "platform \<Rightarrow> u64 option \<Rightarrow> incoming_offer option \<Rightarrow> (accept_error, unit) result" where
  "vet_listed platform free listed =
     (case listed of
        None \<Rightarrow> Inr ()
      | Some offer \<Rightarrow>
          (case check_name platform (in_name offer) of
             Inl e \<Rightarrow> Inl e
           | Inr _ \<Rightarrow> check_space free (of_nat (in_size offer))))"

definition vet_answer :: "platform \<Rightarrow> u64 option \<Rightarrow> incoming_offer option \<Rightarrow> rstr \<Rightarrow> u64 \<Rightarrow> (accept_error, unit) result" where
  "vet_answer platform free listed name sz =
     (case check_name platform name of
        Inl e \<Rightarrow> Inl e
      | Inr _ \<Rightarrow> (case listed of Some _ \<Rightarrow> Inr () | None \<Rightarrow> check_space free sz))"

text \<open>The refusal's text for the daemon is a parameter: it is the error as it is shown.\<close>

definition accept_file ::
    "(u8 list \<Rightarrow> u8 list) \<Rightarrow> platform \<Rightarrow> (accept_error \<Rightarrow> rstr) \<Rightarrow> accept_env \<Rightarrow> rstr \<Rightarrow> directory \<Rightarrow>
     (accept_error, rstr) result \<times> directory \<times> cli_effect list" where
  "accept_file blake3 platform show_error ae i dir =
     (case ae_create_error ae of
        Some e \<Rightarrow> (Inl (CannotSaveInto e), dir, [])
      | None \<Rightarrow>
      case ae_listing ae of
        Inl e \<Rightarrow> (Inl (ListingFailed e), dir, [Asked FileList])
      | Inr offers \<Rightarrow>
          let listed = List.find (\<lambda>offer. in_id offer = i) offers in
          case vet_listed platform (ae_space_listed ae) listed of
            Inl e \<Rightarrow> (Inl e, dir, [Asked FileList])
          | Inr _ \<Rightarrow>
          let fx = [Asked FileList, Asked (FileAccept i)] in
          case ae_answer ae of
            Inl e \<Rightarrow> (Inl e, dir, fx)
          | Inr (name, sz, from) \<Rightarrow>
          case vet_answer platform (ae_space_answered ae) listed name sz of
            Inl e \<Rightarrow> (Inl e, dir, fx @ [Wrote (Error (show_error e))])
          | Inr _ \<Rightarrow>
          case receive blake3 (ae_os ae) name sz (ae_frames ae) dir of
            (res, dir', out) \<Rightarrow>
              (case (ae_interrupted ae, res) of
                 (Some BeforeSaved, _) \<Rightarrow> (Inl AcceptCancelled, dir, fx)
               | (Some AfterSaved, Inr _) \<Rightarrow> (Inl AcceptCancelled, dir', fx)
               | (_, Inr saved) \<Rightarrow> (Inr saved, dir', fx @ map Wrote out)
               | (_, Inl e) \<Rightarrow> (Inl (NotReceived e), dir', fx @ map Wrote out)))"

section \<open>Lemmas\<close>

definition hash_sent :: "frame list \<Rightarrow> u8 list option \<Rightarrow> u8 list option" where
  "hash_sent fs t = fold (\<lambda>f t. case f of Hash h \<Rightarrow> Some h | _ \<Rightarrow> t) fs t"

abbreviation contents :: "frame list \<Rightarrow> u8 list" where
  "contents fs \<equiv> concat (map data_of fs)"

definition content_frame :: "frame \<Rightarrow> bool" where
  "content_frame f \<longleftrightarrow> (case f of Data _ \<Rightarrow> True | Hash _ \<Rightarrow> True | _ \<Rightarrow> False)"

definition readable :: "((frame_error, frame) result \<times> rstr option) list \<Rightarrow> bool" where
  "readable q \<longleftrightarrow> list_all (\<lambda>(next, _). case next of Inr f \<Rightarrow> length (data_of f) \<le> MAX_PAYLOAD | Inl _ \<Rightarrow> True) q"

text \<open>What a receiver that came to an end frame holds.\<close>

lemma receive_frames_Inr:
  assumes "receive_frames sz r q = Inr r'" and "unat sz + MAX_PAYLOAD < 2 ^ 64" and "readable q"
    and "unat (rv_received r) = length (rv_written r)" and "rv_received r \<le> sz"
  shows "\<exists>fs rest. map fst q = map Inr fs @ Inr End # rest \<and> list_all content_frame fs \<and>
    rv_written r' = rv_written r @ contents fs \<and> rv_trailer r' = hash_sent fs (rv_trailer r) \<and>
    unat (rv_received r') = length (rv_written r')"
  using assms
proof (induction sz r q rule: receive_frames.induct)
  case (2 sz r nx we q)
  show ?case
  proof (cases "\<exists>f. nx = Inr f \<and> content_frame f")
    case True
    then obtain f where f: "nx = Inr f" "content_frame f" by blast
    have step: "\<exists>r1. receive_frames sz r1 q = Inr r' \<and> rv_written r1 = rv_written r @ data_of f \<and>
        rv_trailer r1 = hash_sent [f] (rv_trailer r) \<and> unat (rv_received r1) = length (rv_written r1) \<and> rv_received r1 \<le> sz \<and>
        (\<exists>fs rest. map fst q = map Inr fs @ Inr End # rest \<and> list_all content_frame fs \<and>
          rv_written r' = rv_written r1 @ contents fs \<and> rv_trailer r' = hash_sent fs (rv_trailer r1) \<and>
          unat (rv_received r') = length (rv_written r'))"
    proof (cases f)
      case (Data d)
      have n: "unat (rv_received r + of_nat (length d)) = unat (rv_received r) + length d"
        using 2(6,7,4,5) f Data by (intro unat_count [of _ sz]) (simp_all add: readable_def word_le_nat_alt)
      have ok: "rv_received r + of_nat (length d) \<le> sz" "we = None"
        using 2(3) f Data by (auto simp: Let_def not_less split: if_splits option.splits)
      let ?r1 = "r\<lparr>rv_received := rv_received r + of_nat (length d), rv_written := rv_written r @ d\<rparr>"
      have run: "receive_frames sz ?r1 q = Inr r'" using 2(3) f Data ok(2) by (simp add: Let_def leD [OF ok(1)])
      have "\<exists>fs rest. map fst q = map Inr fs @ Inr End # rest \<and> list_all content_frame fs \<and>
          rv_written r' = rv_written ?r1 @ contents fs \<and> rv_trailer r' = hash_sent fs (rv_trailer ?r1) \<and>
          unat (rv_received r') = length (rv_written r')"
        using 2(1) [of _ d "rv_received r + of_nat (length d)"] f Data ok run 2(4,5,6) n
        by (simp add: readable_def leD [OF ok(1)])
      then show ?thesis
        using run n ok 2(6) Data by (intro exI [of _ ?r1]) (simp add: hash_sent_def)
    next
      case (Hash h)
      then show ?thesis
        using 2 f by (intro exI [of _ "r\<lparr>rv_trailer := Some h\<rparr>"]) (simp add: readable_def hash_sent_def)
    qed (use f in \<open>simp_all add: content_frame_def\<close>)
    then obtain r1 :: receiver and fs rest where *: "rv_written r1 = rv_written r @ data_of f"
      "rv_trailer r1 = hash_sent [f] (rv_trailer r)" "map fst q = map Inr fs @ Inr End # rest" "list_all content_frame fs"
      "rv_written r' = rv_written r1 @ contents fs" "rv_trailer r' = hash_sent fs (rv_trailer r1)"
      "unat (rv_received r') = length (rv_written r')" by blast
    show ?thesis
      using * f by (intro exI [of _ "f # fs"] exI [of _ rest]) (simp add: hash_sent_def)
  next
    case False
    then have "nx = Inr End" "r' = r"
      using 2(3) by (auto simp: content_frame_def split: sum.splits frame.splits)
    then show ?thesis
      using 2(6) by (intro exI [of _ "[]"] exI [of _ "map fst q"]) (simp add: hash_sent_def)
  qed
qed simp

lemma persist_from_Inr:
  assumes "persist_from fails name data dir n left = (Inr saved, dir')"
  shows "\<exists>k < left. saved = candidate name (n + k) \<and> dir saved = None \<and> fails saved = None \<and>
    dir' = dir(saved \<mapsto> data) \<and> (\<forall>j < k. dir (candidate name (n + j)) \<noteq> None)"
  using assms
proof (induction fails name data dir n left rule: persist_from.induct)
  case (2 fails name data dir n left)
  show ?case
  proof (cases "dir (candidate name n)")
    case None
    then show ?thesis using 2(2) by (intro exI [of _ 0]) (auto simp: Let_def split: option.splits)
  next
    case (Some old)
    have "persist_from fails name data dir (Suc n) left = (Inr saved, dir')" using 2(2) Some by (simp add: Let_def)
    from 2(1) [OF refl Some this] obtain k where k: "k < left" "saved = candidate name (Suc n + k)" "dir saved = None"
      "fails saved = None" "dir' = dir(saved \<mapsto> data)" "\<forall>j < k. dir (candidate name (Suc n + j)) \<noteq> None" by blast
    have "dir (candidate name (n + j)) \<noteq> None" if "j < Suc k" for j
      using that k(6) Some by (cases j) auto
    with k show ?thesis by (intro exI [of _ "Suc k"]) simp
  qed
qed simp

lemma persist_from_Inl: "persist_from fails name data dir n left = (Inl e, dir') \<Longrightarrow> dir' = dir"
  by (induction fails name data dir n left rule: persist_from.induct) (auto simp: Let_def split: option.splits)

lemma part_finish_Inl: "part_finish flush_error fails name data dir = (Inl e, dir') \<Longrightarrow> dir' = dir"
  by (auto simp: part_finish_def simp del: persist_from.simps split: option.splits dest: persist_from_Inl)

lemma candidate_safe:
  assumes "check name p = Inr ()" and "blen (snd (split_ext name)) \<le> 248" and "n \<le> SAVE_MAX_SUFFIX"
  shows "check (candidate name n) p = Inr ()"
proof (cases "n = 0")
  case False
  obtain stem ext where e: "split_ext name = (stem, ext)" by force
  have "list_all (\<lambda>c. c < 128) (decimal n)" using decimal_digits [of _ n] by (force simp: list_all_iff)
  then have "blen (decimal n) = length (decimal n)" by (rule blen_ascii)
  also have "\<dots> \<le> 4" using assms(3) by (intro length_decimal) (simp_all add: SAVE_MAX_SUFFIX_def)
  finally have "blen (number_tag n) \<le> 7" by (simp add: number_tag_def blen_def)
  with assms(2) e have "blen (number_tag n) + blen ext \<le> FILENAME_MAX_LEN" by (simp add: FILENAME_MAX_LEN_def)
  from numbered_stays_safe [OF assms(1) e this] False show ?thesis by (simp add: candidate_def)
qed (simp add: candidate_def assms(1))

text \<open>What a successful \<open>receive\<close> went through, and that every other one leaves the directory.\<close>

lemma receive_Inr:
  assumes "receive blake3 os name sz q dir = (Inr saved, dir', out)"
    and "unat sz + MAX_PAYLOAD < 2 ^ 64" and "readable q"
  shows "\<exists>fs rest k. map fst q = map Inr fs @ Inr End # rest \<and> list_all content_frame fs \<and>
    length (contents fs) = unat sz \<and> hash_sent fs None = Some (blake3 (contents fs)) \<and> out = [End] \<and>
    k \<le> SAVE_MAX_SUFFIX \<and> saved = candidate name k \<and> (\<forall>j < k. dir (candidate name j) \<noteq> None) \<and>
    dir saved = None \<and> dir' = dir(saved \<mapsto> contents fs)"
proof -
  obtain r where r: "receive_frames sz new_receiver q = Inr r" "rv_received r = sz"
    "rv_trailer r = Some (blake3 (rv_written r))" "part_finish (os_flush os) (os_persist os) name (rv_written r) dir = (Inr saved, dir')"
    "out = [End]"
    using assms(1) by (auto simp: receive_def split: sum.splits prod.splits if_splits)
  have "\<exists>fs rest. map fst q = map Inr fs @ Inr End # rest \<and> list_all content_frame fs \<and>
      rv_written r = rv_written new_receiver @ contents fs \<and> rv_trailer r = hash_sent fs (rv_trailer new_receiver) \<and>
      unat (rv_received r) = length (rv_written r)"
    by (rule receive_frames_Inr [OF r(1) assms(2,3)]) (simp_all add: new_receiver_def)
  then obtain fs rest where fs: "map fst q = map Inr fs @ Inr End # rest" "list_all content_frame fs"
    "rv_written r = contents fs" "rv_trailer r = hash_sent fs None" "unat sz = length (contents fs)"
    using r(2) by (auto simp: new_receiver_def)
  have "persist_from (os_persist os) name (rv_written r) dir 0 (Suc SAVE_MAX_SUFFIX) = (Inr saved, dir')"
    using r(4) by (simp add: part_finish_def split: option.splits)
  from persist_from_Inr [OF this] obtain k where "k < Suc SAVE_MAX_SUFFIX" "saved = candidate name k" "dir saved = None"
    "dir' = dir(saved \<mapsto> rv_written r)" "\<forall>j < k. dir (candidate name j) \<noteq> None" by auto
  with fs r(3,5) show ?thesis by (intro exI [of _ fs] exI [of _ rest] exI [of _ k]) simp
qed

lemma receive_Inl:
  assumes "receive blake3 os name sz q dir = (Inl e, dir', out)"
  shows "dir' = dir" and "out = verdict os e"
  using assms by (auto simp: receive_def split: sum.splits prod.splits if_splits dest: part_finish_Inl)

lemma receive_keeps:
  assumes "receive blake3 os name sz q dir = (r, dir', out)"
  shows "dir \<subseteq>\<^sub>m dir'"
proof -
  have "dir \<subseteq>\<^sub>m d" if "part_finish fe fails name data dir = (res, d)" for fe fails data res d
  proof (cases res)
    case (Inl e)
    then have "d = dir" using that part_finish_Inl by simp
    then show ?thesis by simp
  next
    case (Inr saved)
    then have "persist_from fails name data dir 0 (Suc SAVE_MAX_SUFFIX) = (Inr saved, d)"
      using that by (simp add: part_finish_def del: persist_from.simps split: option.splits)
    from persist_from_Inr [OF this] show ?thesis by (auto simp: map_le_def)
  qed
  then show ?thesis
    using assms by (auto simp: receive_def split: sum.splits prod.splits if_splits)
qed

lemma end_not_verdict [simp]: "End \<notin> set (verdict os e)"
  by (cases e) (simp_all add: verdict_def)

section \<open>An interrupt at the last moment\<close>

text \<open>
  An interrupt that arrives while the daemon is being told ends the command as cancelled, saying
  that nothing was saved, and the file is in place.
\<close>

lemma interrupt_after_saving:
  assumes "accept_file blake3 platform show_error (ae\<lparr>ae_interrupted := None\<rparr>) i dir = (Inr saved, dir', fx)"
  shows "\<exists>fx'. accept_file blake3 platform show_error (ae\<lparr>ae_interrupted := Some AfterSaved\<rparr>) i dir =
    (Inl AcceptCancelled, dir', fx')"
  using assms by (auto simp: accept_file_def Let_def split: option.splits sum.splits prod.splits)

section \<open>Properties\<close>

text \<open>
  C15: Only what was offered, whole and verified, is ever saved. Whatever frames arrive, a file
  appears in the directory exactly when \<open>receive\<close> succeeds; then data and hash frames and an end
  frame arrived, the contents are those of the data frames, as many bytes as were offered, their
  hash is the last one sent, the name was free and is the first free one of the numbered
  alternatives, safe when the offered name was, and the daemon is told so. In every other case
  the directory is as it was and the daemon is never told that the file was saved.
\<close>

theorem saved_is_what_was_offered:
  assumes "unat sz + MAX_PAYLOAD < 2 ^ 64" and "readable q"
  shows "case receive blake3 os name sz q dir of
     (Inr saved, dir', out) \<Rightarrow>
       (\<exists>fs rest k. map fst q = map Inr fs @ Inr End # rest \<and> list_all content_frame fs \<and>
          length (contents fs) = unat sz \<and> hash_sent fs None = Some (blake3 (contents fs)) \<and>
          dir saved = None \<and> dir' = dir(saved \<mapsto> contents fs) \<and> out = [End] \<and>
          saved = candidate name k \<and> (\<forall>j < k. dir (candidate name j) \<noteq> None) \<and>
          (check name p = Inr () \<and> blen (snd (split_ext name)) \<le> 248 \<longrightarrow> check saved p = Inr ()))
   | (Inl e, dir', out) \<Rightarrow> dir' = dir \<and> End \<notin> set out"
proof -
  obtain res dir' out where run: "receive blake3 os name sz q dir = (res, dir', out)" by (metis prod_cases3)
  show ?thesis
  proof (cases res)
    case (Inl e)
    then show ?thesis using receive_Inl [of blake3 os name sz q dir e dir' out] run by simp
  next
    case (Inr saved)
    from receive_Inr [OF run [unfolded Inr] assms] obtain fs rest k where
      "map fst q = map Inr fs @ Inr End # rest" "list_all content_frame fs" "length (contents fs) = unat sz"
      "hash_sent fs None = Some (blake3 (contents fs))" "out = [End]" "k \<le> SAVE_MAX_SUFFIX" "saved = candidate name k"
      "\<forall>j < k. dir (candidate name j) \<noteq> None" "dir saved = None" "dir' = dir(saved \<mapsto> contents fs)" by blast
    moreover from this have "check saved p = Inr ()" if "check name p = Inr ()" "blen (snd (split_ext name)) \<le> 248"
      using candidate_safe [OF that] by simp
    ultimately show ?thesis unfolding run Inr prod.case sum.case by blast
  qed
qed

text \<open>
  Accepting is careful in its order. The offer is taken only after a file could be created in
  the directory and, when the offer is listed, its name is safe and its size fits; no file that
  was there is ever changed; and whenever the command fails the directory is as it was, unless
  it was interrupted while the daemon was being told of a file already in place.
\<close>

theorem accept_keeps_the_directory:
  shows "case accept_file blake3 platform show_error ae i dir of (res, dir', fx) \<Rightarrow>
     dir \<subseteq>\<^sub>m dir' \<and>
     (is_ok res \<or> dir' = dir \<or> ae_interrupted ae = Some AfterSaved) \<and>
     (Wrote End \<in> set fx \<longrightarrow> is_ok res) \<and>
     (Asked (FileAccept i) \<in> set fx \<longrightarrow> ae_create_error ae = None \<and>
        (\<exists>offers. ae_listing ae = Inr offers \<and>
           (\<forall>offer. List.find (\<lambda>offer. in_id offer = i) offers = Some offer \<longrightarrow>
              check (in_name offer) platform = Inr () \<and> space_check (ae_space_listed ae) (of_nat (in_size offer)))))"
proof -
  have rc: "d = dir \<and> End \<notin> set out" if "receive blake3 (ae_os ae) name sz (ae_frames ae) dir = (Inl e, d, out)" for name sz e d out
    using receive_Inl [OF that] by simp
  have saved: "dir \<subseteq>\<^sub>m d" if "receive blake3 (ae_os ae) name sz (ae_frames ae) dir = (r, d, out)" for name sz r d out
    by (rule receive_keeps [OF that])
  have vet: "check (in_name offer) platform = Inr () \<and> space_check free (of_nat (in_size offer))"
    if "vet_listed platform free (Some offer) = Inr ()" for free offer
    using that by (auto simp: vet_listed_def check_name_def check_space_def split: sum.splits if_splits)
  show ?thesis
    unfolding accept_file_def Let_def
    by (auto split: option.split sum.split prod.split caught.split dest: rc saved vet)
qed

section \<open>Witnesses\<close>

definition demo_hash :: "u8 list \<Rightarrow> u8 list" where
  "demo_hash d = replicate 32 (of_nat (length d))"

definition demo_frames :: "((frame_error, frame) result \<times> rstr option) list" where
  "demo_frames = [(Inr (Data [1, 2, 3]), None), (Inr (Hash (replicate 32 3)), None), (Inr End, None)]"

definition demo_os :: os_answers where
  "demo_os = \<lparr>os_flush = None, os_persist = \<lambda>_. None, os_dir = lit ''d'', os_path = \<lambda>n. lit ''d/'' @ n\<rparr>"

abbreviation demo_photo :: rstr where "demo_photo \<equiv> lit ''photo.jpg''"

lemma demo_suffix: "SAVE_MAX_SUFFIX = Suc 9998" by (simp add: SAVE_MAX_SUFFIX_def)

lemma demo_candidates: "candidate demo_photo 0 = demo_photo" "candidate demo_photo (Suc 0) = lit ''photo (1).jpg''"
  by (simp_all add: candidate_def numbered_def evals Let_def)

lemma demo_receive:
  "receive demo_hash demo_os demo_photo 3 demo_frames [demo_photo \<mapsto> []] =
     (Inr (lit ''photo (1).jpg''), [demo_photo \<mapsto> [], lit ''photo (1).jpg'' \<mapsto> [1, 2, 3]], [End])"
proof -
  have ne: "lit ''photo (1).jpg'' \<noteq> demo_photo" by (simp add: lit_def)
  have "part_finish None (\<lambda>_. None) demo_photo d [demo_photo \<mapsto> []] =
      (Inr (lit ''photo (1).jpg''), [demo_photo \<mapsto> [], lit ''photo (1).jpg'' \<mapsto> d])" for d
    by (simp only: part_finish_def option.case demo_suffix persist_from.simps(2) Let_def demo_candidates) (simp add: ne)
  then show ?thesis
    by (simp add: receive_def demo_frames_def new_receiver_def demo_hash_def demo_os_def)
qed

theorem saved_is_what_was_offered_witness:
  "\<exists>saved data. fst (receive demo_hash demo_os demo_photo 3 demo_frames [demo_photo \<mapsto> []]) = Inr saved \<and>
     saved \<noteq> demo_photo \<and> length data = 3 \<and> demo_hash data = replicate 32 3"
proof -
  have "readable demo_frames" by (simp add: readable_def demo_frames_def MAX_PAYLOAD_def)
  moreover have "unat (3 :: u64) + MAX_PAYLOAD < 2 ^ 64" by (simp add: MAX_PAYLOAD_def)
  ultimately show ?thesis
    using saved_is_what_was_offered [where sz = 3 and q = demo_frames and ?blake3.0 = demo_hash and os = demo_os
        and name = demo_photo and dir = "[demo_photo \<mapsto> []]" and p = Unix]
    by (auto simp: demo_receive demo_hash_def)
qed

definition demo_accept :: accept_env where
  "demo_accept = \<lparr>ae_create_error = None,
     ae_listing = Inr [\<lparr>in_id = lit ''a1'', in_from = lit ''nas'', in_name = demo_photo, in_size = 3, in_expires_in_secs = 60\<rparr>],
     ae_space_listed = Some 10, ae_answer = Inr (demo_photo, 3, lit ''nas''), ae_space_answered = None,
     ae_frames = demo_frames, ae_os = demo_os, ae_interrupted = None\<rparr>"

theorem accept_keeps_the_directory_witness:
  "case accept_file demo_hash Unix (\<lambda>_. []) demo_accept (lit ''a1'') [demo_photo \<mapsto> []] of (res, dir', fx) \<Rightarrow>
     Asked (FileAccept (lit ''a1'')) \<in> set fx \<and> check demo_photo Unix = Inr () \<and> dir' demo_photo = Some []"
proof -
  let ?dir = "[demo_photo \<mapsto> []]"
  obtain res dir' fx where run: "accept_file demo_hash Unix (\<lambda>_. []) demo_accept (lit ''a1'') ?dir = (res, dir', fx)"
    by (metis prod_cases3)
  have ok: "check demo_photo Unix = Inr ()" by (simp add: evals)
  have "Asked (FileAccept (lit ''a1'')) \<in> set fx"
    using run ok by (auto simp: accept_file_def demo_accept_def vet_listed_def vet_answer_def check_name_def
        check_space_def space_check_def demo_receive)
  with accept_keeps_the_directory [where ?blake3.0 = demo_hash and platform = Unix and show_error = "\<lambda>_. []"
      and ae = demo_accept and i = "lit ''a1''" and dir = ?dir]
  show ?thesis unfolding run by (auto simp: demo_accept_def map_le_def)
qed

end
