(* ===== verification/Delivery.thy ===== *)
theory Delivery
  imports Ipc Cli_Send Cli_Receive
begin

text \<open>
  The client and the daemons together: a file from the sending command through both relays into
  the receiving user's directory, and the windows asked for with \<open>--expires\<close> as the daemon grants
  them.
\<close>

section \<open>What travels\<close>

fun to_peer :: "transfer_effect list \<Rightarrow> frame list" where
  "to_peer [] = []"
| "to_peer (ToPeer f # fx) = f # to_peer fx"
| "to_peer (_ # fx) = to_peer fx"

fun to_cli :: "transfer_effect list \<Rightarrow> frame list" where
  "to_cli [] = []"
| "to_cli (ToCli f # fx) = f # to_cli fx"
| "to_cli (_ # fx) = to_cli fx"

text \<open>Frames written to a stream that then ends, and what its reader makes of them.\<close>

definition wire_bytes :: "frame list \<Rightarrow> u8 list" where
  "wire_bytes fs = concat (map frame_bytes fs)"

definition read_frames :: "u8 list \<Rightarrow> frame list" where
  "read_frames bs = List.map_filter (\<lambda>r. case r of Inr f \<Rightarrow> Some f | Inl _ \<Rightarrow> None) (frame_reader bs)"

lemma to_peer_append [simp]: "to_peer (fx @ gx) = to_peer fx @ to_peer gx"
  by (induction fx rule: to_peer.induct) auto

lemma to_cli_append [simp]: "to_cli (fx @ gx) = to_cli fx @ to_cli gx"
  by (induction fx rule: to_cli.induct) auto

lemma to_peer_map [simp]: "to_peer (map (ToPeer \<circ> g) xs) = map g xs"
  by (induction xs) auto

lemma to_cli_map [simp]: "to_cli (map (ToCli \<circ> g) xs) = map g xs"
  by (induction xs) auto

lemma reader_of_written:
  assumes "list_all writable fs"
  shows "frame_reader (wire_bytes fs) = map Inr fs @ [Inl UnexpectedEof]"
  using frame_reader_frames [OF assms, of "[]"]
  by (simp add: wire_bytes_def frame_reader.simps frame_read_def)

lemma read_frames_written [simp]: "list_all writable fs \<Longrightarrow> read_frames (wire_bytes fs) = fs"
  by (simp add: read_frames_def reader_of_written List.map_filter_def comp_def)

section \<open>The relays pass a whole file on\<close>

abbreviation from_cli :: "frame list \<Rightarrow> send_event list" where
  "from_cli fs \<equiv> map (\<lambda>f. CliSays (Some f) True []) fs"

abbreviation from_sender :: "frame list \<Rightarrow> accept_event list" where
  "from_sender fs \<equiv> map (\<lambda>f. SenderSays (Some f) True []) fs"

lemma count_data:
  assumes "unat sent + length d \<le> unat (sz :: u64)"
  shows "unat (sent + of_nat (length d)) = unat sent + length d" and "\<not> sz < sent + of_nat (length d)"
proof -
  have "unat sz < 2 ^ 64" using unsigned_less [of sz, where ?'a = nat] by simp
  then have "unat sent + length d < 2 ^ 64" using assms by simp
  moreover from this have "unat (of_nat (length d) :: u64) = length d" by (simp add: unat_of_nat)
  ultimately show u: "unat (sent + of_nat (length d)) = unat sent + length d" by (simp add: unat_plus_if')
  show "\<not> sz < sent + of_nat (length d)" using u assms by (simp add: not_less word_le_nat_alt)
qed

lemma send_run_data:
  assumes "s_phase s = Relaying" and "unat (s_sent s) + length (concat cs) \<le> unat sz"
  shows "send_run parse to sz (from_cli (map Data cs) @ es) s =
    (case send_run parse to sz es (s\<lparr>s_sent := s_sent s + of_nat (length (concat cs))\<rparr>) of
       (s', fx) \<Rightarrow> (s', map ToPeer (map Data cs) @ fx))"
  using assms
proof (induction cs arbitrary: s)
  case (Cons c cs)
  note n = count_data [of "s_sent s" c sz]
  let ?s = "s\<lparr>s_sent := s_sent s + of_nat (length c)\<rparr>"
  have "send_step parse to sz (CliSays (Some (Data c)) True []) s = (?s, [ToPeer (Data c)])"
    using n Cons.prems by (simp add: send_step_def send_relaying_def Let_def)
  moreover have "send_run parse to sz (from_cli (map Data cs) @ es) ?s =
      (case send_run parse to sz es (?s\<lparr>s_sent := s_sent ?s + of_nat (length (concat cs))\<rparr>) of
         (s', fx) \<Rightarrow> (s', map ToPeer (map Data cs) @ fx))"
    by (rule Cons.IH) (use n Cons.prems in auto)
  ultimately show ?case by (simp add: add.assoc split: prod.split)
qed simp

lemma accept_run_data:
  assumes "a_phase a = Receiving" and "unat (a_received a) + length (concat cs) \<le> unat sz"
  shows "accept_run from sz (from_sender (map Data cs) @ es) a =
    (case accept_run from sz es (a\<lparr>a_received := a_received a + of_nat (length (concat cs))\<rparr>) of
       (a', fx) \<Rightarrow> (a', map ToCli (map Data cs) @ fx))"
  using assms
proof (induction cs arbitrary: a)
  case (Cons c cs)
  note n = count_data [of "a_received a" c sz]
  let ?a = "a\<lparr>a_received := a_received a + of_nat (length c)\<rparr>"
  have "accept_step from sz (SenderSays (Some (Data c)) True []) a = (?a, [ToCli (Data c)])"
    using n Cons.prems by (simp add: accept_step_def accept_receiving_def Let_def)
  moreover have "accept_run from sz (from_sender (map Data cs) @ es) ?a =
      (case accept_run from sz es (?a\<lparr>a_received := a_received ?a + of_nat (length (concat cs))\<rparr>) of
         (a', fx) \<Rightarrow> (a', map ToCli (map Data cs) @ fx))"
    by (rule Cons.IH) (use n Cons.prems in auto)
  ultimately show ?case by (simp add: add.assoc split: prod.split)
qed simp

lemma receive_frames_data:
  assumes "unat (rv_received r) + length (concat cs) \<le> unat sz"
  shows "receive_frames sz r (map (\<lambda>f. (Inr f, None)) (map Data cs) @ q) =
    receive_frames sz (r\<lparr>rv_received := rv_received r + of_nat (length (concat cs)),
      rv_written := rv_written r @ concat cs\<rparr>) q"
  using assms
proof (induction cs arbitrary: r)
  case (Cons c cs)
  note n = count_data [of "rv_received r" c sz]
  let ?r = "r\<lparr>rv_received := rv_received r + of_nat (length c), rv_written := rv_written r @ c\<rparr>"
  have "receive_frames sz ?r (map (\<lambda>f. (Inr f, None)) (map Data cs) @ q) =
      receive_frames sz (?r\<lparr>rv_received := rv_received ?r + of_nat (length (concat cs)),
        rv_written := rv_written ?r @ concat cs\<rparr>) q"
    by (rule Cons.IH) (use n Cons.prems in auto)
  then show ?case using n Cons.prems by (simp add: Let_def add.assoc)
qed simp

lemma send_run_file:
  assumes "control parse accept = Some WAccept" and "control parse committed = Some WCommitted"
    and "unat sz = length (concat cs)" and "fs = map Data cs @ [Hash h, End]"
  shows "\<exists>s fx. send_run parse to sz (PeerSays (Some accept) None [] # from_cli fs @ [PeerSays (Some committed) None []])
      new_sender = (s, fx) \<and> s_recorded s = Done \<and> EventToCli Delivered \<in> set fx \<and> to_peer fx = fs"
proof -
  let ?s = "new_sender\<lparr>s_phase := Relaying, s_recorded := Transferring\<rparr>"
  have step: "send_step parse to sz (PeerSays (Some accept) None []) new_sender = (?s, [EventToCli Accepted])"
    using assms(1) by (simp add: send_step_def new_sender_def send_offering_def)
  have z: "(of_nat (length (concat cs)) :: u64) = sz" by (simp flip: assms(3))
  have run: "send_run parse to sz (from_cli (map Data cs) @ from_cli [Hash h, End] @ [PeerSays (Some committed) None []]) ?s =
      (case send_run parse to sz (from_cli [Hash h, End] @ [PeerSays (Some committed) None []]) (?s\<lparr>s_sent := sz\<rparr>) of
         (s', fx) \<Rightarrow> (s', map ToPeer (map Data cs) @ fx))"
    using send_run_data [of ?s cs sz] assms(3) z by (simp add: new_sender_def)
  show ?thesis
    using run assms(2) step
    by (simp add: assms(4) send_step_def send_relaying_def send_confirming_def finish_def Let_def split: prod.splits)
qed

lemma accept_run_file:
  assumes "unat sz = length (concat cs)" and "fs = map Data cs @ [Hash h, End]"
  shows "\<exists>a gx. accept_run from sz (from_sender fs @ [CliAnswers (Some End)]) new_accepter = (a, gx) \<and>
    WireToPeer WCommitted \<in> set gx \<and> to_cli gx = fs"
proof -
  have z: "(of_nat (length (concat cs)) :: u64) = sz" by (simp flip: assms(1))
  have run: "accept_run from sz (from_sender (map Data cs) @ from_sender [Hash h, End] @ [CliAnswers (Some End)]) new_accepter =
      (case accept_run from sz (from_sender [Hash h, End] @ [CliAnswers (Some End)]) (new_accepter\<lparr>a_received := sz\<rparr>) of
         (a', fx) \<Rightarrow> (a', map ToCli (map Data cs) @ fx))"
    using accept_run_data [of new_accepter cs sz] assms(1) z by (simp add: new_accepter_def)
  show ?thesis
    using run
    by (simp add: assms(2) accept_step_def accept_receiving_def accept_committing_def new_accepter_def Let_def
        split: prod.splits)
qed

lemma persist_finds_room:
  assumes "\<And>n. fails n = None" and "dir (candidate name (n + k)) = None" and "k < left"
  shows "\<exists>saved. persist_from fails name data dir n left = (Inr saved, dir(saved \<mapsto> data)) \<and> dir saved = None"
  using assms(2,3)
proof (induction left arbitrary: n k)
  case (Suc left)
  show ?case
  proof (cases "dir (candidate name n)")
    case (Some old)
    with Suc.prems obtain j where "k = Suc j" by (cases k) auto
    with Suc.IH [of "Suc n" j] Suc.prems Some show ?thesis by (simp add: Let_def)
  qed (auto simp: assms(1) Let_def fun_upd_def)
qed simp

lemma receive_file:
  assumes "unat sz = length (concat cs)" and "os_flush os = None" and "\<And>n. os_persist os n = None"
    and "k \<le> SAVE_MAX_SUFFIX" and "dir (candidate name k) = None"
  shows "\<exists>saved. receive blake3 os name sz
      (map (\<lambda>r. (r, None)) (map Inr (map Data cs @ [Hash (blake3 (concat cs)), End]) @ [Inl UnexpectedEof])) dir =
      (Inr saved, dir(saved \<mapsto> concat cs), [End]) \<and> dir saved = None"
proof -
  have z: "(of_nat (length (concat cs)) :: u64) = sz" by (simp flip: assms(1))
  have q: "map (\<lambda>r. (r, None)) (map Inr (map Data cs @ [Hash h, End]) @ [Inl UnexpectedEof]) =
      map (\<lambda>f. (Inr f, None)) (map Data cs) @ [(Inr (Hash h), None), (Inr End, None), (Inl UnexpectedEof, None)]" for h
    by simp
  have fr: "receive_frames sz new_receiver
      (map (\<lambda>r. (r, None)) (map Inr (map Data cs @ [Hash (blake3 (concat cs)), End]) @ [Inl UnexpectedEof])) =
      Inr \<lparr>rv_received = sz, rv_written = concat cs, rv_trailer = Some (blake3 (concat cs))\<rparr>"
    unfolding q using receive_frames_data [of new_receiver cs sz] assms(1) z by (simp add: new_receiver_def)
  obtain saved where "persist_from (os_persist os) name (concat cs) dir 0 (Suc SAVE_MAX_SUFFIX) =
      (Inr saved, dir(saved \<mapsto> concat cs))" "dir saved = None"
    using persist_finds_room [where fails = "os_persist os" and dir = dir and name = name and n = 0 and k = k
        and left = "Suc SAVE_MAX_SUFFIX" and data = "concat cs"] assms(3-5) by auto
  then show ?thesis unfolding receive_def fr by (simp add: part_finish_def assms(2) del: persist_from.simps)
qed

section \<open>Properties\<close>

text \<open>
  C13: A file arrives as it was. When the sending command reads a file in chunks and nothing fails on
  the way, the frames it writes pass the sending daemon's relay, the wire between the daemons and
  the receiving daemon's relay, byte for byte as the framing writes and reads them, and the
  receiving command saves exactly the file's contents under a name that was free; its end frame
  makes the receiving daemon commit, and the sending one record the offer as done and tell its
  client.
\<close>

theorem file_arrives_intact:
  assumes "\<forall>c \<in> set chunks. c \<noteq> [] \<and> length c \<le> CHUNK" and "length (concat chunks) < 2 ^ 64"
    and "se_reads se = map (\<lambda>c. (Inr c, True)) chunks" and "se_hash_written se" and "se_end_written se"
    and "\<And>d. length (blake3 d) = 32"
    and "control parse accept = Some WAccept" and "control parse committed = Some WCommitted"
    and "os_flush os = None" and "\<And>n. os_persist os n = None"
    and "k \<le> SAVE_MAX_SUFFIX" and "dir (candidate name k) = None"
  shows "let sz = of_nat (length (concat chunks));
       (_, written) = stream blake3 sz se;
       (s, fx) = send_run parse to sz
         (PeerSays (Some accept) None [] # from_cli (read_frames (wire_bytes written)) @
            [PeerSays (Some committed) None []]) new_sender;
       (a, gx) = accept_run sender_name sz
         (from_sender (read_frames (wire_bytes (to_peer fx))) @ [CliAnswers (Some End)]) new_accepter;
       (res, dir', out) = receive blake3 os name sz (map (\<lambda>r. (r, None)) (frame_reader (wire_bytes (to_cli gx)))) dir
     in \<exists>saved. res = Inr saved \<and> dir saved = None \<and> dir' = dir(saved \<mapsto> concat chunks) \<and> out = [End] \<and>
       s_recorded s = Done \<and> EventToCli Delivered \<in> set fx \<and> WireToPeer WCommitted \<in> set gx"
proof -
  define sz :: u64 where "sz = of_nat (length (concat chunks))"
  have sz: "unat sz = length (concat chunks)" using assms(2) by (simp add: sz_def unat_of_nat)
  define fs where "fs = map Data chunks @ [Hash (blake3 (concat chunks)), End]"
  have w: "list_all writable fs"
    using assms(1,6) by (auto simp: fs_def list_all_iff writable_def tag_payload_def MAX_PAYLOAD_def CHUNK_def)
  have sent: "stream blake3 sz se = (Inr (), fs)"
    unfolding fs_def by (rule stream_chunks) (use assms(1,3-5) sz in auto)
  obtain s fx where send: "send_run parse to sz (PeerSays (Some accept) None [] # from_cli fs @ [PeerSays (Some committed) None []])
      new_sender = (s, fx)" "s_recorded s = Done" "EventToCli Delivered \<in> set fx" "to_peer fx = fs"
    using send_run_file [OF assms(7,8) sz fs_def] by blast
  obtain a gx where accept: "accept_run sender_name sz (from_sender fs @ [CliAnswers (Some End)]) new_accepter = (a, gx)"
    "WireToPeer WCommitted \<in> set gx" "to_cli gx = fs"
    using accept_run_file [OF sz fs_def] by blast
  obtain saved where saved: "receive blake3 os name sz (map (\<lambda>r. (r, None)) (map Inr fs @ [Inl UnexpectedEof])) dir =
      (Inr saved, dir(saved \<mapsto> concat chunks), [End])" "dir saved = None"
    using receive_file [where os = os and ?blake3.0 = blake3 and dir = dir and name = name, OF sz assms(9-12)] unfolding fs_def by blast
  show ?thesis
    unfolding sz_def [symmetric] Let_def sent prod.case read_frames_written [OF w] send(1,4) accept(1,3)
      reader_of_written [OF w] saved(1)
    using send(2,3) accept(2) saved(2) by blast
qed

text \<open>
  C37: The window asked for is the window granted. When the client accepts \<open>--expires\<close>, the seconds it
  sends are the whole number typed times the unit, computed without wrapping, at least one and
  at most the limit; the daemon's own clamp leaves them alone, so an invite is minted to expire
  exactly that long from then, and a file offer waits exactly that long. Without \<open>--expires\<close> the
  defaults are within the limits too.
\<close>

theorem asked_windows_are_granted:
  assumes "invite_ttl_secs invite_expires = Inr t" and "send_ttl_secs file_expires = Inr u"
    and "state_is_coordinator x n" and "e_saves (ie_env ie)"
  shows "(\<exists>code n' pushes. ipc_dispatch x ie (Invite (unat t)) n = (RespInvite code (e_now (ie_env ie) + int (unat t)), n', pushes)) \<and>
    clamp_ttl (unat u) = secs (unat u) \<and>
    (case invite_expires of
       Some (amount, unit) \<Rightarrow> \<exists>k per. parse_unsigned (2 ^ 64) amount = Some k \<and> per_unit (ascii_lower unit) = Some per \<and>
         unat t = k * unat per
     | None \<Rightarrow> unat t = DEFAULT_INVITE_TTL) \<and>
    (case file_expires of
       Some (amount, unit) \<Rightarrow> \<exists>k per. parse_unsigned (2 ^ 64) amount = Some k \<and> per_unit (ascii_lower unit) = Some per \<and>
         unat u = k * unat per
     | None \<Rightarrow> unat u = DEFAULT_FILE_TTL)"
proof (intro conjI)
  have t: "max 1 (min MAX_INVITE_TTL (unat t)) = unat t" using ttl_bounds(1) [OF assms(1)] by simp
  show "\<exists>code n' pushes. ipc_dispatch x ie (Invite (unat t)) n =
      (RespInvite code (e_now (ie_env ie) + int (unat t)), n', pushes)"
    using assms(3,4) t by (simp add: ipc_dispatch_def ipc_invite_def state_generate_invite_def generate_invite_def Let_def)
  have "max 1 (min MAX_FILE_TTL (unat u)) = unat u" using ttl_bounds(2) [OF assms(2)] by simp
  then show "clamp_ttl (unat u) = secs (unat u)" by (simp add: clamp_ttl_def)
  show "case invite_expires of
       Some (amount, unit) \<Rightarrow> \<exists>k per. parse_unsigned (2 ^ 64) amount = Some k \<and> per_unit (ascii_lower unit) = Some per \<and>
         unat t = k * unat per
     | None \<Rightarrow> unat t = DEFAULT_INVITE_TTL"
    using assms(1) by (auto simp: invite_ttl_secs_def parse_window_Inr DEFAULT_INVITE_TTL_def split: option.splits)
  show "case file_expires of
       Some (amount, unit) \<Rightarrow> \<exists>k per. parse_unsigned (2 ^ 64) amount = Some k \<and> per_unit (ascii_lower unit) = Some per \<and>
         unat u = k * unat per
     | None \<Rightarrow> unat u = DEFAULT_FILE_TTL"
    using assms(2) by (auto simp: send_ttl_secs_def parse_window_Inr DEFAULT_FILE_TTL_def split: option.splits)
qed

section \<open>Witnesses\<close>

definition demo_stream :: stream_env where
  "demo_stream = \<lparr>se_reads = map (\<lambda>c. (Inr c, True)) [[1, 2], [3]], se_hash_written = True, se_end_written = True,
     se_after = Inl UnexpectedEof\<rparr>"

theorem file_arrives_intact_witness:
  "let sz = of_nat (length (concat [[1, 2], [3 :: u8]]));
       (_, written) = stream demo_hash sz demo_stream;
       (s, fx) = send_run demo_parse (lit ''nas'') sz
         (PeerSays (Some (Control [1])) None [] # from_cli (read_frames (wire_bytes written)) @
            [PeerSays (Some (Control [2])) None []]) new_sender;
       (a, gx) = accept_run (lit ''pc'') sz
         (from_sender (read_frames (wire_bytes (to_peer fx))) @ [CliAnswers (Some End)]) new_accepter;
       (res, dir', out) = receive demo_hash demo_os demo_photo sz
         (map (\<lambda>r. (r, None)) (frame_reader (wire_bytes (to_cli gx)))) [demo_photo \<mapsto> []]
   in \<exists>saved. res = Inr saved \<and> ([demo_photo \<mapsto> []] :: directory) saved = None \<and>
     dir' = [demo_photo \<mapsto> [], saved \<mapsto> concat [[1, 2], [3]]] \<and> out = [End] \<and>
     s_recorded s = Done \<and> EventToCli Delivered \<in> set fx \<and> WireToPeer WCommitted \<in> set gx"
proof -
  have ne: "lit ''photo (1).jpg'' \<noteq> demo_photo" by (simp add: lit_def)
  show ?thesis
    by (rule file_arrives_intact [where chunks = "[[1, 2], [3]]" and se = demo_stream and ?blake3.0 = demo_hash
          and parse = demo_parse and accept = "Control [1]" and committed = "Control [2]" and os = demo_os and k = 1
          and dir = "[demo_photo \<mapsto> []]" and name = demo_photo and to = "lit ''nas''" and sender_name = "lit ''pc''"])
      (simp_all add: demo_stream_def demo_hash_def demo_os_def control_def demo_parse_def demo_candidates ne CHUNK_def
        SAVE_MAX_SUFFIX_def)
qed

theorem asked_windows_are_granted_witness:
  "\<exists>code n' pushes. ipc_dispatch plain_externs demo_ipc (Invite 1800) demo_home = (RespInvite code 1900, n', pushes)"
proof -
  have "invite_ttl_secs (Some (lit ''30'', lit ''MIN'')) = Inr 1800" by (simp add: evals undecimal_def)
  moreover have "send_ttl_secs None = Inr (of_nat DEFAULT_FILE_TTL)" by (simp add: send_ttl_secs_def)
  ultimately show ?thesis
    using asked_windows_are_granted [of "Some (lit ''30'', lit ''MIN'')" 1800 None "of_nat DEFAULT_FILE_TTL" plain_externs
        demo_home demo_ipc] demo_home_facts(3)
    by (simp add: demo_ipc_def demo_env_def)
qed

end
