(* ===== verification/Endings.thy ===== *)
theory Endings
  imports File_Transfer
begin

text \<open>
  How a connection between two members ends, and what each side makes of it: \<open>why\<close>,
  \<open>closed_because\<close> and \<open>closed_with\<close> of \<open>daemon/src/files/transfer.rs\<close>, and the two guards that
  end what a dropped task was doing. The close itself is the transport's: what the connection says
  about its end is an input. The events of the relays carry what these functions give, so the last
  section puts the two relays together at their ends.
\<close>

section \<open>Why a connection ended\<close>

datatype connection_error =
    ApplicationClosed u64 "u8 list"
  | ConnectionTimedOut
  | LocallyClosed
  | OtherConnectionError rstr

text \<open>The connection had ended already, ended within two seconds of being asked, or did not.\<close>

datatype close_seen = EndedBefore connection_error | EndedSoon connection_error | StillOpen

definition close_reason :: "close_seen \<Rightarrow> connection_error option" where
  "close_reason seen = (case seen of EndedBefore e \<Rightarrow> Some e | EndedSoon e \<Rightarrow> Some e | StillOpen \<Rightarrow> None)"

definition closed_because :: "close_seen \<Rightarrow> rstr" where
  "closed_because seen =
     (case close_reason seen of
        None \<Rightarrow> lit ''the stream was reset''
      | Some (ApplicationClosed code reason) \<Rightarrow> utf8_text reason
      | Some ConnectionTimedOut \<Rightarrow> lit ''the connection timed out''
      | Some LocallyClosed \<Rightarrow> lit ''closed''
      | Some (OtherConnectionError e) \<Rightarrow> e)"

text \<open>The code is a 62-bit number on the wire; one that does not fit 32 bits is no code.\<close>

definition closed_with :: "close_seen \<Rightarrow> nat option" where
  "closed_with seen =
     (case close_reason seen of
        Some (ApplicationClosed code reason) \<Rightarrow> if unat code < 2 ^ 32 then Some (unat code) else None
      | _ \<Rightarrow> None)"

definition why :: "registry \<Rightarrow> eid \<Rightarrow> close_seen \<Rightarrow> rstr" where
  "why r peer seen =
     (if \<not> files_is_member peer r then lit ''removed from the network'' else closed_because seen)"

section \<open>Guards\<close>

text \<open>\<open>Outcome\<close>: a sending task that is dropped before it settled fails its offer as interrupted.\<close>

definition outcome_drop :: "sender \<Rightarrow> sender \<times> transfer_effect list" where
  "outcome_drop s =
     (if \<not> s_settled s then finish Failed FAILED (lit ''interrupted'') [] s else (s, []))"

text \<open>The flag of the guard is set exactly where the task has ended.\<close>

definition settled_right :: "sender \<Rightarrow> bool" where
  "settled_right s \<longleftrightarrow> (s_settled s \<longleftrightarrow> s_phase s = Over)"

text \<open>An answer the user was too late for is no answer: a settled sender is left alone.\<close>

lemma dropped_sender:
  assumes "settled_right s"
  shows "send_step parse to sz SenderDropped s = outcome_drop s"
  using assms
  by (cases "s_phase s") (simp_all add: settled_right_def send_step_def send_offering_def send_relaying_def send_confirming_def outcome_drop_def)

lemma finish_settles: "settled_right (fst (finish st code reason said s))" "settled_right (fst (lost to w s))"
  by (simp_all add: settled_right_def finish_def lost_def)

lemma offering_settled: "\<not> s_settled s \<Longrightarrow> s_phase s = Offering \<Longrightarrow> settled_right (fst (send_offering parse to e s))"
  by (cases e) (auto simp: send_offering_def finish_settles settled_right_def [of "s\<lparr>s_phase := Relaying, s_recorded := Transferring\<rparr>"]
      split: option.split wire.split)

lemma relaying_settled:
  assumes "\<not> s_settled s" and "s_phase s = Relaying"
  shows "settled_right (fst (send_relaying to sz e s))"
proof -
  have [simp]: "settled_right (s\<lparr>s_sent := n\<rparr>)" "settled_right (s\<lparr>s_sent := n, s_phase := Confirming\<rparr>)"
    "settled_right (s\<lparr>s_phase := Confirming\<rparr>)" "settled_right s" for n
    using assms by (simp_all add: settled_right_def)
  show ?thesis by (cases e) (auto simp: send_relaying_def finish_settles Let_def split: option.split frame.split)
qed

lemma confirming_settled:
  "\<not> s_settled s \<Longrightarrow> s_phase s = Confirming \<Longrightarrow> settled_right (fst (send_confirming parse to e s))"
  by (cases e) (auto simp: send_confirming_def finish_settles settled_right_def [of s] split: option.split frame.split wire.split)

lemma settled_is_over: "settled_right s \<Longrightarrow> settled_right (fst (send_step parse to sz e s))"
  by (cases "s_phase s")
    (simp_all add: send_step_def offering_settled relaying_settled confirming_settled settled_right_def [of s])

interpretation outcome_guard: safe_machine "\<lambda>s e. fst (send_step parse to sz e s)" "\<lambda>_ _. True" settled_right for parse to sz
  by unfold_locales (rule settled_is_over)

text \<open>Whenever a sending task is dropped, its offer is over afterwards: as it was, or failed as interrupted.\<close>

lemma dropped_any_time:
  defines "now parse to sz es \<equiv> foldl (\<lambda>s e. fst (send_step parse to sz e s)) new_sender es"
  shows "s_phase (fst (outcome_drop (now parse to sz es))) = Over \<and>
    (s_phase (now parse to sz es) = Over \<longrightarrow> outcome_drop (now parse to sz es) = (now parse to sz es, [])) \<and>
    (s_phase (now parse to sz es) \<noteq> Over \<longrightarrow> s_recorded (fst (outcome_drop (now parse to sz es))) = Failed)"
proof -
  have "settled_right new_sender" by (simp add: settled_right_def new_sender_def)
  then have "settled_right (now parse to sz es)" unfolding now_def by (rule outcome_guard.run_inv_total [OF TrueI])
  then show ?thesis by (auto simp: outcome_drop_def settled_right_def finish_def)
qed

section \<open>What the other side's user is told\<close>

text \<open>The end of a connection, as the sender and as the receiver of a transfer wake to it.\<close>

definition sender_sees :: "registry \<Rightarrow> eid \<Rightarrow> close_seen \<Rightarrow> send_event" where
  "sender_sees r peer seen = PeerSays None (closed_with seen) (why r peer seen)"

definition receiver_sees :: "registry \<Rightarrow> eid \<Rightarrow> close_seen \<Rightarrow> bool \<Rightarrow> accept_event" where
  "receiver_sees r peer seen written = SenderSays None written (why r peer seen)"

text \<open>The connection closed by the other side with \<open>CloseWith\<close>.\<close>

definition closed_by_peer :: "nat \<Rightarrow> rstr \<Rightarrow> close_seen" where
  "closed_by_peer code reason = EndedBefore (ApplicationClosed (of_nat code) (utf8_bytes reason))"

lemma closed_by_peer_read:
  "list_all scalar reason \<Longrightarrow> closed_because (closed_by_peer code reason) = reason"
  "code < 2 ^ 32 \<Longrightarrow> closed_with (closed_by_peer code reason) = Some code"
  by (simp_all add: closed_because_def closed_with_def closed_by_peer_def close_reason_def utf8_text_bytes unat_of_nat)

lemma why_read:
  "files_is_member peer r \<Longrightarrow> list_all scalar reason \<Longrightarrow> why r peer (closed_by_peer code reason) = reason"
  by (simp add: why_def closed_by_peer_read)

text \<open>Every close the relays make has a code that fits.\<close>

lemma codes_fit: "code \<in> {DONE, CANCELLED, EXPIRED, NOT_MEMBER, FAILED, REJECTED} \<Longrightarrow> code < 2 ^ 32"
  by (auto simp: DONE_def CANCELLED_def EXPIRED_def NOT_MEMBER_def FAILED_def REJECTED_def)

text \<open>
  However a receiver that is a member closes a relayed transfer, the sender's user reads the words
  it was closed with, and so does the entry of the offer.
\<close>

lemma receiver_ends_it:
  assumes "files_is_member peer r" and "list_all scalar reason" and "s_phase s = Relaying"
    and "send_step parse to sz (sender_sees r peer (closed_by_peer code reason)) s = (s', fx)"
  shows "fx = [CloseWith FAILED reason, ErrorToCli (to @ lit '' stopped the transfer: '' @ reason)] \<and>
    s_phase s' = Over \<and> s_recorded s' = Failed \<and> s_detail s' = Some reason"
  using assms by (auto simp: send_step_def send_relaying_def sender_sees_def why_read finish_def)

text \<open>
  While the offer waits, a receiver that closes because the window closed or because its user said
  no is told of as that, whatever the words; any other close is a failure in its words.
\<close>

lemma receiver_answers_by_closing:
  assumes "files_is_member peer r" and "list_all scalar reason" and "s_phase s = Offering"
    and "code \<in> {DONE, CANCELLED, EXPIRED, NOT_MEMBER, FAILED, REJECTED}"
    and "send_step parse to sz (sender_sees r peer (closed_by_peer code reason)) s = (s', fx)"
  shows "s_recorded s' = (if code = EXPIRED then OfferExpired else if code = REJECTED then OfferRejected else Failed) \<and>
    (code \<notin> {EXPIRED, REJECTED} \<longrightarrow>
       fx = [CloseWith FAILED reason, ErrorToCli (to @ lit '' is no longer available: '' @ reason)])"
  using assms(3,5) codes_fit [OF assms(4)]
  by (auto simp: send_step_def send_offering_def sender_sees_def why_read [OF assms(1,2)] closed_by_peer_read finish_def
      EXPIRED_def REJECTED_def split: if_splits)

text \<open>However a sender ends a transfer being received, the receiver's user reads its words.\<close>

lemma sender_ends_it:
  assumes "files_is_member peer r" and "list_all scalar reason" and "a_phase a = Receiving"
  shows "accept_step from sz (receiver_sees r peer (closed_by_peer code reason) written) a =
    (a\<lparr>a_phase := Ended\<rparr>,
     [ErrorToCli (from @ (if a_received a = 0 then lit '' is no longer available: '' else lit '' went away mid-transfer: '') @ reason)])"
  using assms by (simp add: accept_step_def accept_receiving_def receiver_sees_def why_read)

text \<open>A peer off the roster is told of as removed, whatever the connection says.\<close>

lemma removed_peer_is_named_so:
  "\<not> files_is_member peer r \<Longrightarrow> why r peer seen = lit ''removed from the network''"
  by (simp add: why_def)

end
