(* ===== verification/Frame_Reader.thy ===== *)
theory Frame_Reader
  imports Frame
begin

text \<open>
  \<open>FrameReader\<close> of \<open>proto/src/frame.rs\<close>: a task reads frames ahead of whoever consumes them and
  hands them on over a channel of four. The task and the consumer are stepped one at a time, in any
  order; what the consumer gets is what the queue of \<open>frame_reader\<close> and \<open>reader_next\<close> gives, which
  is how the transfers use a reader.
\<close>

section \<open>Machines that implement a queue\<close>

text \<open>Steps of a machine, those without a label unseen from outside, and the labels seen.\<close>

inductive runs :: "('s \<Rightarrow> 'l option \<Rightarrow> 's \<Rightarrow> bool) \<Rightarrow> 's \<Rightarrow> 'l list \<Rightarrow> 's \<Rightarrow> bool" for step where
  runs_stop: "runs step s [] s"
| runs_silent: "step s None s' \<Longrightarrow> runs step s' ls t \<Longrightarrow> runs step s ls t"
| runs_seen: "step s (Some l) s' \<Longrightarrow> runs step s' ls t \<Longrightarrow> runs step s (l # ls) t"

text \<open>Asking a queue \<open>n\<close> times.\<close>

fun nexts :: "('q \<Rightarrow> 'l \<times> 'q) \<Rightarrow> nat \<Rightarrow> 'q \<Rightarrow> 'l list \<times> 'q" where
  "nexts nxt 0 q = ([], q)"
| "nexts nxt (Suc n) q =
     (case nxt q of (l, q) \<Rightarrow> (case nexts nxt n q of (ls, q) \<Rightarrow> (l # ls, q)))"

locale implements =
  fixes step :: "'s \<Rightarrow> 'l option \<Rightarrow> 's \<Rightarrow> bool" and left :: "'s \<Rightarrow> 'q" and nxt :: "'q \<Rightarrow> 'l \<times> 'q"
    and inv :: "'s \<Rightarrow> bool"
  assumes silent: "inv s \<Longrightarrow> step s None s' \<Longrightarrow> inv s' \<and> left s' = left s"
    and seen: "inv s \<Longrightarrow> step s (Some l) s' \<Longrightarrow> inv s' \<and> nxt (left s) = (l, left s')"
begin

lemma run: "runs step s ls t \<Longrightarrow> inv s \<Longrightarrow> inv t \<and> nexts nxt (length ls) (left s) = (ls, left t)"
proof (induction rule: runs.induct)
  case (runs_silent s s' ls t)
  then show ?case using silent by metis
next
  case (runs_seen s l s' ls t)
  have "inv s'" "nxt (left s) = (l, left s')" using seen [OF runs_seen.prems runs_seen.hyps(1)] by simp_all
  then show ?case using runs_seen.IH by simp
qed simp

end

section \<open>The reader\<close>

definition READ_AHEAD :: nat where "READ_AHEAD = 4"

text \<open>
  The task: reading off the bytes that will ever arrive, waiting for room to send what it read with
  the bytes behind it, or returned. The channel, and whether its receiver is still held.
\<close>

datatype reader_task = Reading "u8 list" | Sending "(frame_error, frame) result" "u8 list" | Returned

record reader =
  rd_task :: reader_task
  rd_channel :: "(frame_error, frame) result list"
  rd_open :: bool

definition spawn :: "u8 list \<Rightarrow> reader" where
  "spawn bytes = \<lparr>rd_task = Reading bytes, rd_channel = [], rd_open = True\<rparr>"

definition read_once :: "u8 list \<Rightarrow> reader_task" where
  "read_once bs =
     (case frame_read bs of Inl e \<Rightarrow> Sending (Inl e) [] | Inr (f, rest) \<Rightarrow> Sending (Inr f) rest)"

definition after_send :: "(frame_error, frame) result \<Rightarrow> u8 list \<Rightarrow> reader_task" where
  "after_send res rest = (if is_ok res then Reading rest else Returned)"

text \<open>The steps of the task, unseen, and of \<open>next\<close>, which is labelled with what it returned.\<close>

inductive reader_step :: "reader \<Rightarrow> (frame_error, frame) result option \<Rightarrow> reader \<Rightarrow> bool" where
  step_read: "rd_task r = Reading bs \<Longrightarrow> reader_step r None (r\<lparr>rd_task := read_once bs\<rparr>)"
| step_send: "rd_task r = Sending res rest \<Longrightarrow> rd_open r \<Longrightarrow> length (rd_channel r) < READ_AHEAD \<Longrightarrow>
    reader_step r None (r\<lparr>rd_channel := rd_channel r @ [res], rd_task := after_send res rest\<rparr>)"
| step_refused: "rd_task r = Sending res rest \<Longrightarrow> \<not> rd_open r \<Longrightarrow> reader_step r None (r\<lparr>rd_task := Returned\<rparr>)"
| step_next: "rd_open r \<Longrightarrow> rd_channel r = res # q \<Longrightarrow> reader_step r (Some res) (r\<lparr>rd_channel := q\<rparr>)"
| step_over: "rd_open r \<Longrightarrow> rd_channel r = [] \<Longrightarrow> rd_task r = Returned \<Longrightarrow>
    reader_step r (Some (Inl UnexpectedEof)) r"

inductive_cases reader_silentE: "reader_step r None r'"
inductive_cases reader_seenE: "reader_step r (Some res) r'"

text \<open>Dropping a reader cancels its task and lets go of the channel.\<close>

definition reader_drop :: "reader \<Rightarrow> reader" where
  "reader_drop r = r\<lparr>rd_task := Returned, rd_channel := [], rd_open := False\<rparr>"

lemma dropped_is_over: "\<not> reader_step (reader_drop r) l r'"
  by (auto simp: reader_drop_def elim: reader_step.cases)

section \<open>It implements the queue\<close>

text \<open>What the consumer of a reader has yet to get.\<close>

definition task_left :: "reader_task \<Rightarrow> (frame_error, frame) result list" where
  "task_left t =
     (case t of
        Reading bs \<Rightarrow> frame_reader bs
      | Sending (Inl e) _ \<Rightarrow> [Inl e]
      | Sending (Inr f) rest \<Rightarrow> Inr f # frame_reader rest
      | Returned \<Rightarrow> [])"

definition stream_left :: "reader \<Rightarrow> (frame_error, frame) result list" where
  "stream_left r = rd_channel r @ task_left (rd_task r)"

text \<open>What the reader holds of the stream: frames that were read and not yet taken.\<close>

definition held :: "reader \<Rightarrow> (frame_error, frame) result list" where
  "held r = rd_channel r @ (case rd_task r of Sending res _ \<Rightarrow> [res] | _ \<Rightarrow> [])"

definition in_limit :: "(frame_error, frame) result \<Rightarrow> bool" where
  "in_limit res \<longleftrightarrow>
     (case res of
        Inr (Data d) \<Rightarrow> length d \<le> MAX_PAYLOAD
      | Inr (Control j) \<Rightarrow> length j \<le> MAX_PAYLOAD
      | Inr (Hash h) \<Rightarrow> length h = 32
      | _ \<Rightarrow> True)"

definition reader_inv :: "reader \<Rightarrow> bool" where
  "reader_inv r \<longleftrightarrow> rd_open r \<and> length (rd_channel r) \<le> READ_AHEAD \<and> list_all in_limit (held r)"

lemma task_left_Reading [simp]: "task_left (Reading bs) = frame_reader bs"
  by (simp add: task_left_def)

lemma read_once_left [simp]: "task_left (read_once bs) = frame_reader bs"
  by (simp add: frame_reader.simps [of bs] read_once_def task_left_def split: sum.split)

lemma after_send_left: "res # task_left (after_send res rest) = task_left (Sending res rest)"
  by (cases res) (simp_all add: after_send_def task_left_def)

lemma frame_read_in_limit: "frame_read bs = Inr (f, rest) \<Longrightarrow> in_limit (Inr f)"
  using frame_read_is_bounded [of bs] by (auto simp: in_limit_def)

lemma held_read_once: "list_all in_limit (case read_once bs of Sending res _ \<Rightarrow> [res] | _ \<Rightarrow> [])"
  by (auto simp: read_once_def in_limit_def [of "Inl _"] split: sum.split dest: frame_read_in_limit)

lemma held_after_send: "(case after_send res rest of Sending res _ \<Rightarrow> [res] | _ \<Rightarrow> []) = []"
  by (simp add: after_send_def)

interpretation reading: implements reader_step stream_left reader_next reader_inv
proof
  fix s s' assume inv: "reader_inv s" and step: "reader_step s None s'"
  from step show "reader_inv s' \<and> stream_left s' = stream_left s"
    by (rule reader_silentE)
      (use inv held_read_once in \<open>auto simp: reader_inv_def held_def stream_left_def held_after_send
        after_send_left [symmetric] split: reader_task.splits\<close>)
next
  fix s l s' assume inv: "reader_inv s" and step: "reader_step s (Some l) s'"
  from step show "reader_inv s' \<and> reader_next (stream_left s) = (l, stream_left s')"
    by (rule reader_seenE)
      (use inv in \<open>auto simp: reader_inv_def held_def stream_left_def reader_next_def task_left_def\<close>)
qed

text \<open>The consumer never waits for good: two steps of the task at most, and \<open>next\<close> returns.\<close>

lemma next_returns:
  assumes "reader_inv r"
  shows "\<exists>r'. runs reader_step r [fst (reader_next (stream_left r))] r'"
proof (cases "rd_channel r")
  case (Cons res q)
  then have "reader_step r (Some res) (r\<lparr>rd_channel := q\<rparr>)"
    using assms by (simp add: step_next reader_inv_def)
  then show ?thesis using Cons by (auto simp: stream_left_def reader_next_def intro: runs.intros)
next
  case Nil
  have sent: "\<exists>r'. runs reader_step s [res] r'" if "rd_task s = Sending res rest" "rd_channel s = []" "rd_open s" for s res rest
  proof -
    let ?s = "s\<lparr>rd_channel := [res], rd_task := after_send res rest\<rparr>"
    have "reader_step s None ?s" using step_send [OF that(1,3)] that(2) by (simp add: READ_AHEAD_def)
    moreover have "reader_step ?s (Some res) (?s\<lparr>rd_channel := []\<rparr>)" using that(3) by (intro step_next) simp_all
    ultimately show ?thesis by (blast intro: runs.intros)
  qed
  have opened: "rd_open r" using assms by (simp add: reader_inv_def)
  show ?thesis
  proof (cases "rd_task r")
    case (Reading bs)
    obtain res rest where ro: "read_once bs = Sending res rest"
      by (cases "frame_read bs") (auto simp: read_once_def)
    let ?r = "r\<lparr>rd_task := Sending res rest\<rparr>"
    have "reader_step r None ?r" using step_read [OF Reading] ro by simp
    moreover have "\<exists>r'. runs reader_step ?r [res] r'" by (rule sent) (simp_all add: Nil opened)
    moreover have "fst (reader_next (stream_left r)) = res"
    proof -
      have "stream_left r = task_left (Sending res rest)"
        using Nil Reading read_once_left [of bs] ro by (simp add: stream_left_def)
      then show ?thesis by (simp add: task_left_def reader_next_def split: sum.split)
    qed
    ultimately show ?thesis by (metis runs_silent)
  next
    case (Sending res rest)
    then show ?thesis using sent [OF Sending Nil opened] Nil
      by (auto simp: stream_left_def task_left_def reader_next_def split: sum.splits)
  next
    case Returned
    then have "reader_step r (Some (Inl UnexpectedEof)) r" using step_over Nil opened by blast
    then show ?thesis using Nil Returned by (auto simp: stream_left_def task_left_def reader_next_def intro: runs.intros)
  qed
qed

section \<open>Properties\<close>

text \<open>
  C14: The reading task changes nothing but the timing. In whatever order the task and the consumer
  run, the consumer has got exactly the first frames of the stream, in order, with none lost or
  twice, then the failure that ended it, and after that only ends of the stream; whenever it asks
  again, it is answered with the next of them after finitely many steps of the task; and the reader
  never holds more than \<open>READ_AHEAD\<close> frames and one, each within the payload limit.
\<close>

theorem reader_hands_on_the_stream:
  assumes "runs reader_step (spawn bytes) got r"
  shows "nexts reader_next (length got) (frame_reader bytes) = (got, stream_left r) \<and>
    (\<exists>r'. runs reader_step r [fst (reader_next (stream_left r))] r') \<and>
    length (held r) \<le> READ_AHEAD + 1 \<and> list_all in_limit (held r)"
proof -
  have "reader_inv (spawn bytes)" "stream_left (spawn bytes) = frame_reader bytes"
    by (simp_all add: spawn_def reader_inv_def held_def stream_left_def task_left_def)
  then have r: "reader_inv r" "nexts reader_next (length got) (frame_reader bytes) = (got, stream_left r)"
    using reading.run [OF assms] by simp_all
  have "length (held r) \<le> READ_AHEAD + 1" "list_all in_limit (held r)"
    using r(1) by (auto simp: reader_inv_def held_def split: reader_task.splits)
  with r next_returns [OF r(1)] show ?thesis by simp
qed

text \<open>A stream of one end frame, read ahead to its end before the consumer asks three times.\<close>

theorem reader_hands_on_the_stream_witness:
  "\<exists>r. nexts reader_next 3 (frame_reader [69, 0, 0, 0, 0]) =
     ([Inr End, Inl UnexpectedEof, Inl UnexpectedEof], stream_left r)"
proof -
  have e: "frame_read [69, 0, 0, 0, 0] = Inr (End, [])" "frame_read [] = Inl UnexpectedEof"
    by (simp_all add: frame_read_def MAX_PAYLOAD_def tag_defs u32_from_be_def)
  define r where "r = (\<lambda>t q. \<lparr>rd_task = t, rd_channel = q, rd_open = True\<rparr>)"
  have "reader_step (r (Reading [69, 0, 0, 0, 0]) []) None (r (Sending (Inr End) []) [])"
    using step_read [of "r (Reading [69, 0, 0, 0, 0]) []"] by (simp add: r_def read_once_def e)
  moreover have "reader_step (r (Sending (Inr End) []) []) None (r (Reading []) [Inr End])"
    using step_send [of "r (Sending (Inr End) []) []"] by (simp add: r_def after_send_def READ_AHEAD_def)
  moreover have "reader_step (r (Reading []) [Inr End]) None (r (Sending (Inl UnexpectedEof) []) [Inr End])"
    using step_read [of "r (Reading []) [Inr End]"] by (simp add: r_def read_once_def e)
  moreover have "reader_step (r (Sending (Inl UnexpectedEof) []) [Inr End]) None (r Returned [Inr End, Inl UnexpectedEof])"
    using step_send [of "r (Sending (Inl UnexpectedEof) []) [Inr End]"] by (simp add: r_def after_send_def READ_AHEAD_def)
  moreover have "reader_step (r Returned [Inr End, Inl UnexpectedEof]) (Some (Inr End)) (r Returned [Inl UnexpectedEof])"
    using step_next [of "r Returned [Inr End, Inl UnexpectedEof]"] by (simp add: r_def)
  moreover have "reader_step (r Returned [Inl UnexpectedEof]) (Some (Inl UnexpectedEof)) (r Returned [])"
    using step_next [of "r Returned [Inl UnexpectedEof]"] by (simp add: r_def)
  moreover have "reader_step (r Returned []) (Some (Inl UnexpectedEof)) (r Returned [])"
    using step_over [of "r Returned []"] by (simp add: r_def)
  ultimately have "runs reader_step (spawn [69, 0, 0, 0, 0]) [Inr End, Inl UnexpectedEof, Inl UnexpectedEof] (r Returned [])"
    unfolding spawn_def r_def by (meson runs.intros)
  from reader_hands_on_the_stream [OF this] show ?thesis by (auto simp: numeral_3_eq_3)
qed

end
