(* ===== verification/Cli_Status.thy ===== *)
theory Cli_Status
  imports Ipc
begin

text \<open>
  \<open>cli/src/commands/status.rs\<close>: what \<open>quix status\<close> shows of the daemon's answer, as the lines it
  prints, and the text the daemon makes of a conflict.
\<close>

section \<open>Lines\<close>

abbreviation dash :: rstr where "dash \<equiv> [0x2014]"

definition INDENT :: rstr where "INDENT = replicate 15 32"

definition DNS_LABEL :: rstr where "DNS_LABEL = lit ''DNS ---------  ''"

text \<open>A row that takes several lines is a list of them.\<close>

definition dns_line :: "dns_registration \<Rightarrow> rstr list" where
  "dns_line dns =
     (case dns of
        DnsRegistered \<Rightarrow> []
      | DnsRetrying asked \<Rightarrow>
          [DNS_LABEL @ lit ''not registered with the system resolver yet, retrying '' @ dash @
           lit '' names resolve only via '' @ asked @ lit '' meanwhile'']
      | DnsUnavailable asked remedy \<Rightarrow>
          [DNS_LABEL @ lit ''.'' @ ZONE @ lit '' names do not resolve system-wide''] @
          [INDENT @ (case remedy of Some r \<Rightarrow> r | None \<Rightarrow> lit ''the daemon log says why'')] @
          (case asked of
             Some f \<Rightarrow> [INDENT @ lit ''until then they resolve only by asking '' @ f @ lit '' directly'']
           | None \<Rightarrow> [])
      | DnsUnknown \<Rightarrow>
          [DNS_LABEL @ lit ''this daemon does not report whether .'' @ ZONE @ lit '' names resolve system-wide'',
           INDENT @ lit ''it predates the check '' @ dash @ lit '' `quix update` to find out''])"

definition STATUS_MTU :: nat where "STATUS_MTU = 1280"

definition unnamed_note :: "bool \<Rightarrow> rstr" where
  "unnamed_note named = (if named then [] else lit ''  (no hostname set)'')"

definition pad_to :: "nat \<Rightarrow> rstr \<Rightarrow> rstr" where
  "pad_to n s = s @ replicate (n - length s) 32"

definition print_peer :: "rstr \<Rightarrow> bool \<Rightarrow> peer_status \<Rightarrow> rstr list" where
  "print_peer zone_name verbose p =
     [lit ''  '' @ [if ps_linked p then 0x25CF else 0x25CB] @ lit '' '' @ ps_name p @ lit ''.'' @ zone_name @ unnamed_note (ps_named p),
      lit ''    '' @ pad_to 16 (ps_v4 p) @ lit '' '' @ ps_id p,
      lit ''    '' @ ps_v6 p] @
     (case ps_datagram_max p of
        Some m \<Rightarrow>
          if m < STATUS_MTU
          then [lit ''    datagram '' @ decimal m @ lit '' '' @ dash @ lit '' under the '' @ decimal STATUS_MTU @
            lit '' MTU, large packets drop'']
          else if verbose then [lit ''    datagram '' @ decimal m] else []
      | None \<Rightarrow> [])"

definition drops :: "stats \<Rightarrow> (rstr \<times> u64) list" where
  "drops traffic =
     [(lit ''not a member'', no_route traffic), (lit ''no link'', no_link traffic), (lit ''too big'', oversize traffic),
      (lit ''send failed'', send_err traffic), (lit ''tun write failed'', tun_tx_err traffic)]"

definition print_traffic :: "stats \<Rightarrow> rstr list" where
  "print_traffic traffic =
     (let dropped = map (\<lambda>(lbl, n). lbl @ lit '' '' @ decimal (unat n)) (filter (\<lambda>(_, n). 0 < n) (drops traffic)) in
      [[], lit ''outbound  tun read '' @ decimal (unat (tun_rx traffic)) @ lit ''  ->  sent '' @ decimal (unat (mesh_tx traffic)),
       lit ''inbound   received '' @ decimal (unat (mesh_rx traffic)) @ lit ''  ->  tun write '' @ decimal (unat (tun_tx traffic))] @
      (if dropped \<noteq> [] then [lit ''dropped   '' @ join_with (lit ''  '') dropped] else []))"

section \<open>The command\<close>

text \<open>A conflict is the name, the member that keeps it and the one refused, by their fallback names.\<close>

definition conflict_text :: "conflict \<Rightarrow> rstr" where
  "conflict_text c =
     (case c of (host, owner, other) \<Rightarrow>
        host @ lit '' belongs to '' @ owner @ lit ''; refused to rebind it to '' @ other)"

definition status_lines :: "bool \<Rightarrow> status \<Rightarrow> rstr list" where
  "status_lines verbose st =
     (let role = (if st_coordinator st then lit ''coordinator'' else lit ''member'') in
      [case st_network st of
         Some name \<Rightarrow> lit ''Network - '' @ name @ lit ''  ('' @ role @ lit '')''
       | None \<Rightarrow> lit ''Network - none. Run `quix create <name>` or `quix join <code>`'',
       lit ''Hostname ----  '' @ st_name st @ lit ''.'' @ st_zone st @ unnamed_note (st_named st),
       lit ''IPv4 --------  '' @ st_v4 st,
       lit ''IPv6 --------  '' @ st_v6 st,
       lit ''ID ----------  '' @ st_endpoint_id st] @
      dns_line (st_dns st) @
      (if st_peers st = [] then [[], lit ''No peers yet!'']
       else [[], lit ''peers  '' @ decimal (length (filter ps_linked (st_peers st))) @ lit ''/'' @
             decimal (length (st_peers st)) @ lit '' linked''] @
         concat (map (print_peer (st_zone st) verbose) (st_peers st))) @
      (if st_conflicts st = [] then []
       else [[], lit ''Name conflicts!''] @ map (\<lambda>c. lit ''  '' @ conflict_text c) (st_conflicts st)) @
      (if verbose then print_traffic (st_traffic st) else []))"

lemmas cli_status_evals [evals] = INDENT_def DNS_LABEL_def dns_line_def STATUS_MTU_def unnamed_note_def pad_to_def
  print_peer_def drops_def print_traffic_def conflict_text_def status_lines_def

section \<open>Lemmas\<close>

text \<open>Only the row about the resolver starts with its label.\<close>

definition starts_row :: "rstr \<Rightarrow> rstr \<Rightarrow> bool" where
  "starts_row lbl line \<longleftrightarrow> take (length lbl) line = lbl"

lemma dns_line_row: "(\<exists>line \<in> set (dns_line dns). starts_row DNS_LABEL line) \<longleftrightarrow> dns \<noteq> DnsRegistered"
  by (cases dns) (auto simp: dns_line_def starts_row_def)

lemma other_rows:
  "\<not> starts_row DNS_LABEL []" "\<not> starts_row DNS_LABEL (lit ''  '' @ s)" "\<not> starts_row DNS_LABEL (lit ''Hostname ----  '' @ s)"
  "\<not> starts_row DNS_LABEL (lit ''IPv4 --------  '' @ s)" "\<not> starts_row DNS_LABEL (lit ''IPv6 --------  '' @ s)"
  "\<not> starts_row DNS_LABEL (lit ''ID ----------  '' @ s)" "\<not> starts_row DNS_LABEL (lit ''Network - '' @ s)"
  "\<not> starts_row DNS_LABEL (lit ''peers  '' @ s)" "\<not> starts_row DNS_LABEL (lit ''outbound  tun read '' @ s)"
  "\<not> starts_row DNS_LABEL (lit ''inbound   received '' @ s)" "\<not> starts_row DNS_LABEL (lit ''dropped   '' @ s)"
  "\<not> starts_row DNS_LABEL (lit ''    '' @ s)" "\<not> starts_row DNS_LABEL (lit ''    datagram '' @ s)"
  "\<not> starts_row DNS_LABEL (lit ''No peers yet!'')" "\<not> starts_row DNS_LABEL (lit ''Name conflicts!'')"
  "\<not> starts_row DNS_LABEL (lit ''Network - none. Run `quix create <name>` or `quix join <code>`'')"
  by (simp_all add: starts_row_def DNS_LABEL_def lit_def)

lemma print_peer_rows: "line \<in> set (print_peer z verbose p) \<Longrightarrow> \<not> starts_row DNS_LABEL line"
  by (auto simp: print_peer_def other_rows split: option.splits if_splits)

lemma print_traffic_rows: "line \<in> set (print_traffic traffic) \<Longrightarrow> \<not> starts_row DNS_LABEL line"
  by (auto simp: print_traffic_def other_rows Let_def split: if_splits)

lemma status_dns_row:
  "(\<exists>line \<in> set (status_lines verbose st). starts_row DNS_LABEL line) \<longleftrightarrow> st_dns st \<noteq> DnsRegistered"
proof -
  have "\<not> starts_row DNS_LABEL line" if "line \<in> set (status_lines verbose st) - set (dns_line (st_dns st))" for line
    using that
    by (auto simp: status_lines_def other_rows Let_def dest: print_peer_rows print_traffic_rows split: option.splits if_splits)
  moreover have "set (dns_line (st_dns st)) \<subseteq> set (status_lines verbose st)"
    by (auto simp: status_lines_def Let_def)
  ultimately show ?thesis using dns_line_row [of "st_dns st"] by blast
qed

lemma join_with_mem: "s \<in> set ss \<Longrightarrow> \<exists>a b. join_with sep ss = a @ s @ b"
proof (induction sep ss rule: join_with.induct)
  case (3 sep x y xs)
  show ?case
  proof (cases "s = x")
    case True
    then have "join_with sep (x # y # xs) = [] @ s @ (sep @ join_with sep (y # xs))" by simp
    then show ?thesis by blast
  next
    case False
    with 3 obtain a b where "join_with sep (y # xs) = a @ s @ b" by auto
    then have "join_with sep (x # y # xs) = (x @ sep @ a) @ s @ b" by simp
    then show ?thesis by blast
  qed
qed (auto intro: exI [of _ "[]"])

section \<open>Properties\<close>

text \<open>
  \<open>status\<close> hides no trouble. Whatever node answered it, verbose or not: there is a row about
  the system resolver exactly when the zone is not registered with it; every refused rebinding
  of a name is on a line of its own; every link that carries less than a full packet is named as
  such; and with the counters asked
  for, every kind of dropped packet that was counted is on the line of drops, with its count.
\<close>

theorem status_hides_no_trouble:
  fixes verbose x ie n
  defines "st \<equiv> ipc_status x ie n" and "shown \<equiv> set (status_lines verbose (ipc_status x ie n))"
  shows "((\<exists>line \<in> shown. starts_row DNS_LABEL line) \<longleftrightarrow> n_dns n \<noteq> DnsRegistered) \<and>
    (\<forall>c \<in> set (n_conflicts n). lit ''  '' @ conflict_text c \<in> shown) \<and>
    (\<forall>p \<in> set (st_peers st). \<forall>m. ps_datagram_max p = Some m \<and> m < 1280 \<longrightarrow>
      (\<exists>rest. lit ''    datagram '' @ decimal m @ lit '' '' @ dash @ rest \<in> shown)) \<and>
    (verbose \<longrightarrow> (\<forall>(lbl, cnt) \<in> set (drops (ie_stats ie)). cnt \<noteq> 0 \<longrightarrow>
      (\<exists>a b. lit ''dropped   '' @ a @ (lbl @ lit '' '' @ decimal (unat cnt)) @ b \<in> shown)))"
proof (intro conjI impI)
  show "(\<exists>line \<in> shown. starts_row DNS_LABEL line) \<longleftrightarrow> n_dns n \<noteq> DnsRegistered"
    unfolding shown_def status_dns_row by (simp add: ipc_status_def Let_def)
  have "st_conflicts st = n_conflicts n" by (simp add: st_def ipc_status_def Let_def)
  then show "\<forall>c \<in> set (n_conflicts n). lit ''  '' @ conflict_text c \<in> shown"
    unfolding shown_def st_def [symmetric] by (auto simp: status_lines_def Let_def)
  show "\<forall>p \<in> set (st_peers st). \<forall>m. ps_datagram_max p = Some m \<and> m < 1280 \<longrightarrow>
      (\<exists>rest. lit ''    datagram '' @ decimal m @ lit '' '' @ dash @ rest \<in> shown)"
  proof (intro ballI allI impI, elim conjE)
    fix p m assume p: "p \<in> set (st_peers st)" "ps_datagram_max p = Some m" "m < 1280"
    let ?line = "lit ''    datagram '' @ decimal m @ lit '' '' @ dash @ lit '' under the '' @ decimal STATUS_MTU @
      lit '' MTU, large packets drop''"
    have "?line \<in> set (print_peer (st_zone st) verbose p)" using p(2,3) by (simp add: print_peer_def STATUS_MTU_def)
    then have "?line \<in> shown"
      using p(1) unfolding shown_def st_def [symmetric] by (auto simp: status_lines_def Let_def)
    then show "\<exists>rest. lit ''    datagram '' @ decimal m @ lit '' '' @ dash @ rest \<in> shown" by blast
  qed
  assume verbose
  show "\<forall>(lbl, cnt) \<in> set (drops (ie_stats ie)). cnt \<noteq> 0 \<longrightarrow>
      (\<exists>a b. lit ''dropped   '' @ a @ (lbl @ lit '' '' @ decimal (unat cnt)) @ b \<in> shown)"
  proof (clarify)
    fix lbl cnt assume d: "(lbl, cnt) \<in> set (drops (ie_stats ie))" "cnt \<noteq> 0"
    define dropped where "dropped = map (\<lambda>(lbl, n). lbl @ lit '' '' @ decimal (unat n)) (filter (\<lambda>(_, n). 0 < n) (drops (ie_stats ie)))"
    have "lbl @ lit '' '' @ decimal (unat cnt) \<in> set dropped"
      using d by (force simp: dropped_def word_gt_0)
    then obtain a b where "join_with (lit ''  '') dropped = a @ (lbl @ lit '' '' @ decimal (unat cnt)) @ b" "dropped \<noteq> []"
      using join_with_mem by (metis empty_iff list.set(1))
    moreover from this have "lit ''dropped   '' @ join_with (lit ''  '') dropped \<in> set (print_traffic (ie_stats ie))"
      by (simp add: print_traffic_def Let_def dropped_def [symmetric])
    moreover have "st_traffic st = ie_stats ie" by (simp add: st_def ipc_status_def Let_def)
    moreover have "set (print_traffic (st_traffic st)) \<subseteq> shown"
      unfolding shown_def st_def [symmetric] using \<open>verbose\<close> by (auto simp: status_lines_def Let_def)
    ultimately show "\<exists>a b. lit ''dropped   '' @ a @ (lbl @ lit '' '' @ decimal (unat cnt)) @ b \<in> shown" by auto
  qed
qed

definition demo_status_env :: ipc_env where
  "demo_status_env = demo_ipc\<lparr>ie_stats := no_stats\<lparr>no_link := 3\<rparr>, ie_max_datagram := \<lambda>_. Some 1200\<rparr>"

definition demo_status_node :: node where
  "demo_status_node = (new_node (demo_key 1) default_membership default_settings)
     \<lparr>n_peers := \<lparr>links = [(demo_key 3, 7)], routes = [(V4 0, demo_key 3)]\<rparr>,
      n_conflicts := [(lit ''nas'', lit ''a'', lit ''b'')]\<rparr>"

theorem status_hides_no_trouble_witness:
  "(\<exists>rest. lit ''    datagram '' @ decimal 1200 @ lit '' '' @ dash @ rest \<in>
      set (status_lines True (ipc_status plain_externs demo_status_env demo_status_node))) \<and>
   (\<exists>a b. lit ''dropped   '' @ a @ (lit ''no link'' @ lit '' '' @ decimal 3) @ b \<in>
      set (status_lines True (ipc_status plain_externs demo_status_env demo_status_node))) \<and>
   lit ''  '' @ lit ''nas belongs to a; refused to rebind it to b'' \<in>
      set (status_lines True (ipc_status plain_externs demo_status_env demo_status_node))"
proof -
  note app = status_hides_no_trouble [where verbose = True and
      x = plain_externs and ie = demo_status_env and n = demo_status_node]
  have "\<exists>p \<in> set (st_peers (ipc_status plain_externs demo_status_env demo_status_node)). ps_datagram_max p = Some 1200"
    by (simp add: ipc_status_def snapshot_def add_route_row_def new_row_def set_row_addr_def peer_status_of_def
        demo_status_env_def demo_status_node_def link_def Let_def)
  moreover have "(lit ''no link'', 3) \<in> set (drops (ie_stats demo_status_env))"
    by (simp add: drops_def demo_status_env_def)
  moreover have "conflict_text (lit ''nas'', lit ''a'', lit ''b'') = lit ''nas belongs to a; refused to rebind it to b''"
    by (simp add: conflict_text_def lit_def)
  moreover have "n_conflicts demo_status_node = [(lit ''nas'', lit ''a'', lit ''b'')]"
    by (simp add: demo_status_node_def)
  ultimately show ?thesis using app by fastforce
qed

end
