(* ===== verification/Service.thy ===== *)
theory Service
  imports Routes
begin

text \<open>
  \<open>cli/src/service_manager.rs\<close> and \<open>cli/src/commands/service.rs\<close>: the daemon as a service of
  systemd or of the Windows service manager. What a command answers may depend on every command
  run before it, so the tools are a function of that history, and each operation returns the
  history it leaves. Waiting for the daemon is a recursion over the moments it is looked for.
\<close>

section \<open>Running the tools\<close>

definition NAME :: rstr where "NAME = lit ''quixd''"

type_synonym tool_call = "rstr \<times> rstr list"

record exited = proc_output +
  status_text :: rstr

type_synonym tools = "tool_call list \<Rightarrow> tool_call \<Rightarrow> (rstr, exited) result"

definition run_quiet :: "tools \<Rightarrow> tool_call \<Rightarrow> tool_call list \<Rightarrow> bool \<times> tool_call list" where
  "run_quiet t c h = ((case t h c of Inr out \<Rightarrow> succeeded out | Inl _ \<Rightarrow> False), h @ [c])"

fun contains :: "rstr \<Rightarrow> rstr \<Rightarrow> bool" where
  "contains needle [] = (needle = [])"
| "contains needle (c # s) = (take (length needle) (c # s) = needle \<or> contains needle s)"

datatype manager_error =
    NotRun rstr
  | NeedsRoot rstr
  | ManagerSaid rstr
  | DidNotStop

text \<open>
  The lower case is Unicode's in the source, which agrees with ASCII's on everything that can
  contain the ASCII word looked for.
\<close>

definition manager_run :: "tools \<Rightarrow> tool_call \<Rightarrow> tool_call list \<Rightarrow> (manager_error, unit) result \<times> tool_call list" where
  "manager_run t c h =
     (case t h c of
        Inl e \<Rightarrow> (Inl (NotRun e), h @ [c])
      | Inr out \<Rightarrow>
          if succeeded out then (Inr (), h @ [c])
          else let message = trim (utf8_text (err_bytes out));
                   message = (if message = [] then trim (utf8_text (out_bytes out)) else message);
                   message = (if message = [] then lit ''exited with '' @ status_text out else message)
               in if contains (lit ''Access is denied'') message \<or> contains (lit ''access denied'') message \<or>
                    contains (lit ''authentication'') (ascii_lower message)
                  then (Inl (NeedsRoot message), h @ [c])
                  else (Inl (ManagerSaid message), h @ [c]))"

section \<open>The service managers\<close>

definition systemctl :: "rstr list \<Rightarrow> tool_call" where "systemctl args = (lit ''systemctl'', args)"

definition sc :: "rstr list \<Rightarrow> tool_call" where "sc args = (lit ''sc'', args)"

definition sc_says :: "tools \<Rightarrow> rstr list \<Rightarrow> rstr \<Rightarrow> tool_call list \<Rightarrow> bool \<times> tool_call list" where
  "sc_says t args needle h =
     ((case t h (sc args) of Inr out \<Rightarrow> contains needle (utf8_text (out_bytes out)) | Inl _ \<Rightarrow> False), h @ [sc args])"

definition is_installed :: "bool \<Rightarrow> tools \<Rightarrow> tool_call list \<Rightarrow> bool \<times> tool_call list" where
  "is_installed windows t h =
     run_quiet t (if windows then sc [lit ''query'', NAME] else systemctl [lit ''cat'', NAME]) h"

definition is_running :: "bool \<Rightarrow> tools \<Rightarrow> tool_call list \<Rightarrow> bool \<times> tool_call list" where
  "is_running windows t h =
     (if windows then sc_says t [lit ''query'', NAME] (lit ''RUNNING'') h
      else run_quiet t (systemctl [lit ''is-active'', lit ''--quiet'', NAME]) h)"

definition is_enabled :: "bool \<Rightarrow> tools \<Rightarrow> tool_call list \<Rightarrow> bool \<times> tool_call list" where
  "is_enabled windows t h =
     (if windows then sc_says t [lit ''qc'', NAME] (lit ''AUTO_START'') h
      else run_quiet t (systemctl [lit ''is-enabled'', lit ''--quiet'', NAME]) h)"

record service_state =
  ss_installed :: bool
  ss_running :: bool
  ss_enabled :: bool

definition service_state_of :: "bool \<Rightarrow> tools \<Rightarrow> tool_call list \<Rightarrow> service_state \<times> tool_call list" where
  "service_state_of windows t h =
     (case is_installed windows t h of
        (False, h) \<Rightarrow> (\<lparr>ss_installed = False, ss_running = False, ss_enabled = False\<rparr>, h)
      | (True, h) \<Rightarrow>
          (case is_running windows t h of
             (running, h) \<Rightarrow>
               (case is_enabled windows t h of
                  (enabled, h) \<Rightarrow> (\<lparr>ss_installed = True, ss_running = running, ss_enabled = enabled\<rparr>, h))))"

definition service_start :: "bool \<Rightarrow> tools \<Rightarrow> tool_call list \<Rightarrow> (manager_error, unit) result \<times> tool_call list" where
  "service_start windows t h =
     (if windows then manager_run t (sc [lit ''start'', NAME]) h
      else case run_quiet t (systemctl [lit ''reset-failed'', NAME]) h of
        (_, h) \<Rightarrow> manager_run t (systemctl [lit ''start'', NAME]) h)"

text \<open>On Windows \<open>sc stop\<close> only asks; the service is looked at up to forty times.\<close>

fun await_stop :: "tools \<Rightarrow> nat \<Rightarrow> tool_call list \<Rightarrow> (manager_error, unit) result \<times> tool_call list" where
  "await_stop t 0 h = (Inl DidNotStop, h)"
| "await_stop t (Suc left) h =
     (case is_running True t h of (running, h) \<Rightarrow> if \<not> running then (Inr (), h) else await_stop t left h)"

definition service_stop :: "bool \<Rightarrow> tools \<Rightarrow> tool_call list \<Rightarrow> (manager_error, unit) result \<times> tool_call list" where
  "service_stop windows t h =
     (if windows
      then (case manager_run t (sc [lit ''stop'', NAME]) h of
          (Inl e, h) \<Rightarrow> (Inl e, h)
        | (Inr _, h) \<Rightarrow> await_stop t 40 h)
      else manager_run t (systemctl [lit ''stop'', NAME]) h)"

definition service_restart :: "bool \<Rightarrow> tools \<Rightarrow> tool_call list \<Rightarrow> (manager_error, unit) result \<times> tool_call list" where
  "service_restart windows t h =
     (if windows
      then (case is_running windows t h of
          (True, h) \<Rightarrow>
            (case service_stop windows t h of
               (Inl e, h) \<Rightarrow> (Inl e, h)
             | (Inr _, h) \<Rightarrow> service_start windows t h)
        | (False, h) \<Rightarrow> service_start windows t h)
      else case run_quiet t (systemctl [lit ''reset-failed'', NAME]) h of
        (_, h) \<Rightarrow> manager_run t (systemctl [lit ''restart'', NAME]) h)"

definition service_enable :: "bool \<Rightarrow> tools \<Rightarrow> tool_call list \<Rightarrow> (manager_error, unit) result \<times> tool_call list" where
  "service_enable windows t h =
     manager_run t (if windows then sc [lit ''config'', NAME, lit ''start='', lit ''auto'']
       else systemctl [lit ''enable'', NAME]) h"

definition service_disable :: "bool \<Rightarrow> tools \<Rightarrow> tool_call list \<Rightarrow> (manager_error, unit) result \<times> tool_call list" where
  "service_disable windows t h =
     manager_run t (if windows then sc [lit ''config'', NAME, lit ''start='', lit ''demand'']
       else systemctl [lit ''disable'', NAME]) h"

section \<open>Waiting for the daemon\<close>

text \<open>The path looked for; \<open>[92, 92]\<close> is two backslashes.\<close>

definition answerable_path :: "bool \<Rightarrow> rstr \<Rightarrow> rstr" where
  "answerable_path windows name =
     (if windows \<and> take 2 name \<noteq> [92, 92]
      then [92, 92, 46, 92] @ lit ''pipe'' @ [92] @ name else name)"

definition READY_TIMEOUT :: nat where "READY_TIMEOUT = 25000"

text \<open>Milliseconds; a look finds the socket or not, and the clock is read after it.\<close>

fun wait_until_ready :: "nat \<Rightarrow> (bool \<times> nat) list \<Rightarrow> bool option" where
  "wait_until_ready deadline [] = None"
| "wait_until_ready deadline ((answerable, now) # looks) =
     (if answerable then Some True
      else if deadline \<le> now then Some False
      else wait_until_ready deadline looks)"

section \<open>The command\<close>

datatype action = Start | Stop | Restart | Enable | Disable | ServiceStatus

datatype service_error =
    ServiceNotInstalled
  | ManagerFailed manager_error
  | NotAnswerable

text \<open>A service waited for without end is \<open>None\<close>.\<close>

definition settle :: "nat \<Rightarrow> (bool \<times> nat) list \<Rightarrow> (service_error, rstr list) result option" where
  "settle now looks =
     map_option (\<lambda>ready. if ready then Inr [lit ''running''] else Inl NotAnswerable)
       (wait_until_ready (now + READY_TIMEOUT) looks)"

definition pad_label :: "rstr \<Rightarrow> rstr" where
  "pad_label s = s @ replicate (12 - length s) 32"

definition yes_no :: "bool \<Rightarrow> rstr" where
  "yes_no b = (if b then lit ''yes'' else lit ''no'')"

definition service_run ::
    "bool \<Rightarrow> tools \<Rightarrow> nat \<Rightarrow> (bool \<times> nat) list \<Rightarrow> action \<Rightarrow> tool_call list \<Rightarrow>
     (service_error, rstr list) result option \<times> tool_call list" where
  "service_run windows t now looks a h =
     (case service_state_of windows t h of (st, h) \<Rightarrow>
      if \<not> ss_installed st then (Some (Inl ServiceNotInstalled), h)
      else case a of
        ServiceStatus \<Rightarrow>
          (Some (Inr [pad_label (lit ''running'') @ [32] @ yes_no (ss_running st),
             pad_label (lit ''at boot'') @ [32] @ (if ss_enabled st then lit ''enabled'' else lit ''disabled'')]), h)
      | Start \<Rightarrow>
          if ss_running st then (Some (Inr [lit ''already running'']), h)
          else (case service_start windows t h of
              (Inl e, h) \<Rightarrow> (Some (Inl (ManagerFailed e)), h)
            | (Inr _, h) \<Rightarrow> (settle now looks, h))
      | Stop \<Rightarrow>
          if \<not> ss_running st then (Some (Inr [lit ''already stopped'']), h)
          else (case service_stop windows t h of
              (Inl e, h) \<Rightarrow> (Some (Inl (ManagerFailed e)), h)
            | (Inr _, h) \<Rightarrow> (Some (Inr [lit ''stopped'']), h))
      | Restart \<Rightarrow>
          (case service_restart windows t h of
             (Inl e, h) \<Rightarrow> (Some (Inl (ManagerFailed e)), h)
           | (Inr _, h) \<Rightarrow> (settle now looks, h))
      | Enable \<Rightarrow>
          (case service_enable windows t h of
             (Inl e, h) \<Rightarrow> (Some (Inl (ManagerFailed e)), h)
           | (Inr _, h) \<Rightarrow>
               (Some (Inr (lit ''will start at boot'' #
                  (if ss_running st then []
                   else [lit ''note: not running now '' @ [0x2014] @ lit '' `quix service start` to start it'']))), h))
      | Disable \<Rightarrow>
          (case service_disable windows t h of
             (Inl e, h) \<Rightarrow> (Some (Inl (ManagerFailed e)), h)
           | (Inr _, h) \<Rightarrow>
               (Some (Inr (lit ''will not start at boot'' #
                  (if ss_running st
                   then [lit ''note: still running '' @ [0x2014] @ lit '' `quix service stop` to stop it now'']
                   else []))), h)))"

lemmas service_evals [evals] = NAME_def run_quiet_def manager_run_def systemctl_def sc_def sc_says_def is_installed_def
  is_running_def is_enabled_def service_state_of_def service_start_def service_stop_def service_restart_def
  service_enable_def service_disable_def answerable_path_def READY_TIMEOUT_def settle_def pad_label_def yes_no_def
  service_run_def

section \<open>Lemmas\<close>

text \<open>The commands that only look, those an action may change something with, and the one that decides it.\<close>

definition queries :: "bool \<Rightarrow> tool_call set" where
  "queries windows =
     (if windows then {sc [lit ''query'', NAME], sc [lit ''qc'', NAME]}
      else {systemctl [lit ''cat'', NAME], systemctl [lit ''is-active'', lit ''--quiet'', NAME],
        systemctl [lit ''is-enabled'', lit ''--quiet'', NAME]})"

definition decisive :: "bool \<Rightarrow> action \<Rightarrow> tool_call" where
  "decisive windows a =
     (case a of
        Start \<Rightarrow> if windows then sc [lit ''start'', NAME] else systemctl [lit ''start'', NAME]
      | Stop \<Rightarrow> if windows then sc [lit ''stop'', NAME] else systemctl [lit ''stop'', NAME]
      | Restart \<Rightarrow> if windows then sc [lit ''start'', NAME] else systemctl [lit ''restart'', NAME]
      | Enable \<Rightarrow> if windows then sc [lit ''config'', NAME, lit ''start='', lit ''auto''] else systemctl [lit ''enable'', NAME]
      | Disable \<Rightarrow> if windows then sc [lit ''config'', NAME, lit ''start='', lit ''demand''] else systemctl [lit ''disable'', NAME]
      | ServiceStatus \<Rightarrow> ([], []))"

definition changes :: "bool \<Rightarrow> action \<Rightarrow> tool_call set" where
  "changes windows a =
     (if a = ServiceStatus then {}
      else {decisive windows a} \<union>
        (if windows then if a = Restart then {sc [lit ''stop'', NAME]} else {}
         else if a = Start \<or> a = Restart then {systemctl [lit ''reset-failed'', NAME]} else {}))"

definition succeeded_in :: "tools \<Rightarrow> tool_call list \<Rightarrow> tool_call \<Rightarrow> bool" where
  "succeeded_in t h c \<longleftrightarrow> (\<exists>before after out. h = before @ c # after \<and> t before c = Inr out \<and> succeeded out)"

lemma succeeded_in_later: "succeeded_in t h c \<Longrightarrow> succeeded_in t (h @ later) c"
  unfolding succeeded_in_def by (metis append.assoc append_Cons)

text \<open>The contract of an operation: what it may run, and that its success is its command's.\<close>

definition runs :: "tools \<Rightarrow> tool_call set \<Rightarrow> tool_call \<Rightarrow> tool_call list \<Rightarrow> ('e, 'a) result \<times> tool_call list \<Rightarrow> bool" where
  "runs t S c h outcome \<longleftrightarrow>
     (\<exists>ran. snd outcome = h @ ran \<and> set ran \<subseteq> S) \<and> (is_ok (fst outcome) \<longrightarrow> succeeded_in t (snd outcome) c)"

lemma quiet_ran: "snd (run_quiet t c h) = h @ [c]"
  by (simp add: run_quiet_def)

lemma looks_only:
  "\<exists>c \<in> queries windows. snd (is_installed windows t h) = h @ [c]"
  "\<exists>c \<in> queries windows. snd (is_running windows t h) = h @ [c]"
  "\<exists>c \<in> queries windows. snd (is_enabled windows t h) = h @ [c]"
  by (simp_all add: is_installed_def is_running_def is_enabled_def quiet_ran sc_says_def queries_def)

lemma manager_run_runs: "runs t {c} c h (manager_run t c h)"
proof (cases "t h c")
  case (Inr out)
  then show ?thesis by (auto simp: runs_def manager_run_def succeeded_in_def Let_def)
qed (simp add: runs_def manager_run_def)

lemma runs_after: "runs t S c (h @ done) outcome \<Longrightarrow> set done \<subseteq> S' \<Longrightarrow> S \<subseteq> S' \<Longrightarrow> runs t S' c h outcome"
proof -
  assume run: "runs t S c (h @ done) outcome" and sub: "set done \<subseteq> S'" "S \<subseteq> S'"
  then obtain cs where "snd outcome = h @ done @ cs" "set cs \<subseteq> S" by (auto simp: runs_def)
  moreover from this sub have "set (done @ cs) \<subseteq> S'" by auto
  ultimately show "runs t S' c h outcome" using run unfolding runs_def by blast
qed

lemma await_stop_ran:
  "await_stop t left h = (res, h') \<Longrightarrow>
   (\<exists>ran. h' = h @ ran \<and> set ran \<subseteq> queries True) \<and> (is_ok res \<longrightarrow> (\<exists>h0. is_running True t h0 = (False, h')))"
proof (induction left arbitrary: h)
  case (Suc left)
  obtain running h1 where r: "is_running True t h = (running, h1)" by force
  with looks_only(2) [of True t h] obtain c where c: "c \<in> queries True" "h1 = h @ [c]" by auto
  show ?case
  proof (cases running)
    case True
    with Suc r have "await_stop t left h1 = (res, h')" by simp
    from Suc.IH [OF this] c show ?thesis by (metis append.assoc append_Cons append_Nil insert_subset list.simps(15))
  next
    case False
    with Suc.prems r c show ?thesis by (intro conjI exI [of _ "[c]"]) auto
  qed
qed auto

lemma service_start_runs: "runs t (changes windows Start) (decisive windows Start) h (service_start windows t h)"
proof (cases windows)
  case True
  then show ?thesis using manager_run_runs by (simp add: service_start_def changes_def decisive_def)
next
  case False
  have "runs t {systemctl [lit ''start'', NAME]} (systemctl [lit ''start'', NAME]) (h @ [systemctl [lit ''reset-failed'', NAME]])
      (manager_run t (systemctl [lit ''start'', NAME]) (h @ [systemctl [lit ''reset-failed'', NAME]]))" by (rule manager_run_runs)
  then have "runs t (changes False Start) (systemctl [lit ''start'', NAME]) h
      (manager_run t (systemctl [lit ''start'', NAME]) (h @ [systemctl [lit ''reset-failed'', NAME]]))"
    by (rule runs_after) (simp_all add: changes_def decisive_def)
  with False show ?thesis by (simp add: service_start_def run_quiet_def decisive_def)
qed

lemma service_stop_runs:
  "runs t (queries windows \<union> changes windows Stop) (decisive windows Stop) h (service_stop windows t h)"
proof (cases windows)
  case True
  let ?c = "sc [lit ''stop'', NAME]"
  have run: "runs t {?c} ?c h (manager_run t ?c h)" by (rule manager_run_runs)
  obtain r h1 where m: "manager_run t ?c h = (r, h1)" by force
  show ?thesis
  proof (cases r)
    case (Inl e)
    with True m run show ?thesis by (auto simp: service_stop_def runs_def changes_def decisive_def)
  next
    case (Inr u)
    obtain res h' where a: "await_stop t 40 h1 = (res, h')" by force
    from await_stop_ran [OF a] obtain ran where "h' = h1 @ ran" "set ran \<subseteq> queries True" by blast
    moreover have "succeeded_in t h1 ?c" "h1 = h @ [?c]" using run m Inr by (auto simp: runs_def manager_run_def Let_def split: sum.splits if_splits)
    ultimately show ?thesis
      using True m Inr a succeeded_in_later [of t h1 ?c ran]
      by (auto simp: service_stop_def runs_def changes_def decisive_def)
  qed
next
  case False
  then show ?thesis
    using manager_run_runs [of t "systemctl [lit ''stop'', NAME]" h]
    by (auto simp: service_stop_def runs_def changes_def decisive_def)
qed

lemma service_restart_runs:
  "runs t (queries windows \<union> changes windows Restart) (decisive windows Restart) h (service_restart windows t h)"
proof (cases windows)
  case True
  obtain running h1 where r: "is_running True t h = (running, h1)" by force
  with looks_only(2) [of True t h] obtain c where c: "c \<in> queries True" "h1 = h @ [c]" by auto
  have start: "runs t (changes True Start) (decisive True Restart) h0 (service_start True t h0)" for h0
    using service_start_runs [of t True h0] by (simp add: decisive_def)
  have sub: "changes True Start \<subseteq> queries True \<union> changes True Restart" by (simp add: changes_def decisive_def)
  show ?thesis
  proof (cases running)
    case False
    with True r c sub show ?thesis by (simp add: service_restart_def runs_after [OF start])
  next
    case running: True
    have stop: "runs t (queries True \<union> changes True Stop) (decisive True Stop) h1 (service_stop True t h1)"
      by (rule service_stop_runs)
    obtain res h2 where s: "service_stop True t h1 = (res, h2)" by force
    obtain ran where ran: "h2 = h @ c # ran" "set ran \<subseteq> queries True \<union> changes True Restart"
      using stop s c by (auto simp: runs_def changes_def decisive_def)
    show ?thesis
    proof (cases res)
      case (Inl e)
      with True r running s ran c show ?thesis by (auto simp: service_restart_def runs_def)
    next
      case (Inr u)
      have "runs t (queries True \<union> changes True Restart) (decisive True Restart) h (service_start True t (h @ c # ran))"
        by (rule runs_after [OF start _ sub]) (use ran c in auto)
      with True r running s ran Inr show ?thesis by (simp add: service_restart_def)
    qed
  qed
next
  case False
  let ?r = "systemctl [lit ''reset-failed'', NAME]" and ?c = "systemctl [lit ''restart'', NAME]"
  have "runs t (queries False \<union> changes False Restart) ?c h (manager_run t ?c (h @ [?r]))"
    by (rule runs_after [OF manager_run_runs]) (simp_all add: changes_def decisive_def)
  with False show ?thesis by (simp add: service_restart_def run_quiet_def decisive_def)
qed

lemma service_enable_runs: "runs t (changes windows Enable) (decisive windows Enable) h (service_enable windows t h)"
  and service_disable_runs: "runs t (changes windows Disable) (decisive windows Disable) h (service_disable windows t h)"
  using manager_run_runs by (simp_all add: service_enable_def service_disable_def changes_def decisive_def)

lemma service_state_ran: "\<exists>ran. snd (service_state_of windows t h) = h @ ran \<and> set ran \<subseteq> queries windows"
proof -
  obtain i h1 where i: "is_installed windows t h = (i, h1)" by force
  obtain r h2 where r: "is_running windows t h1 = (r, h2)" by force
  obtain e h3 where e: "is_enabled windows t h2 = (e, h3)" by force
  show ?thesis
    using looks_only(1) [of windows t h] looks_only(2) [of windows t h1] looks_only(3) [of windows t h2] i r e
    by (cases i) (auto simp: service_state_of_def)
qed

text \<open>The looks for the socket are a quarter of a second apart or more.\<close>

fun spaced :: "nat \<Rightarrow> nat list \<Rightarrow> bool" where
  "spaced earliest [] = True"
| "spaced earliest (now # later) = (earliest \<le> now \<and> spaced (now + 250) later)"

lemma spaced_nth: "spaced t nows \<Longrightarrow> i < length nows \<Longrightarrow> t + 250 * i \<le> nows ! i"
proof (induction nows arbitrary: t i)
  case (Cons now later)
  show ?case
  proof (cases i)
    case (Suc j)
    then have "now + 250 + 250 * j \<le> later ! j" using Cons.IH [of "now + 250" j] Cons.prems by simp
    with Suc Cons.prems show ?thesis by simp
  qed (use Cons.prems in simp)
qed simp

lemma wait_until_ready_True:
  "wait_until_ready deadline looks = Some True \<longleftrightarrow>
   (\<exists>i < length looks. fst (looks ! i) \<and> (\<forall>j < i. \<not> fst (looks ! j) \<and> snd (looks ! j) < deadline))"
proof (induction deadline looks rule: wait_until_ready.induct)
  case (2 deadline answerable now looks)
  show ?case
  proof (cases answerable)
    case False
    have shift: "(\<exists>i < Suc n. P i) \<longleftrightarrow> P 0 \<or> (\<exists>i < n. P (Suc i))" for P :: "nat \<Rightarrow> bool" and n
      by (metis Suc_less_eq less_Suc_eq_0_disj)
    have below: "(\<forall>j < Suc i. P j) \<longleftrightarrow> P 0 \<and> (\<forall>j < i. P (Suc j))" for P :: "nat \<Rightarrow> bool" and i
      by (metis Suc_less_eq less_Suc_eq_0_disj)
    show ?thesis
      using False 2 by (auto simp: shift below not_le)
  qed auto
qed simp

lemma wait_until_ready_ends:
  "i < length looks \<Longrightarrow> deadline \<le> snd (looks ! i) \<Longrightarrow>
   wait_until_ready deadline looks \<noteq> None \<and> wait_until_ready deadline (take (Suc i) looks) = wait_until_ready deadline looks"
proof (induction deadline looks arbitrary: i rule: wait_until_ready.induct)
  case (2 deadline answerable now looks)
  then show ?case by (cases i) auto
qed simp

text \<open>The operation an action comes down to when there is something to do.\<close>

definition service_act :: "bool \<Rightarrow> tools \<Rightarrow> action \<Rightarrow> tool_call list \<Rightarrow> (manager_error, unit) result \<times> tool_call list" where
  "service_act windows t a h =
     (case a of
        Start \<Rightarrow> service_start windows t h
      | Stop \<Rightarrow> service_stop windows t h
      | Restart \<Rightarrow> service_restart windows t h
      | Enable \<Rightarrow> service_enable windows t h
      | Disable \<Rightarrow> service_disable windows t h
      | ServiceStatus \<Rightarrow> (Inr (), h))"

definition idle :: "service_state \<Rightarrow> action \<Rightarrow> bool" where
  "idle st a \<longleftrightarrow>
     \<not> ss_installed st \<or> a = ServiceStatus \<or> a = Start \<and> ss_running st \<or> a = Stop \<and> \<not> ss_running st"

lemma runs_more: "runs t S c h outcome \<Longrightarrow> S \<subseteq> S' \<Longrightarrow> runs t S' c h outcome"
  using runs_after [of t S c h "[]"] by simp

lemma service_act_runs:
  "a \<noteq> ServiceStatus \<Longrightarrow> runs t (queries windows \<union> changes windows a) (decisive windows a) h (service_act windows t a h)"
  by (cases a) (simp_all add: service_act_def service_stop_runs service_restart_runs
    runs_more [OF service_start_runs] runs_more [OF service_enable_runs] runs_more [OF service_disable_runs])

lemma service_run_idle:
  "service_state_of windows t h = (st, h0) \<Longrightarrow> idle st a \<Longrightarrow> snd (service_run windows t now looks a h) = h0"
  by (auto simp: service_run_def idle_def split: action.split)

lemma service_run_acts:
  assumes "service_state_of windows t h = (st, h0)" and "\<not> idle st a" and "service_act windows t a h0 = (r, h1)"
  shows "snd (service_run windows t now looks a h) = h1"
    and "r = Inl e \<Longrightarrow> fst (service_run windows t now looks a h) = Some (Inl (ManagerFailed e))"
    and "r = Inr u \<Longrightarrow> a = Start \<or> a = Restart \<Longrightarrow> fst (service_run windows t now looks a h) = settle now looks"
  using assms by (cases a; cases r; simp add: service_run_def idle_def service_act_def)+

lemma settle_running: "settle now looks = Some (Inr out) \<Longrightarrow> wait_until_ready (now + READY_TIMEOUT) looks = Some True"
  by (auto simp: settle_def split: if_splits)

section \<open>Properties\<close>

text \<open>
  C27: The service command does what it was asked and nothing else. On either platform and
  whatever the tools answer, it only looks at the service and runs the commands of its action;
  status, a start of what runs, a stop of what does not and a service that is not installed
  change nothing; every other success means that the command of the action was run and
  succeeded, and for a start or restart that the daemon's socket was found within the time.
\<close>

theorem service_does_what_was_asked:
  assumes "service_run windows t now looks a h = (res, h')" and "service_state_of windows t h = (st, h0)"
  shows "(\<exists>cmds. h' = h @ cmds \<and> set cmds \<subseteq> queries windows \<union> (if idle st a then {} else changes windows a)) \<and>
    (ss_installed st \<or> res = Some (Inl ServiceNotInstalled)) \<and>
    (\<forall>out. res = Some (Inr out) \<and> \<not> idle st a \<longrightarrow> succeeded_in t h' (decisive windows a) \<and>
      (a = Start \<or> a = Restart \<longrightarrow> wait_until_ready (now + READY_TIMEOUT) looks = Some True))"
proof -
  from service_state_ran [of windows t h] obtain cs where cs: "h0 = h @ cs" "set cs \<subseteq> queries windows"
    by (auto simp: assms(2))
  obtain r h1 where act: "service_act windows t a h0 = (r, h1)" by force
  note acts = service_run_acts [OF assms(2) _ act, where now = now and looks = looks, unfolded assms(1) fst_conv snd_conv]
  have runs: "runs t (queries windows \<union> changes windows a) (decisive windows a) h0 (r, h1)" if "\<not> idle st a"
    using service_act_runs [of a t windows h0] that act by (simp add: idle_def)
  have "\<exists>cmds. h' = h @ cmds \<and> set cmds \<subseteq> queries windows \<union> (if idle st a then {} else changes windows a)"
  proof (cases "idle st a")
    case True
    then show ?thesis using service_run_idle [OF assms(2) True, of now looks] assms(1) cs by auto
  next
    case False
    with runs obtain more where "h1 = h0 @ more" "set more \<subseteq> queries windows \<union> changes windows a" by (auto simp: runs_def)
    with False acts(1) cs show ?thesis by (intro exI [of _ "cs @ more"]) auto
  qed
  moreover have "\<not> ss_installed st \<Longrightarrow> res = Some (Inl ServiceNotInstalled)"
    using assms by (simp add: service_run_def)
  moreover have "succeeded_in t h' (decisive windows a) \<and>
      (a = Start \<or> a = Restart \<longrightarrow> wait_until_ready (now + READY_TIMEOUT) looks = Some True)"
    if res: "res = Some (Inr out)" and busy: "\<not> idle st a" for out
  proof -
    obtain u where r: "r = Inr u" using acts(2) [OF busy] res by (cases r) auto
    have "succeeded_in t h' (decisive windows a)" using runs [OF busy] acts(1) [OF busy] r by (simp add: runs_def)
    moreover have "a = Start \<or> a = Restart \<Longrightarrow> wait_until_ready (now + READY_TIMEOUT) looks = Some True"
      using acts(3) [OF busy r] res by (intro settle_running [of _ _ out]) simp
    ultimately show ?thesis by blast
  qed
  ultimately show ?thesis by blast
qed

definition demo_systemd :: tools where
  "demo_systemd h c = Inr \<lparr>succeeded = (c \<noteq> systemctl [lit ''is-active'', lit ''--quiet'', NAME]), out_bytes = [], err_bytes = [],
     status_text = []\<rparr>"

theorem service_does_what_was_asked_witness:
  "\<exists>h'. service_run False demo_systemd 0 [(False, 0), (True, 250)] Start [] = (Some (Inr [lit ''running'']), h') \<and>
     succeeded_in demo_systemd h' (systemctl [lit ''start'', NAME])"
proof -
  obtain st h0 where st: "service_state_of False demo_systemd [] = (st, h0)" "ss_installed st" "\<not> ss_running st"
    by (simp add: service_state_of_def is_installed_def is_running_def is_enabled_def run_quiet_def demo_systemd_def systemctl_def lit_def)
  then have busy: "\<not> idle st Start" by (simp add: idle_def)
  obtain h' where r: "service_run False demo_systemd 0 [(False, 0), (True, 250)] Start [] = (Some (Inr [lit ''running'']), h')"
    using st by (simp add: service_run_def service_start_def manager_run_def run_quiet_def settle_def READY_TIMEOUT_def
      demo_systemd_def systemctl_def lit_def)
  from service_does_what_was_asked [OF r st(1)] busy r show ?thesis by (simp add: decisive_def)
qed

text \<open>
  Waiting for the daemon ends. Looking for its socket every quarter of a second, the wait is
  over after at most a hundred and one looks, twenty-five seconds; it reports the daemon ready
  exactly when a look found the socket and every look before it was made in time.
\<close>

theorem waiting_for_the_daemon_ends:
  assumes "spaced now (map snd looks)" and "101 \<le> length looks"
  shows "\<exists>ready. wait_until_ready (now + READY_TIMEOUT) (take 101 looks) = Some ready \<and>
      wait_until_ready (now + READY_TIMEOUT) looks = Some ready \<and>
      (ready \<longleftrightarrow> (\<exists>i < length looks. fst (looks ! i) \<and> (\<forall>j < i. \<not> fst (looks ! j) \<and> snd (looks ! j) < now + READY_TIMEOUT)))"
proof -
  have "now + READY_TIMEOUT \<le> snd (looks ! 100)"
    using spaced_nth [OF assms(1), of 100] assms(2) by (simp add: READY_TIMEOUT_def)
  from wait_until_ready_ends [OF _ this] assms(2) obtain ready where
    "wait_until_ready (now + READY_TIMEOUT) looks = Some ready"
    "wait_until_ready (now + READY_TIMEOUT) (take 101 looks) = Some ready" by auto
  then show ?thesis using wait_until_ready_True [of "now + READY_TIMEOUT" looks] by auto
qed

theorem waiting_for_the_daemon_ends_witness:
  "wait_until_ready (0 + READY_TIMEOUT) (map (\<lambda>i. (False, 250 * i)) [0..<101]) \<noteq> None"
proof -
  have "spaced (250 * k) (map (\<lambda>i. 250 * i) [k..<k + n])" for k n
  proof (induction n arbitrary: k)
    case (Suc n)
    have "[k..<k + Suc n] = k # [Suc k..<Suc k + n]" by (simp add: upt_rec)
    then show ?case using Suc [of "Suc k"] by (simp add: add.commute)
  qed simp
  from this [of 0 101] have "spaced 0 (map snd (map (\<lambda>i. (False, 250 * i)) [0..<101]))" by (simp add: comp_def)
  from waiting_for_the_daemon_ends [OF this] show ?thesis by auto
qed

end
