(* ===== verification/Update.thy ===== *)
theory Update
  imports Ip_Text
begin

text \<open>
  \<open>cli/src/commands/update.rs\<close>: replacing an installation by the latest release. What GitHub
  answers, the files of the extracted package, the privileges of the process and the outcome of
  the programs it runs are inputs; joining paths and the SHA-256 hash are parameters. The
  downloads, the directory used for staging and the programs run are effects, in their order.
  \<open>proto/build.rs\<close> decides the version a build takes itself for.
\<close>

section \<open>The version a build reports: \<open>proto/build.rs\<close>\<close>

definition normalize_version :: "rstr \<Rightarrow> rstr option" where
  "normalize_version raw =
     (let trimmed = trim_start_matches (\<lambda>c. c = 118) (trim raw)
      in if trimmed \<noteq> [] then Some trimmed else None)"

text \<open>Whether \<open>git describe\<close> ran and succeeded, and its output if that is UTF-8.\<close>

definition version_from_git :: "(bool \<times> rstr option) option \<Rightarrow> rstr option" where
  "version_from_git described =
     (case described of Some (True, Some out) \<Rightarrow> normalize_version out | _ \<Rightarrow> None)"

definition build_version :: "rstr option \<Rightarrow> (bool \<times> rstr option) option \<Rightarrow> rstr option \<Rightarrow> rstr" where
  "build_version env_version described cargo =
     (case Option.bind env_version normalize_version of
        Some v \<Rightarrow> v
      | None \<Rightarrow>
      case version_from_git described of
        Some v \<Rightarrow> v
      | None \<Rightarrow> (case cargo of Some v \<Rightarrow> v | None \<Rightarrow> lit ''unknown''))"

section \<open>What to do\<close>

datatype plan = Report | UpToDate | Install

definition plan_of :: "rstr \<Rightarrow> rstr \<Rightarrow> bool \<Rightarrow> bool \<Rightarrow> plan" where
  "plan_of current latest check force =
     (if check then Report
      else if current = latest \<and> \<not> force then UpToDate
      else Install)"

section \<open>The release\<close>

definition str_starts :: "rstr \<Rightarrow> rstr \<Rightarrow> bool" where
  "str_starts p s \<longleftrightarrow> take (length p) s = p"

definition archive_name :: "rstr \<Rightarrow> rstr" where
  "archive_name platform =
     (if str_starts (lit ''windows'') platform then lit ''quix-'' @ platform @ lit ''.zip''
      else lit ''quix-'' @ platform @ lit ''.tar.gz'')"

definition REPO :: rstr where "REPO = lit ''quixvpn/quix''"

definition release_url :: "rstr \<Rightarrow> rstr \<Rightarrow> rstr" where
  "release_url tag asset =
     lit ''https://github.com/'' @ REPO @ lit ''/releases/download/'' @ tag @ lit ''/'' @ asset"

definition platform_of :: "rstr \<Rightarrow> rstr \<Rightarrow> rstr option" where
  "platform_of os arch =
     (if os = lit ''linux'' \<and> arch = lit ''x86_64'' then Some (lit ''linux-x86_64'')
      else if os = lit ''linux'' \<and> arch = lit ''aarch64'' then Some (lit ''linux-aarch64'')
      else if os = lit ''windows'' \<and> arch = lit ''x86_64'' then Some (lit ''windows-x86_64'')
      else None)"

definition hex_text :: "u8 list \<Rightarrow> rstr" where
  "hex_text bs = concat (map (\<lambda>b. [hex_digit (unat b div 16), hex_digit (unat b mod 16)]) bs)"

text \<open>\<open>split_whitespace().next()\<close>\<close>

definition first_word :: "rstr \<Rightarrow> rstr option" where
  "first_word s =
     (let w = takeWhile (\<lambda>c. \<not> is_whitespace c) (dropWhile is_whitespace s)
      in if w = [] then None else Some w)"

datatype update_error =
    LatestUnknown rstr
  | NotInstalled
  | NotPrivileged
  | NoPrebuilt rstr rstr
  | DownloadFailed rstr
  | MalformedChecksum
  | ChecksumMismatch rstr
  | CouldNotStage rstr
  | CouldNotExtract rstr
  | PackageLacks rstr
  | NoInstallDir
  | CouldNotStartInstaller rstr
  | InstallerFailed rstr

text \<open>
  The checksum is compared in lower case; the source's lower case is Unicode's, which agrees with
  ASCII's on everything that can equal a hexadecimal digest.
\<close>

definition verified :: "(u8 list \<Rightarrow> u8 list) \<Rightarrow> rstr \<Rightarrow> u8 list \<Rightarrow> u8 list \<Rightarrow> (update_error, u8 list) result" where
  "verified sha asset bytes sums =
     (case first_word (utf8_text sums) of
        None \<Rightarrow> Inl MalformedChecksum
      | Some word \<Rightarrow>
          if ascii_lower word \<noteq> hex_text (sha bytes) then Inl (ChecksumMismatch asset) else Inr bytes)"

section \<open>Asking GitHub\<close>

text \<open>
  An answer of a server: its status and its body, or why that did not arrive. The statuses that
  \<open>error_for_status\<close> refuses are the client and the server errors.
\<close>

record http_answer =
  ha_status :: nat
  ha_body :: "(rstr, u8 list) result"

type_synonym http = "rstr \<Rightarrow> (rstr, http_answer) result"

definition refused_status :: "nat \<Rightarrow> bool" where
  "refused_status status \<longleftrightarrow> 400 \<le> status \<and> status < 600"

definition http_get :: "http \<Rightarrow> rstr \<Rightarrow> (rstr, u8 list) result" where
  "http_get web url =
     (case web url of
        Inl e \<Rightarrow> Inl (lit ''downloading '' @ url @ lit '': '' @ e)
      | Inr answer \<Rightarrow>
          if refused_status (ha_status answer) then Inl (lit ''downloading '' @ url)
          else ha_body answer)"

text \<open>
  The tag of the newest release: \<open>tag_of\<close> is serde's reading of the body, \<open>None\<close> when it is no JSON,
  and in it the string under \<open>tag_name\<close>, if there is one.
\<close>

definition latest_url :: rstr where
  "latest_url = lit ''https://api.github.com/repos/'' @ REPO @ lit ''/releases/latest''"

definition latest_release :: "http \<Rightarrow> (u8 list \<Rightarrow> rstr option option) \<Rightarrow> (rstr, rstr) result" where
  "latest_release web tag_of =
     (case web latest_url of
        Inl e \<Rightarrow> Inl (lit ''asking GitHub for the latest release: '' @ e)
      | Inr answer \<Rightarrow>
          if refused_status (ha_status answer) then Inl (lit ''no published release found'')
          else case ha_body answer of
              Inl e \<Rightarrow> Inl e
            | Inr body \<Rightarrow>
                (case tag_of body of
                   None \<Rightarrow> Inl (lit ''error decoding response body'')
                 | Some None \<Rightarrow> Inl (lit ''release has no tag'')
                 | Some (Some tag) \<Rightarrow> Inr tag))"

section \<open>The package and the programs\<close>

type_synonym paths = "rstr \<Rightarrow> rstr \<Rightarrow> rstr"

datatype command = Command (cmd_program: rstr) (cmd_args: "rstr list") (cmd_env: "(rstr \<times> rstr) list")

definition system32 :: "paths \<Rightarrow> rstr option \<Rightarrow> rstr list \<Rightarrow> rstr" where
  "system32 join system_root parts =
     foldl join (join (case system_root of Some r \<Rightarrow> r | None \<Rightarrow> lit ''C:'' @ [92] @ lit ''Windows'') (lit ''System32'')) parts"

definition extract_command :: "paths \<Rightarrow> rstr option \<Rightarrow> rstr \<Rightarrow> rstr \<Rightarrow> bool \<Rightarrow> command" where
  "extract_command join system_root archive into windows =
     (if windows then Command (system32 join system_root [lit ''tar.exe'']) [lit ''-xf'', archive, lit ''-C'', into] []
      else Command (lit ''tar'') [lit ''-xzf'', archive, lit ''-C'', into] [])"

definition required_files :: "bool \<Rightarrow> rstr list" where
  "required_files windows =
     (if windows then [lit ''quix.exe'', lit ''quixd.exe'', lit ''install.ps1'']
      else [lit ''quix'', lit ''quixd'', lit ''quixd.service'', lit ''install.sh''])"

definition check_package :: "(rstr \<Rightarrow> bool) \<Rightarrow> bool \<Rightarrow> (update_error, unit) result" where
  "check_package is_file windows =
     (case List.find (\<lambda>f. \<not> is_file f) (required_files windows) of
        Some f \<Rightarrow> Inl (PackageLacks f) | None \<Rightarrow> Inr ())"

definition installer_command :: "paths \<Rightarrow> rstr option \<Rightarrow> rstr \<Rightarrow> rstr \<Rightarrow> bool \<Rightarrow> command" where
  "installer_command join system_root package install_dir windows =
     (if windows
      then Command (system32 join system_root [lit ''WindowsPowerShell'', lit ''v1.0'', lit ''powershell.exe''])
        [lit ''-NoProfile'', lit ''-ExecutionPolicy'', lit ''Bypass'', lit ''-File'', join package (lit ''install.ps1''),
         lit ''-From'', package, lit ''-InstallDir'', install_dir, lit ''-KeepOperator''] []
      else Command (lit ''bash'') [join package (lit ''install.sh''), lit ''--from'', package, lit ''--keep-operator'']
        [(lit ''INSTALL_DIR'', install_dir)])"

text \<open>The staging directory: what is there goes first, whatever comes of that; one per process.\<close>

definition stage_path :: "paths \<Rightarrow> rstr \<Rightarrow> nat \<Rightarrow> rstr" where
  "stage_path join temp_dir pid = join temp_dir (lit ''quix-update-'' @ decimal pid)"

definition stage_new :: "paths \<Rightarrow> rstr \<Rightarrow> nat \<Rightarrow> rstr option \<Rightarrow> (rstr, rstr) result" where
  "stage_new join temp_dir pid create_error =
     (let path = stage_path join temp_dir pid in
      case create_error of Some e \<Rightarrow> Inl (lit ''creating '' @ path @ lit '': '' @ e) | None \<Rightarrow> Inr path)"

text \<open>A helper tool: what running it gives, its status in words, and its standard error.\<close>

definition run_quietly :: "rstr \<Rightarrow> (rstr, bool \<times> rstr \<times> u8 list) result \<Rightarrow> rstr option" where
  "run_quietly program output =
     (case output of
        Inl e \<Rightarrow> Some (lit ''running '' @ program @ lit '': '' @ e)
      | Inr (success, status, err_output) \<Rightarrow>
          if success then None
          else Some (program @ lit '' failed ('' @ status @ lit ''): '' @ trim (utf8_text err_output)))"

text \<open>The directory of the running executable, whose path has a parent or not.\<close>

definition install_dir_of :: "(rstr \<Rightarrow> rstr option) \<Rightarrow> (rstr, rstr) result \<Rightarrow> rstr option" where
  "install_dir_of parent exe = (case exe of Inl _ \<Rightarrow> None | Inr path \<Rightarrow> parent path)"

section \<open>The command\<close>

record update_env =
  ue_windows :: bool
  ue_os :: rstr
  ue_arch :: rstr
  ue_current :: rstr
  ue_tag :: "(rstr, rstr) result"
  ue_installed :: bool
  ue_privileged :: bool
  ue_get :: "rstr \<Rightarrow> (rstr, u8 list) result"
  ue_stage :: "(rstr, rstr) result"
  ue_saved :: "rstr option"
  ue_extracted :: "rstr option"
  ue_is_file :: "rstr \<Rightarrow> bool"
  ue_install_dir :: "rstr option"
  ue_installer :: "(rstr, rstr option) result"
  ue_join :: paths
  ue_system_root :: "rstr option"

datatype update_effect =
    Fetched rstr
  | StagedAt rstr
  | SavedArchive rstr "u8 list"
  | Ran command
  | Unstaged rstr

datatype update_outcome = Reported | AlreadyLatest | Updated

text \<open>\<open>download_verified\<close>: the archive, then its checksum.\<close>

definition download_verified ::
    "(u8 list \<Rightarrow> u8 list) \<Rightarrow> update_env \<Rightarrow> rstr \<Rightarrow> rstr \<Rightarrow> (update_error, u8 list) result \<times> update_effect list" where
  "download_verified sha ue tag asset =
     (let url = release_url tag asset; sums_url = release_url tag (asset @ lit ''.sha256'') in
      case ue_get ue url of
        Inl e \<Rightarrow> (Inl (DownloadFailed e), [Fetched url])
      | Inr bytes \<Rightarrow>
          (case ue_get ue sums_url of
             Inl e \<Rightarrow> (Inl (DownloadFailed e), [Fetched url, Fetched sums_url])
           | Inr sums \<Rightarrow> (verified sha asset bytes sums, [Fetched url, Fetched sums_url])))"

text \<open>What happens in the staging directory, which is removed however it ends.\<close>

definition install_staged ::
    "update_env \<Rightarrow> rstr \<Rightarrow> rstr \<Rightarrow> u8 list \<Rightarrow> rstr \<Rightarrow> (update_error, update_outcome) result \<times> update_effect list" where
  "install_staged ue platform archive bytes stage =
     (let join = ue_join ue; archive_path = join stage archive in
      case ue_saved ue of
        Some e \<Rightarrow> (Inl (CouldNotStage e), [])
      | None \<Rightarrow>
      let extract = extract_command join (ue_system_root ue) archive_path stage (ue_windows ue);
          fx = [SavedArchive archive_path bytes, Ran extract] in
      case ue_extracted ue of
        Some e \<Rightarrow> (Inl (CouldNotExtract e), fx)
      | None \<Rightarrow>
      let package = join stage (lit ''quix-'' @ platform) in
      case check_package (\<lambda>f. ue_is_file ue (join package f)) (ue_windows ue) of
        Inl e \<Rightarrow> (Inl e, fx)
      | Inr _ \<Rightarrow>
      case ue_install_dir ue of
        None \<Rightarrow> (Inl NoInstallDir, fx)
      | Some dir \<Rightarrow>
          let fx = fx @ [Ran (installer_command join (ue_system_root ue) package dir (ue_windows ue))] in
          (case ue_installer ue of
             Inl e \<Rightarrow> (Inl (CouldNotStartInstaller e), fx)
           | Inr (Some code) \<Rightarrow> (Inl (InstallerFailed code), fx)
           | Inr None \<Rightarrow> (Inr Updated, fx)))"

definition update_run ::
    "(u8 list \<Rightarrow> u8 list) \<Rightarrow> bool \<Rightarrow> bool \<Rightarrow> update_env \<Rightarrow> (update_error, update_outcome) result \<times> update_effect list" where
  "update_run sha check force ue =
     (case ue_tag ue of
        Inl e \<Rightarrow> (Inl (LatestUnknown e), [])
      | Inr tag \<Rightarrow>
      case plan_of (ue_current ue) (trim_start_matches (\<lambda>c. c = 118) tag) check force of
        Report \<Rightarrow> (Inr Reported, [])
      | UpToDate \<Rightarrow> (Inr AlreadyLatest, [])
      | Install \<Rightarrow>
      if \<not> ue_installed ue then (Inl NotInstalled, [])
      else if \<not> ue_privileged ue then (Inl NotPrivileged, [])
      else case platform_of (ue_os ue) (ue_arch ue) of
        None \<Rightarrow> (Inl (NoPrebuilt (ue_os ue) (ue_arch ue)), [])
      | Some platform \<Rightarrow>
      case download_verified sha ue tag (archive_name platform) of
        (Inl e, fx) \<Rightarrow> (Inl e, fx)
      | (Inr bytes, fx) \<Rightarrow>
      case ue_stage ue of
        Inl e \<Rightarrow> (Inl (CouldNotStage e), fx)
      | Inr stage \<Rightarrow>
          (case install_staged ue platform (archive_name platform) bytes stage of
             (res, sfx) \<Rightarrow> (res, fx @ StagedAt stage # sfx @ [Unstaged stage])))"

lemmas update_evals [evals] = refused_status_def http_get_def latest_url_def latest_release_def stage_path_def stage_new_def
  run_quietly_def install_dir_of_def normalize_version_def version_from_git_def build_version_def plan_of_def str_starts_def archive_name_def REPO_def release_url_def platform_of_def
  first_word_def verified_def system32_def extract_command_def required_files_def check_package_def
  installer_command_def download_verified_def install_staged_def update_run_def

section \<open>Lemmas\<close>

text \<open>A release built from its tag, or a tree that sits on it, is up to date with that release.\<close>

lemma release_is_up_to_date:
  assumes "trim_start_matches (\<lambda>c. c = 118) (trim tag) \<noteq> []" and "trim tag = tag"
  shows "plan_of (build_version (Some tag) described cargo) (trim_start_matches (\<lambda>c. c = 118) tag) False False = UpToDate"
    and "plan_of (build_version None (Some (True, Some tag)) cargo) (trim_start_matches (\<lambda>c. c = 118) tag) False False = UpToDate"
  using assms by (simp_all add: plan_of_def build_version_def version_from_git_def normalize_version_def Let_def)

text \<open>
  A machine's surroundings of the command, built from what the network, the tools and the file
  system answer: nothing a server refused is taken for a download or a tag.
\<close>

definition surrounded :: "http \<Rightarrow> (u8 list \<Rightarrow> rstr option option) \<Rightarrow> update_env \<Rightarrow> update_env" where
  "surrounded web tag_of ue = ue\<lparr>ue_tag := latest_release web tag_of, ue_get := http_get web\<rparr>"

lemma surrounded_downloads:
  "ue_get (surrounded web tag_of ue) url = Inr bytes \<longleftrightarrow>
     (\<exists>answer. web url = Inr answer \<and> \<not> refused_status (ha_status answer) \<and> ha_body answer = Inr bytes)"
  "ue_tag (surrounded web tag_of ue) = Inr tag \<longleftrightarrow>
     (\<exists>answer body. web latest_url = Inr answer \<and> \<not> refused_status (ha_status answer) \<and> ha_body answer = Inr body \<and>
        tag_of body = Some (Some tag))"
  by (auto simp: surrounded_def http_get_def latest_release_def split: sum.splits option.splits)

text \<open>A helper tool counts as run only when it was started and succeeded.\<close>

lemma run_quietly_ok: "run_quietly program output = None \<longleftrightarrow> (\<exists>status err. output = Inr (True, status, err))"
  by (auto simp: run_quietly_def split: sum.splits)

lemma check_package_ok:
  "check_package is_file windows = Inr () \<longleftrightarrow> list_all is_file (required_files windows)"
  by (auto simp: check_package_def list_all_iff find_None_iff' split: option.splits dest: find_Some_mem)

lemma install_staged_effects:
  fixes ue platform archive stage
  defines "package \<equiv> ue_join ue stage (lit ''quix-'' @ platform)" and "archive_path \<equiv> ue_join ue stage archive"
  defines "extract \<equiv> extract_command (ue_join ue) (ue_system_root ue) archive_path stage (ue_windows ue)"
  assumes "install_staged ue platform archive bytes stage = (res, run)"
  shows "run = [] \<and> \<not> is_ok res \<or>
     run = [SavedArchive archive_path bytes, Ran extract] \<and> \<not> is_ok res \<or>
     (\<exists>dir. list_all (\<lambda>f. ue_is_file ue (ue_join ue package f)) (required_files (ue_windows ue)) \<and>
        ue_install_dir ue = Some dir \<and>
        run = [SavedArchive archive_path bytes, Ran extract,
          Ran (installer_command (ue_join ue) (ue_system_root ue) package dir (ue_windows ue))] \<and>
        (is_ok res \<longleftrightarrow> ue_installer ue = Inr None))"
  using assms(4)
  by (auto simp: install_staged_def package_def archive_path_def extract_def Let_def check_package_ok
      split: option.splits sum.splits)

lemma download_verified_effects:
  assumes "download_verified sha ue tag asset = (res, fx)"
  defines "url \<equiv> release_url tag asset" and "sums_url \<equiv> release_url tag (asset @ lit ''.sha256'')"
  shows "(fx = [Fetched url] \<or> fx = [Fetched url, Fetched sums_url])"
    and "res = Inr bytes \<Longrightarrow> fx = [Fetched url, Fetched sums_url] \<and> ue_get ue url = Inr bytes \<and>
      (\<exists>sums word. ue_get ue sums_url = Inr sums \<and> first_word (utf8_text sums) = Some word \<and>
         ascii_lower word = hex_text (sha bytes))"
  using assms
  by (auto simp: download_verified_def verified_def Let_def split: sum.splits option.splits if_splits)

section \<open>Properties\<close>

text \<open>
  C36: Nothing unverified is ever run. Whatever GitHub and the machine answer, the update downloads
  only when it was not a check, there is a difference or it was forced, the service is installed
  and the process privileged; it stages and runs something only with the archive whose digest is
  the one published beside it; the last program run is the release's own installer, only when the
  package holds every file it needs; and what was staged is removed again, last.
\<close>

theorem only_verified_releases_run:
  "let (res, fx) = update_run sha check force ue in
     fx = [] \<or>
     (\<exists>tag platform. ue_tag ue = Inr tag \<and> platform_of (ue_os ue) (ue_arch ue) = Some platform \<and>
        \<not> check \<and> (force \<or> ue_current ue \<noteq> trim_start_matches (\<lambda>c. c = 118) tag) \<and> ue_installed ue \<and> ue_privileged ue \<and>
        (let asset = archive_name platform; url = release_url tag asset; sums_url = release_url tag (asset @ lit ''.sha256'') in
           fx = [Fetched url] \<and> \<not> is_ok res \<or>
           fx = [Fetched url, Fetched sums_url] \<and> \<not> is_ok res \<or>
           (\<exists>bytes sums word stage run. ue_get ue url = Inr bytes \<and> ue_get ue sums_url = Inr sums \<and>
              first_word (utf8_text sums) = Some word \<and> ascii_lower word = hex_text (sha bytes) \<and>
              fx = [Fetched url, Fetched sums_url, StagedAt stage] @ run @ [Unstaged stage] \<and>
              (let package = ue_join ue stage (lit ''quix-'' @ platform); archive_path = ue_join ue stage asset;
                   extract = extract_command (ue_join ue) (ue_system_root ue) archive_path stage (ue_windows ue) in
                 run = [] \<and> \<not> is_ok res \<or>
                 run = [SavedArchive archive_path bytes, Ran extract] \<and> \<not> is_ok res \<or>
                 (\<exists>dir. list_all (\<lambda>f. ue_is_file ue (ue_join ue package f)) (required_files (ue_windows ue)) \<and>
                    ue_install_dir ue = Some dir \<and>
                    run = [SavedArchive archive_path bytes, Ran extract,
                      Ran (installer_command (ue_join ue) (ue_system_root ue) package dir (ue_windows ue))] \<and>
                    (is_ok res \<longleftrightarrow> ue_installer ue = Inr None))))))"
proof -
  obtain res fx where run: "update_run sha check force ue = (res, fx)" by force
  show ?thesis
  proof (cases "fx = []")
    case False
    then obtain tag platform where t: "ue_tag ue = Inr tag" "platform_of (ue_os ue) (ue_arch ue) = Some platform"
      "plan_of (ue_current ue) (trim_start_matches (\<lambda>c. c = 118) tag) check force = Install" "ue_installed ue" "ue_privileged ue"
      using run by (auto simp: update_run_def split: sum.splits plan.splits if_splits option.splits)
    have pl: "\<not> check \<and> (force \<or> ue_current ue \<noteq> trim_start_matches (\<lambda>c. c = 118) tag)"
      using t(3) by (auto simp: plan_of_def split: if_splits)
    obtain dres dfx where d: "download_verified sha ue tag (archive_name platform) = (dres, dfx)" by force
    note de = download_verified_effects [OF d]
    show ?thesis
    proof (cases dres)
      case (Inl e)
      then have "res = Inl e" "fx = dfx" using run t d by (simp_all add: update_run_def)
      then show ?thesis unfolding run Let_def prod.case using t pl de(1) by auto
    next
      case (Inr bytes)
      note dd = de(2) [OF Inr]
      show ?thesis
      proof (cases "ue_stage ue")
        case (Inl e)
        then have "res = Inl (CouldNotStage e)" "fx = dfx" using run t d Inr by (simp_all add: update_run_def)
        then show ?thesis unfolding run Let_def prod.case using t pl dd by auto
      next
        case s: (Inr stage)
        obtain sres sfx where i: "install_staged ue platform (archive_name platform) bytes stage = (sres, sfx)" by force
        have r: "res = sres" "fx = dfx @ StagedAt stage # sfx @ [Unstaged stage]"
          using run t d Inr s i by (simp_all add: update_run_def)
        from dd obtain sums word where w: "dfx = [Fetched (release_url tag (archive_name platform)),
            Fetched (release_url tag (archive_name platform @ lit ''.sha256''))]"
          "ue_get ue (release_url tag (archive_name platform)) = Inr bytes"
          "ue_get ue (release_url tag (archive_name platform @ lit ''.sha256'')) = Inr sums"
          "first_word (utf8_text sums) = Some word" "ascii_lower word = hex_text (sha bytes)" by blast
        have "fx = [Fetched (release_url tag (archive_name platform)),
            Fetched (release_url tag (archive_name platform @ lit ''.sha256'')), StagedAt stage] @ sfx @ [Unstaged stage]"
          using r w(1) by simp
        with w(2-5) install_staged_effects [OF i] r(1) t pl show ?thesis
          unfolding run Let_def prod.case by blast
      qed
    qed
  qed (simp add: run)
qed

section \<open>Witness\<close>

text \<open>A digest of one byte, and a release whose checksum file names it in upper case.\<close>

definition demo_sha :: "u8 list \<Rightarrow> u8 list" where
  "demo_sha bs = [171]"

definition demo_update :: update_env where
  "demo_update = \<lparr>ue_windows = False, ue_os = lit ''linux'', ue_arch = lit ''x86_64'', ue_current = lit ''1.0'',
     ue_tag = Inr (lit ''v1.1''), ue_installed = True, ue_privileged = True,
     ue_get = \<lambda>url. Inr (if url = release_url (lit ''v1.1'') (lit ''quix-linux-x86_64.tar.gz.sha256'')
       then utf8_bytes (lit ''AB  quix-linux-x86_64.tar.gz'') else [1, 2]),
     ue_stage = Inr (lit ''/tmp/s''), ue_saved = None, ue_extracted = None, ue_is_file = \<lambda>_. True,
     ue_install_dir = Some (lit ''/opt''), ue_installer = Inr None, ue_join = \<lambda>a b. a @ lit ''/'' @ b,
     ue_system_root = None\<rparr>"

theorem only_verified_releases_run_witness:
  "\<exists>before stage. update_run demo_sha False False demo_update = (Inr Updated, before @ [Unstaged stage]) \<and>
     ascii_lower (lit ''AB'') = hex_text (demo_sha [1, 2])"
proof -
  have sums: "utf8_text (utf8_bytes (lit ''AB  quix-linux-x86_64.tar.gz'')) = lit ''AB  quix-linux-x86_64.tar.gz''"
    by (rule utf8_text_bytes) (simp add: lit_def scalar_def)
  have word: "first_word (lit ''AB  quix-linux-x86_64.tar.gz'') = Some (lit ''AB'')"
    by (simp add: first_word_def lit_def is_whitespace_def Let_def)
  have hex: "ascii_lower (lit ''AB'') = hex_text (demo_sha [1, 2])"
    by (simp add: hex_text_def demo_sha_def hex_digit_def evals)
  have "release_url (lit ''v1.1'') (lit ''quix-linux-x86_64.tar.gz'') \<noteq>
      release_url (lit ''v1.1'') (lit ''quix-linux-x86_64.tar.gz.sha256'')"
    by (simp add: release_url_def) (simp add: lit_def)
  moreover have names: "platform_of (lit ''linux'') (lit ''x86_64'') = Some (lit ''linux-x86_64'')"
    "archive_name (lit ''linux-x86_64'') = lit ''quix-linux-x86_64.tar.gz''"
    "lit ''quix-linux-x86_64.tar.gz'' @ lit ''.sha256'' = lit ''quix-linux-x86_64.tar.gz.sha256''"
    by (simp_all add: platform_of_def archive_name_def str_starts_def) (simp_all add: lit_def)
  moreover have "plan_of (lit ''1.0'') (trim_start_matches (\<lambda>c. c = 118) (lit ''v1.1'')) False False = Install"
    by (simp add: plan_of_def trim_start_matches_def lit_def)
  ultimately have res: "fst (update_run demo_sha False False demo_update) = Inr Updated"
    "snd (update_run demo_sha False False demo_update) \<noteq> []"
    by (simp_all add: update_run_def demo_update_def download_verified_def verified_def sums word hex install_staged_def
        check_package_def required_files_def Let_def)
  obtain fx where run: "update_run demo_sha False False demo_update = (Inr Updated, fx)" "fx \<noteq> []"
    using res by (cases "update_run demo_sha False False demo_update") simp
  have "\<exists>before stage. fx = before @ [Unstaged stage]"
    using only_verified_releases_run [of demo_sha False False demo_update] run(2)
    unfolding run(1) Let_def prod.case by (auto simp del: append_assoc simp flip: append_assoc)
  with run(1) hex show ?thesis by blast
qed

end
