(* ===== verification/Elevation.thy ===== *)
theory Elevation
  imports Wide
begin

text \<open>
  \<open>cli/src/elevate.rs\<close>: running the same command again as Administrator. Windows takes one string
  for all arguments, so they are quoted the way \<open>CommandLineToArgvW\<close> takes them apart;
  \<open>split_line\<close> is the splitter the source checks its quoting against. What the Windows calls answer
  is an input, and what happens to the output file is a trace.
\<close>

section \<open>Quoting\<close>

definition needs_quotes :: "rchar \<Rightarrow> bool" where
  "needs_quotes c \<longleftrightarrow> c = 32 \<or> c = 9 \<or> c = 34 \<or> c = 92"

text \<open>The loop over the characters; \<open>n\<close> counts the backslashes right before.\<close>

fun quote_chars :: "nat \<Rightarrow> rstr \<Rightarrow> rstr" where
  "quote_chars n [] = replicate n 92"
| "quote_chars n (c # cs) =
     (if c = 92 then c # quote_chars (Suc n) cs
      else if c = 34 then replicate (n + 1) 92 @ [34] @ quote_chars 0 cs
      else c # quote_chars 0 cs)"

definition quote :: "rstr \<Rightarrow> rstr" where
  "quote arg =
     (if arg \<noteq> [] \<and> \<not> list_ex needs_quotes arg then arg
      else [34] @ quote_chars 0 arg @ [34])"

fun join_args :: "rstr list \<Rightarrow> rstr" where
  "join_args [] = []"
| "join_args [arg] = quote arg"
| "join_args (arg # args) = quote arg @ [32] @ join_args args"

section \<open>Splitting\<close>

text \<open>The state is whether a quote is open, whether an argument was started by one, and its text so far.\<close>

function split_line :: "bool \<Rightarrow> bool \<Rightarrow> rstr \<Rightarrow> rstr \<Rightarrow> rstr list" where
  "split_line in_quotes started current [] = (if started \<or> current \<noteq> [] then [current] else [])"
| "split_line in_quotes started current (c # cs) =
     (if c = 92 then
        let slashes = Suc (length (takeWhile (\<lambda>d. d = 92) cs)); rest = dropWhile (\<lambda>d. d = 92) cs in
        case rest of
          [] \<Rightarrow> split_line in_quotes started (current @ replicate slashes 92) []
        | d # ds \<Rightarrow>
            if d \<noteq> 34 then split_line in_quotes started (current @ replicate slashes 92) (d # ds)
            else if odd slashes
            then split_line in_quotes started (current @ replicate (slashes div 2) 92 @ [34]) ds
            else split_line in_quotes started (current @ replicate (slashes div 2) 92) (d # ds)
      else if c = 34 then split_line (\<not> in_quotes) True current cs
      else if (c = 32 \<or> c = 9) \<and> \<not> in_quotes then
        (if started \<or> current \<noteq> [] then current # split_line in_quotes False [] cs
         else split_line in_quotes started current cs)
      else split_line in_quotes started (current @ [c]) cs)"
  by pat_completeness auto

lemma dropWhile_shorter: "d # ds = dropWhile p cs \<Longrightarrow> length ds < length cs"
  using length_dropWhile_le [of p cs] by (metis Suc_le_lessD length_Cons)

termination split_line
  by (relation "measure (\<lambda>(_, _, _, cs). length cs)")
    (auto simp: less_Suc_eq_le length_dropWhile_le dest!: dropWhile_shorter)

definition split_args :: "rstr \<Rightarrow> rstr list" where
  "split_args line = split_line False False [] line"

section \<open>Running as Administrator\<close>

definition OUTPUT_FLAG :: rstr where "OUTPUT_FLAG = lit ''--elevated-output''"

text \<open>What the token of the process says: nothing when it cannot be opened or read.\<close>

definition is_elevated :: "u32 option option \<Rightarrow> bool" where
  "is_elevated token =
     (case token of Some (Some token_is_elevated) \<Rightarrow> token_is_elevated \<noteq> 0 | _ \<Rightarrow> False)"

text \<open>
  \<open>ShellExecuteExW\<close> fails with an error code and its text, or starts a process whose exit code can be
  read or not.
\<close>

datatype shell_answer = ShellFailed u32 rstr | Started "u32 option"

definition ERROR_CANCELLED :: u32 where "ERROR_CANCELLED = 1223"

datatype elevate_error =
    ExeUnknown rstr
  | Declined
  | CouldNotAsk rstr
  | ResultUnreadable

definition wait_for :: "u32 option \<Rightarrow> (elevate_error, int) result" where
  "wait_for code = (case code of None \<Rightarrow> Inl ResultUnreadable | Some c \<Rightarrow> Inr (sint c))"

text \<open>
  The verb, the executable, the parameters and the working directory, which is empty when it cannot
  be told, are handed over as wide strings.
\<close>

record shell_call =
  sc_verb :: "u16 list"
  sc_file :: "u16 list"
  sc_params :: "u16 list"
  sc_dir :: "u16 list"

definition runas_call :: "rstr option \<Rightarrow> rstr \<Rightarrow> rstr \<Rightarrow> shell_call" where
  "runas_call cwd exe params =
     \<lparr>sc_verb = wide (lit ''runas''), sc_file = wide exe, sc_params = wide params,
      sc_dir = wide (case cwd of Some dir \<Rightarrow> dir | None \<Rightarrow> [])\<rparr>"

definition shell_execute_runas ::
    "(shell_call \<Rightarrow> shell_answer) \<Rightarrow> rstr option \<Rightarrow> rstr \<Rightarrow> rstr \<Rightarrow> (elevate_error, int) result" where
  "shell_execute_runas shell cwd exe params =
     (case shell (runas_call cwd exe params) of
        ShellFailed code err \<Rightarrow> if code = ERROR_CANCELLED then Inl Declined else Inl (CouldNotAsk err)
      | Started code \<Rightarrow> wait_for code)"

definition output_path :: "(rstr \<Rightarrow> rstr \<Rightarrow> rstr) \<Rightarrow> rstr \<Rightarrow> nat \<Rightarrow> rstr" where
  "output_path join temp_dir pid = join temp_dir (lit ''quix-elevated-'' @ decimal pid @ lit ''.out'')"

text \<open>
  What a relaunch does: the text shown is what the output file holds, if it can be read, and the
  file is removed however the child ended. The last component is the exit code.
\<close>

datatype relaunch_effect = Called shell_call | Printed rstr | RemovedFile rstr | PrintedError elevate_error

definition run_elevated ::
    "(rstr, rstr) result \<Rightarrow> rstr \<Rightarrow> rstr list \<Rightarrow> rstr option \<Rightarrow> (shell_call \<Rightarrow> shell_answer) \<Rightarrow> rstr option \<Rightarrow>
     (elevate_error, int) result \<times> relaunch_effect list" where
  "run_elevated exe output args cwd shell shown =
     (case exe of
        Inl e \<Rightarrow> (Inl (ExeUnknown e), [])
      | Inr exe \<Rightarrow>
          let params = join_args (OUTPUT_FLAG # output # args) in
          (shell_execute_runas shell cwd exe params,
           [Called (runas_call cwd exe params)] @
           (case shown of Some text \<Rightarrow> [Printed text] | None \<Rightarrow> []) @ [RemovedFile output]))"

definition relaunch ::
    "(rstr, rstr) result \<Rightarrow> rstr \<Rightarrow> rstr list \<Rightarrow> rstr option \<Rightarrow> (shell_call \<Rightarrow> shell_answer) \<Rightarrow> rstr option \<Rightarrow>
     int \<times> relaunch_effect list" where
  "relaunch exe output args cwd shell shown =
     (case run_elevated exe output args cwd shell shown of
        (Inr code, fx) \<Rightarrow> (code, fx)
      | (Inl e, fx) \<Rightarrow> (1, fx @ [PrintedError e]))"

text \<open>In the child: both streams go to the file, in the order output, error.\<close>

datatype std_stream = StdOut | StdErr

datatype redirect_error = OutputNotOpened rstr | NotRedirected rstr

fun set_streams :: "(std_stream \<Rightarrow> rstr option) \<Rightarrow> std_stream list \<Rightarrow> (redirect_error, unit) result \<times> std_stream list" where
  "set_streams fails [] = (Inr (), [])"
| "set_streams fails (s # ss) =
     (case fails s of
        Some e \<Rightarrow> (Inl (NotRedirected e), [])
      | None \<Rightarrow> (case set_streams fails ss of (res, done) \<Rightarrow> (res, s # done)))"

definition redirect_output ::
    "rstr option \<Rightarrow> (std_stream \<Rightarrow> rstr option) \<Rightarrow> (redirect_error, unit) result \<times> std_stream list" where
  "redirect_output open_error fails =
     (case open_error of
        Some e \<Rightarrow> (Inl (OutputNotOpened e), [])
      | None \<Rightarrow> set_streams fails [StdOut, StdErr])"

lemmas elevation_evals [evals] = needs_quotes_def quote_def split_args_def OUTPUT_FLAG_def is_elevated_def
  ERROR_CANCELLED_def wait_for_def runas_call_def shell_execute_runas_def output_path_def run_elevated_def relaunch_def
  redirect_output_def

section \<open>Lemmas\<close>

text \<open>A run of backslashes in the splitter, by what follows it.\<close>

lemma backslashes_before:
  assumes "d \<noteq> 92"
  shows "takeWhile (\<lambda>c. c = 92) (replicate j 92 @ d # ds) = replicate j 92"
    and "dropWhile (\<lambda>c. c = 92) (replicate j 92 @ d # ds) = d # ds"
  using assms by (induction j) simp_all

lemma split_even: "split_line q s cur (replicate (2 * k) 92 @ 34 # rest) = split_line q s (cur @ replicate k 92) (34 # rest)"
proof (cases k)
  case (Suc j)
  have "split_line q s cur (92 # replicate (Suc (2 * j)) 92 @ 34 # rest) =
      split_line q s (cur @ replicate (Suc j) 92) (34 # rest)"
    by (subst split_line.simps(2)) (simp add: Let_def backslashes_before del: split_line.simps replicate_Suc)
  then show ?thesis by (simp add: Suc del: split_line.simps)
qed simp

lemma split_odd: "split_line q s cur (replicate (Suc (2 * k)) 92 @ 34 # rest) = split_line q s (cur @ replicate k 92 @ [34]) rest"
proof -
  have "split_line q s cur (92 # replicate (2 * k) 92 @ 34 # rest) = split_line q s (cur @ replicate k 92 @ [34]) rest"
    by (subst split_line.simps(2)) (simp add: Let_def backslashes_before del: split_line.simps)
  then show ?thesis by (simp del: split_line.simps)
qed

lemma split_run:
  assumes "c \<noteq> 92" and "c \<noteq> 34"
  shows "split_line q s cur (replicate k 92 @ c # rest) = split_line q s (cur @ replicate k 92) (c # rest)"
proof (cases k)
  case (Suc j)
  have "split_line q s cur (92 # replicate j 92 @ c # rest) = split_line q s (cur @ replicate (Suc j) 92) (c # rest)"
    using assms by (subst split_line.simps(2)) (simp add: Let_def backslashes_before del: split_line.simps replicate_Suc)
  then show ?thesis by (simp add: Suc del: split_line.simps)
qed simp

lemma quote_backslashes: "quote_chars n (replicate k 92 @ cs) = replicate k 92 @ quote_chars (n + k) cs"
  by (induction k arbitrary: n) simp_all

lemma backslash_run: "\<exists>k t. s = replicate k 92 @ t \<and> (t = [] \<or> hd t \<noteq> (92 :: nat))"
proof (induction s)
  case (Cons c s)
  then obtain k t where "s = replicate k 92 @ t" "t = [] \<or> hd t \<noteq> (92 :: nat)" by blast
  then show ?case
    by (cases "c = 92") (rule exI [of _ "Suc k"] exI [of _ "0 :: nat"], force)+
qed simp

lemma replicate_twice: "replicate k x @ replicate k x = replicate (2 * k) x"
  by (simp add: replicate_add [symmetric] mult_2)

text \<open>What was quoted is read back as it was, up to the closing quote.\<close>

lemma split_quoted: "split_line True s cur (quote_chars 0 arg @ 34 # rest) = split_line False True (cur @ arg) rest"
proof (induction "length arg" arbitrary: arg cur rule: less_induct)
  case less
  obtain k t where arg: "arg = replicate k 92 @ t" and t: "t = [] \<or> hd t \<noteq> 92" using backslash_run [of arg] by blast
  have q: "quote_chars 0 arg = replicate k 92 @ quote_chars k t" by (simp add: arg quote_backslashes)
  show ?case
  proof (cases t)
    case Nil
    then have "quote_chars 0 arg @ 34 # rest = replicate (2 * k) 92 @ 34 # rest"
      by (simp add: q replicate_twice [symmetric])
    with Nil arg show ?thesis by (simp only: split_even) simp
  next
    case (Cons c cs)
    then have c: "c \<noteq> 92" and shorter: "length cs < length arg" using t arg by auto
    show ?thesis
    proof (cases "c = 34")
      case True
      then have "quote_chars 0 arg @ 34 # rest = replicate (Suc (2 * k)) 92 @ 34 # quote_chars 0 cs @ 34 # rest"
        using Cons by (simp add: q replicate_twice [symmetric] replicate_app_Cons_same)
      then have "split_line True s cur (quote_chars 0 arg @ 34 # rest) =
          split_line True s (cur @ replicate k 92 @ [34]) (quote_chars 0 cs @ 34 # rest)"
        by (simp only: split_odd)
      then show ?thesis using less [OF shorter] Cons True arg by simp
    next
      case False
      have "quote_chars 0 arg @ 34 # rest = replicate k 92 @ c # quote_chars 0 cs @ 34 # rest"
        using Cons False c by (simp add: q)
      then have "split_line True s cur (quote_chars 0 arg @ 34 # rest) =
          split_line True s (cur @ replicate k 92) (c # quote_chars 0 cs @ 34 # rest)"
        by (simp only: split_run [OF c False])
      also have "\<dots> = split_line True s (cur @ replicate k 92 @ [c]) (quote_chars 0 cs @ 34 # rest)"
        using False c by simp
      finally show ?thesis using less [OF shorter] Cons arg by simp
    qed
  qed
qed

lemma split_plain:
  "\<not> list_ex needs_quotes arg \<Longrightarrow> split_line False s cur (arg @ rest) = split_line False s (cur @ arg) rest"
  by (induction arg arbitrary: cur) (auto simp: needs_quotes_def)

text \<open>An argument is left in the state the end of the line or a space takes it from.\<close>

lemma split_quote:
  "\<exists>s. (s \<or> arg \<noteq> []) \<and> (\<forall>rest. split_line False False [] (quote arg @ rest) = split_line False s arg rest)"
proof (cases "arg \<noteq> [] \<and> \<not> list_ex needs_quotes arg")
  case True
  then show ?thesis using split_plain [of arg False "[]"] by (intro exI [of _ False]) (simp add: quote_def)
next
  case False
  then show ?thesis
    using split_quoted [of True "[]" arg] by (intro exI [of _ True]) (auto simp: quote_def)
qed

lemma split_join: "split_args (join_args args) = args"
proof (induction args rule: join_args.induct)
  case (2 arg)
  obtain s where s: "s \<or> arg \<noteq> []" "\<And>rest. split_line False False [] (quote arg @ rest) = split_line False s arg rest"
    using split_quote [of arg] by blast
  show ?case using s(2) [of "[]"] s(1) by (simp add: split_args_def)
next
  case (3 arg arg' args)
  obtain s where "s \<or> arg \<noteq> []" "\<And>rest. split_line False False [] (quote arg @ rest) = split_line False s arg rest"
    using split_quote [of arg] by blast
  with 3 show ?case by (simp add: split_args_def)
qed (simp add: split_args_def)

interpretation command_line: codec join_args "\<lambda>line. Some (split_args line)" "\<lambda>_. True"
  by unfold_locales (simp add: split_join)

lemma nul_free_quote_chars: "nul_free arg \<Longrightarrow> nul_free (quote_chars n arg)"
proof (induction arg arbitrary: n)
  case Nil
  show ?case by (simp add: nul_free_replicate scalar_def)
next
  case (Cons c cs)
  moreover have "nul_free (replicate n 92)" by (simp add: nul_free_replicate scalar_def)
  ultimately show ?case by (simp add: scalar_def)
qed

lemma nul_free_quote: "nul_free arg \<Longrightarrow> nul_free (quote arg)"
  by (simp add: quote_def nul_free_quote_chars scalar_def)

lemma nul_free_join: "list_all nul_free args \<Longrightarrow> nul_free (join_args args)"
  by (induction args rule: join_args.induct) (simp_all add: nul_free_quote scalar_def)

section \<open>Properties\<close>

text \<open>
  C26: The elevated copy gets exactly the arguments this one got, whatever spaces, quotes and
  backslashes they hold, behind the flag that says where its output goes: the one wide string
  Windows is handed reads back, as the splitter of the command line reads it, as that list of
  arguments. The exit code of the copy becomes this one's, an elevation that was declined or
  failed ends in 1, and the file with the output is removed in every case the copy was asked for.
\<close>

theorem elevated_copy_gets_the_arguments:
  assumes "list_all nul_free args" and "nul_free output"
    and "relaunch (Inr exe) output args cwd shell shown = (code, fx)"
  shows "\<exists>call. fx ! 0 = Called call \<and> RemovedFile output \<in> set fx \<and>
      map_option split_args (wide_to_string (Some (sc_params call))) = Some ([OUTPUT_FLAG, output] @ args) \<and>
      (case shell call of
         Started (Some c) \<Rightarrow> code = sint c \<and> (\<forall>e. PrintedError e \<notin> set fx)
       | Started None \<Rightarrow> code = 1 \<and> last fx = PrintedError ResultUnreadable
       | ShellFailed c err \<Rightarrow>
           code = 1 \<and> last fx = PrintedError (if c = ERROR_CANCELLED then Declined else CouldNotAsk err))"
proof -
  define params where "params = join_args (OUTPUT_FLAG # output # args)"
  define call where "call = runas_call cwd exe params"
  have "nul_free OUTPUT_FLAG" by (simp add: OUTPUT_FLAG_def lit_def scalar_def)
  then have "nul_free params" using assms(1,2) by (simp add: params_def nul_free_join del: join_args.simps)
  then have "wide_to_string (Some (sc_params call)) = Some params"
    using wide_reads_back [of params "[]"] by (simp only: call_def runas_call_def append_Nil2) simp
  then have reads: "map_option split_args (wide_to_string (Some (sc_params call))) = Some ([OUTPUT_FLAG, output] @ args)"
    by (simp only: params_def split_join option.map) simp
  have ran: "run_elevated (Inr exe) output args cwd shell shown =
      (case shell call of ShellFailed c err \<Rightarrow> if c = ERROR_CANCELLED then Inl Declined else Inl (CouldNotAsk err)
         | Started c \<Rightarrow> wait_for c,
       [Called call] @ (case shown of Some text \<Rightarrow> [Printed text] | None \<Rightarrow> []) @ [RemovedFile output])"
    by (simp add: run_elevated_def shell_execute_runas_def call_def params_def Let_def)
  show ?thesis
    using assms(3) reads
    by (intro exI [of _ call])
      (auto simp: relaunch_def ran wait_for_def split: shell_answer.splits option.splits if_splits)
qed

theorem elevated_copy_gets_the_arguments_witness:
  "\<exists>code fx call. relaunch (Inr (lit ''quix.exe'')) (lit ''C:/o ut'') [lit ''hostname'', [111, 34, 100, 92], []]
      None (\<lambda>_. Started (Some 3)) None = (code, fx) \<and> fx ! 0 = Called call \<and>
    map_option split_args (wide_to_string (Some (sc_params call))) =
      Some ([OUTPUT_FLAG, lit ''C:/o ut''] @ [lit ''hostname'', [111, 34, 100, 92], []])"
proof -
  obtain code fx where r: "relaunch (Inr (lit ''quix.exe'')) (lit ''C:/o ut'') [lit ''hostname'', [111, 34, 100, 92], []]
      None (\<lambda>_. Started (Some 3)) None = (code, fx)" by force
  have "list_all nul_free [lit ''hostname'', [111, 34, 100, 92], []]" "nul_free (lit ''C:/o ut'')"
    by (simp_all add: lit_def scalar_def)
  from elevated_copy_gets_the_arguments [OF this r] r show ?thesis by blast
qed

end
