(* ===== verification/Client.thy ===== *)
theory Client
  imports Ipc Elevation Cli_Send
begin

text \<open>
  \<open>cli/src/commands/client.rs\<close>: asking the daemon. The other end of the connection is a function
  from the line written and its state to the line read and the state left; the JSON of a request
  and of an answer are parameters. The locale \<open>server\<close> is what the commands rely on: a refusal
  changes nothing, and every answer is one its request can have. It is interpreted on the daemon's
  own handler.
\<close>

section \<open>Asking\<close>

text \<open>An answer as it is read: an error is its text by then, and a transfer is answered before it starts.\<close>

datatype daemon_reply =
    Said response
  | SaidError rstr
  | OfferMade rstr nat
  | FileComing rstr u64 rstr

datatype client_error =
    NoDaemon rstr
  | ConnectionBroke rstr
  | NotAnAnswer
  | ClosedUnanswered
  | NotAllowed rstr

record 's client =
  cl_windows :: bool
  cl_elevated :: bool
  cl_connect_error :: "rstr option"
  cl_encode :: "request \<Rightarrow> rstr"
  cl_decode :: "rstr \<Rightarrow> daemon_reply option"
  cl_exchange :: "rstr \<Rightarrow> 's \<Rightarrow> (rstr, rstr) result \<times> 's"

definition ask :: "'s client \<Rightarrow> request \<Rightarrow> 's \<Rightarrow> (client_error, daemon_reply) result \<times> 's" where
  "ask cl req s =
     (case cl_connect_error cl of
        Some e \<Rightarrow> (Inl (NoDaemon e), s)
      | None \<Rightarrow>
          (case cl_exchange cl (cl_encode cl req @ [10]) s of
             (Inl e, s) \<Rightarrow> (Inl (ConnectionBroke e), s)
           | (Inr line, s) \<Rightarrow>
               (case cl_decode cl (trim line) of
                  None \<Rightarrow> (Inl NotAnAnswer, s)
                | Some r \<Rightarrow> (Inr r, s))))"

definition unauthorized :: "daemon_reply \<Rightarrow> rstr option" where
  "unauthorized r = (case r of Said (RespUnauthorized message) \<Rightarrow> Some message | _ \<Rightarrow> None)"

text \<open>A relaunch ends this process, so nothing of it goes on.\<close>

datatype 'a attempted = Relaunches | Goes 'a

definition send :: "'s client \<Rightarrow> request \<Rightarrow> 's \<Rightarrow> (client_error, daemon_reply) result attempted \<times> 's" where
  "send cl req s =
     (case ask cl req s of
        (Inl e, s) \<Rightarrow> (Goes (Inl e), s)
      | (Inr r, s) \<Rightarrow>
          (case unauthorized r of
             Some message \<Rightarrow>
               if cl_windows cl \<and> \<not> cl_elevated cl then (Relaunches, s)
               else (Goes (Inl (NotAllowed message)), s)
           | None \<Rightarrow> (Goes (Inr r), s)))"

definition ELEVATION_NOTE :: "bool \<Rightarrow> rstr" where
  "ELEVATION_NOTE windows =
     (if windows
      then 10 # lit ''(file transfers are never retried elevated: the file would then belong to Administrators instead of you)''
      else [])"

definition send_as_caller :: "'s client \<Rightarrow> request \<Rightarrow> 's \<Rightarrow> (client_error, daemon_reply) result \<times> 's" where
  "send_as_caller cl req s =
     (case ask cl req s of
        (Inl e, s) \<Rightarrow> (Inl e, s)
      | (Inr r, s) \<Rightarrow>
          (case unauthorized r of
             Some message \<Rightarrow> (Inl (NotAllowed (message @ ELEVATION_NOTE (cl_windows cl))), s)
           | None \<Rightarrow> (Inr r, s)))"

text \<open>Starting a transfer: the same, but that an empty answer is told apart.\<close>

definition open_transfer :: "'s client \<Rightarrow> request \<Rightarrow> 's \<Rightarrow> (client_error, daemon_reply) result \<times> 's" where
  "open_transfer cl req s =
     (case cl_connect_error cl of
        Some e \<Rightarrow> (Inl (NoDaemon e), s)
      | None \<Rightarrow>
          (case cl_exchange cl (cl_encode cl req @ [10]) s of
             (Inl e, s) \<Rightarrow> (Inl (ConnectionBroke e), s)
           | (Inr line, s) \<Rightarrow>
               if line = [] then (Inl ClosedUnanswered, s)
               else (case cl_decode cl (trim line) of
                   None \<Rightarrow> (Inl NotAnAnswer, s)
                 | Some r \<Rightarrow>
                     (case unauthorized r of
                        Some message \<Rightarrow> (Inl (NotAllowed (message @ ELEVATION_NOTE (cl_windows cl))), s)
                      | None \<Rightarrow> (Inr r, s)))))"

lemmas client_evals [evals] = ask_def unauthorized_def send_def ELEVATION_NOTE_def send_as_caller_def open_transfer_def

section \<open>The daemon's end\<close>

definition reply_of :: "(ipc_error \<Rightarrow> rstr) \<Rightarrow> response \<Rightarrow> daemon_reply" where
  "reply_of message resp = (case resp of RespError e \<Rightarrow> SaidError (message e) | _ \<Rightarrow> Said resp)"

text \<open>A single request: what \<open>handle\<close> answers to a line that holds it, and the node it leaves.\<close>

definition serve :: "externs \<Rightarrow> ipc_env \<Rightarrow> credentials \<Rightarrow> request \<Rightarrow> node \<Rightarrow> response \<times> node" where
  "serve x ie creds req n =
     (case ipc_handle x (\<lambda>_. Some req) ie creds [] [] n of
        (Answer resp, n', _) \<Rightarrow> (resp, n')
      | (_, n', _) \<Rightarrow> (RespError NotASingleRequest, n'))"

text \<open>The connection carries a request when the line written reads back as it, and so does the answer.\<close>

definition carries :: "'s client \<Rightarrow> (ipc_error \<Rightarrow> rstr) \<Rightarrow> (request \<Rightarrow> 's \<Rightarrow> response \<times> 's) \<Rightarrow> request \<Rightarrow> 's \<Rightarrow> bool" where
  "carries cl message srv req s \<longleftrightarrow>
     cl_connect_error cl = None \<and>
     (case cl_exchange cl (cl_encode cl req @ [10]) s of
        (Inr line, s') \<Rightarrow>
          (case srv req s of (resp, t) \<Rightarrow> s' = t \<and> line \<noteq> [] \<and> cl_decode cl (trim line) = Some (reply_of message resp))
      | (Inl _, _) \<Rightarrow> False)"

text \<open>The connection to a node: the handler reads the line, and its answer is written as one.\<close>

definition node_exchange ::
    "externs \<Rightarrow> (rstr \<Rightarrow> request option) \<Rightarrow> (daemon_reply \<Rightarrow> rstr) \<Rightarrow> (ipc_error \<Rightarrow> rstr) \<Rightarrow> ipc_env \<Rightarrow> credentials \<Rightarrow>
     rstr \<Rightarrow> node \<Rightarrow> (rstr, rstr) result \<times> node" where
  "node_exchange x json to_json message ie creds line n =
     (case ipc_handle x json ie creds line [] n of
        (Answer resp, n, _) \<Rightarrow> (Inr (to_json (reply_of message resp) @ [10]), n)
      | (_, n, _) \<Rightarrow> (Inr [], n))"

text \<open>The answers a request can have.\<close>

definition fits :: "request \<Rightarrow> response \<Rightarrow> bool" where
  "fits req resp =
     (case resp of
        RespError _ \<Rightarrow> True
      | RespUnauthorized _ \<Rightarrow> \<not> is_read_only req
      | RespOk _ \<Rightarrow> (\<exists>name host. req = CreateNetwork name host)
      | RespStatus _ \<Rightarrow> req = Status
      | RespPong _ _ _ \<Rightarrow> (\<exists>peer. req = Ping peer)
      | RespInvite _ _ \<Rightarrow> (\<exists>ttl. req = Invite ttl)
      | RespJoined _ _ _ \<Rightarrow> (\<exists>code host. req = Join code host)
      | RespLeft _ _ \<Rightarrow> req = Leave
      | RespOperatorSet _ _ \<Rightarrow> (\<exists>user. req = SetOperator user)
      | RespHostnameSet _ _ \<Rightarrow> (\<exists>host force. req = SetHostname host force)
      | RespKicked _ _ _ \<Rightarrow> (\<exists>peer. req = KickPeer peer)
      | RespFiles _ _ \<Rightarrow> req = FileList
      | RespFileRejected _ _ _ \<Rightarrow> (\<exists>i. req = FileReject i))"

lemma dispatch_fits:
  assumes "ipc_dispatch x ie req n = (resp, n', pushes)"
  shows "fits req resp" and "resp \<noteq> RespUnauthorized m"
  using assms
  by (cases req; force simp: ipc_dispatch_def fits_def ipc_invite_def ipc_kick_def ipc_reject_def ipc_set_operator_def
      ipc_leave_def ipc_join_def Let_def split: prod.splits sum.splits if_splits)+

lemma serve_cases:
  "serve x ie creds req n =
     (case authorize (ie_accounts ie) req (caller_of creds) (state_operator n) of
        Inl message \<Rightarrow> (RespUnauthorized message, n)
      | Inr _ \<Rightarrow>
          if is_transfer req then (RespError NotASingleRequest, n)
          else (case ipc_dispatch x ie req n of (resp, n', _) \<Rightarrow> (resp, n')))"
  by (auto simp: serve_def ipc_handle_def Let_def split: sum.splits prod.splits)

text \<open>What the handler does with a line that holds the request is that.\<close>

lemma handle_serves:
  assumes "json (trim line) = Some req" and "\<not> is_transfer req"
  shows "\<exists>pushes. ipc_handle x json ie creds line [] n =
    (Answer (fst (serve x ie creds req n)), snd (serve x ie creds req n), pushes)"
  using assms by (auto simp: serve_cases ipc_handle_def Let_def split: sum.splits prod.splits)

lemma node_carries:
  fixes cl :: "node client"
  assumes "cl_connect_error cl = None" and "cl_exchange cl = node_exchange x json to_json message ie creds"
    and "\<not> is_transfer req" and "json (trim (cl_encode cl req @ [10])) = Some req"
    and "cl_decode cl (trim (to_json r @ [10])) = Some r" and "r = reply_of message (fst (serve x ie creds req n))"
  shows "carries cl message (serve x ie creds) req n"
proof -
  obtain pushes where h: "ipc_handle x json ie creds (cl_encode cl req @ [10]) [] n =
      (Answer (fst (serve x ie creds req n)), snd (serve x ie creds req n), pushes)"
    using handle_serves [where json = json and line = "cl_encode cl req @ [10]"] assms(3,4) by blast
  show ?thesis
    unfolding carries_def assms(2) node_exchange_def h using assms(1,5,6) by (simp add: case_prod_unfold)
qed

section \<open>The interface\<close>

locale server =
  fixes srv :: "request \<Rightarrow> 's \<Rightarrow> response \<times> 's" and may :: "request \<Rightarrow> 's \<Rightarrow> bool"
  assumes refusal: "srv req s = (RespUnauthorized m, s') \<Longrightarrow> s' = s \<and> \<not> may req s"
    and answers: "srv req s = (resp, s') \<Longrightarrow> fits req resp"
begin

lemma ask_carried:
  "carries cl message srv req s \<Longrightarrow> ask cl req s = (Inr (reply_of message (fst (srv req s))), snd (srv req s))"
  by (cases "srv req s") (auto simp: carries_def ask_def split: prod.splits sum.splits)

lemma send_carried:
  assumes "carries cl message srv req s" and "srv req s = (resp, s')"
  shows "send cl req s =
    (case resp of
       RespUnauthorized m \<Rightarrow>
         if cl_windows cl \<and> \<not> cl_elevated cl then (Relaunches, s) else (Goes (Inl (NotAllowed m)), s)
     | _ \<Rightarrow> (Goes (Inr (reply_of message resp)), s'))"
  using ask_carried [OF assms(1)] assms(2) refusal [of req s]
  by (auto simp: send_def unauthorized_def reply_of_def split: response.splits)

text \<open>A prompt is only ever shown when it would change the outcome, and before anything happened.\<close>

lemma relaunch_only_refused:
  assumes "carries cl message srv req s" and "send cl req s = (Relaunches, s')"
  shows "s' = s \<and> \<not> may req s \<and> cl_windows cl \<and> \<not> cl_elevated cl"
proof -
  obtain resp t where r: "srv req s = (resp, t)" by force
  show ?thesis
    using assms(2) send_carried [OF assms(1) r] refusal [of req s] r by (auto split: response.splits if_splits)
qed

lemma reply_fits:
  assumes "carries cl message srv req s" and "send cl req s = (Goes (Inr r), s')"
  obtains resp where "srv req s = (resp, s')" "fits req resp" "r = reply_of message resp" "\<And>m. resp \<noteq> RespUnauthorized m"
proof -
  obtain resp t where r: "srv req s = (resp, t)" by force
  show thesis
    using assms(2) send_carried [OF assms(1) r] answers [OF r] r
    by (intro that [of resp]) (auto split: response.splits if_splits)
qed

lemma send_failure:
  assumes "carries cl message srv req s" and "send cl req s = (Goes (Inl e), s')"
  shows "\<exists>m. e = NotAllowed m"
proof -
  obtain resp t where r: "srv req s = (resp, t)" by force
  show ?thesis using assms(2) send_carried [OF assms(1) r] by (auto split: response.splits if_splits)
qed

lemma send_changed:
  assumes "carries cl message srv req s" and "send cl req s = (att, s')"
  shows "s' = snd (srv req s)"
proof -
  obtain resp t where r: "srv req s = (resp, t)" by force
  show ?thesis
    using assms(2) send_carried [OF assms(1) r] refusal [of req s] r by (auto split: response.splits if_splits)
qed

end

definition may_ask :: "credentials \<Rightarrow> request \<Rightarrow> node \<Rightarrow> bool" where
  "may_ask creds req n \<longleftrightarrow> is_read_only req \<or> is_superuser (caller_of creds) \<or> is_operator (state_operator n) (caller_of creds)"

lemma serve_refusal:
  "serve x ie creds req n = (RespUnauthorized m, n') \<Longrightarrow> n' = n \<and> \<not> may_ask creds req n"
  using dispatch_fits(2) [of x ie req n]
  by (auto simp: serve_cases may_ask_def authorize_def split: sum.splits prod.splits if_splits)

lemma serve_fits: "serve x ie creds req n = (resp, n') \<Longrightarrow> fits req resp"
  using dispatch_fits(1) [of x ie req n]
  by (auto simp: serve_cases authorize_def fits_def [of _ "RespUnauthorized _"] fits_def [of _ "RespError _"]
      split: sum.splits prod.splits if_splits)

interpretation node_server: server "serve x ie creds" "may_ask creds" for x ie creds
  by unfold_locales (blast dest: serve_refusal serve_fits)+

end
