(* ===== verification/File_List.thy ===== *)
theory File_List
  imports Client Cli_Receive
begin

text \<open>
  \<open>cli/src/commands/file/format.rs\<close>, \<open>list.rs\<close> and the rest of \<open>receive.rs\<close>: how offers look, and
  the interactive list. The size shown is computed in 64-bit floats by the source: the conversion
  rounds to 53 bits, the divisions are by powers of two and exact, and one decimal is printed
  rounding half to even, so all of it is done on naturals here. What the user picks and confirms,
  and what the daemon answers meanwhile, are inputs, one record per round.
\<close>

section \<open>Sizes and times\<close>

fun bit_len :: "nat \<Rightarrow> nat" where
  "bit_len n = (if n = 0 then 0 else Suc (bit_len (n div 2)))"

declare bit_len.simps [simp del]

text \<open>Rounding \<open>a / b\<close> half to even.\<close>

definition round_even :: "nat \<Rightarrow> nat \<Rightarrow> nat" where
  "round_even a b =
     (if b < 2 * (a mod b) \<or> b = 2 * (a mod b) \<and> odd (a div b) then Suc (a div b) else a div b)"

definition as_f64 :: "nat \<Rightarrow> nat" where
  "as_f64 n = (let unit = 2 ^ (bit_len n - 53) in round_even n unit * unit)"

text \<open>The power of 1024 the value is divided by.\<close>

function size_power :: "nat \<Rightarrow> nat \<Rightarrow> nat" where
  "size_power value k = (if k < 5 \<and> 1024 ^ Suc k \<le> value then size_power value (Suc k) else k)"
  by pat_completeness auto

termination size_power
  by (relation "measure (\<lambda>(_, k). 5 - k)") auto

declare size_power.simps [simp del]

definition UNITS :: "rstr list" where
  "UNITS = [lit ''KiB'', lit ''MiB'', lit ''GiB'', lit ''TiB'', lit ''PiB'']"

definition size_tenths :: "nat \<Rightarrow> nat \<times> nat" where
  "size_tenths bytes =
     (let value = as_f64 bytes; k = size_power value 1 in (round_even (10 * value) (1024 ^ k), k))"

definition show_size :: "nat \<Rightarrow> rstr" where
  "show_size bytes =
     (if bytes < 1024 then decimal bytes @ lit '' B''
      else case size_tenths bytes of (t, k) \<Rightarrow>
        decimal (t div 10) @ [46] @ decimal (t mod 10) @ [32] @ UNITS ! (k - 1))"

definition duration :: "nat \<Rightarrow> rstr" where
  "duration seconds =
     (let h = seconds div 3600; m = seconds mod 3600 div 60; s = seconds mod 60
      in if h = 0 \<and> m = 0 then decimal s @ lit ''s''
         else if h = 0 then decimal m @ lit ''m '' @ decimal s @ lit ''s''
         else decimal h @ lit ''h '' @ decimal m @ lit ''m'')"

text \<open>Nanoseconds; the text of a float with one decimal is a parameter.\<close>

definition elapsed :: "(nat \<Rightarrow> rstr) \<Rightarrow> nat \<Rightarrow> rstr" where
  "elapsed tenths took =
     (let secs = took div 1000000000
      in if secs = 0 then decimal (took div 1000000) @ lit ''ms''
         else if secs < 60 then tenths took @ lit ''s'' else duration secs)"

section \<open>Progress\<close>

definition redraw :: rstr where "redraw = [13, 27] @ lit ''[K''"

record progress =
  pg_total :: u64
  pg_shown :: "nat option"
  pg_enabled :: bool

definition percent :: "u64 \<Rightarrow> u64 \<Rightarrow> nat" where
  "percent so_far whole =
     (if whole = 0 then 100 else min (unat so_far * 100) (2 ^ 64 - 1) div unat whole)"

text \<open>The time is in milliseconds; what is drawn is the second component.\<close>

definition progress_update :: "nat \<Rightarrow> u64 \<Rightarrow> progress \<Rightarrow> progress \<times> rstr" where
  "progress_update now so_far pg =
     (let due = (case pg_shown pg of None \<Rightarrow> True | Some at \<Rightarrow> 100 \<le> now - at)
      in if pg_enabled pg \<and> due
         then (pg\<lparr>pg_shown := Some now\<rparr>,
           redraw @ show_size (unat so_far) @ lit '' / '' @ show_size (unat (pg_total pg)) @ lit ''  '' @
           decimal (percent so_far (pg_total pg)) @ lit ''%'')
         else (pg, []))"

definition progress_done :: "progress \<Rightarrow> rstr" where
  "progress_done pg = (if pg_enabled pg \<and> pg_shown pg \<noteq> None then redraw else [])"

text \<open>Nanoseconds: the time left is rounded up to seconds.\<close>

definition countdown_show :: "bool \<Rightarrow> nat \<Rightarrow> nat \<Rightarrow> rstr" where
  "countdown_show enabled deadline now =
     (if \<not> enabled then []
      else let left = deadline - now
           in redraw @ lit ''expires in '' @
             duration (left div 1000000000 + (if 0 < left mod 1000000000 then 1 else 0)))"

section \<open>Tables\<close>

definition incoming_line :: "incoming_offer \<Rightarrow> rstr" where
  "incoming_line offer =
     join_with (lit ''  '') [in_id offer, in_from offer, in_name offer, show_size (in_size offer),
       lit ''expires in '' @ duration (in_expires_in_secs offer)]"

definition state_text :: "outgoing_offer \<Rightarrow> rstr" where
  "state_text offer =
     (case (out_state offer, out_expires_in_secs offer, out_detail offer) of
        (Offered, Some left, _) \<Rightarrow> lit ''offered, expires in '' @ duration left
      | (st, _, Some detail) \<Rightarrow> label st @ lit '' ('' @ detail @ lit '')''
      | (st, _, None) \<Rightarrow> label st)"

definition table_row :: "rstr list \<Rightarrow> rstr" where
  "table_row cells = join_with [9] cells @ [10]"

definition incoming_cells :: "incoming_offer \<Rightarrow> rstr list" where
  "incoming_cells offer =
     [in_id offer, in_from offer, in_name offer, show_size (in_size offer), duration (in_expires_in_secs offer)]"

definition incoming_table :: "incoming_offer list \<Rightarrow> rstr" where
  "incoming_table offers =
     table_row [lit ''ID'', lit ''FROM'', lit ''NAME'', lit ''SIZE'', lit ''EXPIRES''] @
     concat (map (\<lambda>offer. table_row (incoming_cells offer)) offers)"

definition outgoing_cells :: "outgoing_offer \<Rightarrow> rstr list" where
  "outgoing_cells offer =
     [out_id offer, out_to offer, out_name offer, show_size (out_size offer), state_text offer]"

definition outgoing_table :: "outgoing_offer list \<Rightarrow> rstr" where
  "outgoing_table offers =
     table_row [lit ''ID'', lit ''TO'', lit ''NAME'', lit ''SIZE'', lit ''STATE''] @
     concat (map (\<lambda>offer. table_row (outgoing_cells offer)) offers)"

section \<open>Asking for the offers\<close>

datatype list_error =
    NoDestination dest_error
  | AskFailed client_error
  | DaemonSaid rstr rstr
  | UnexpectedAnswer
  | TerminalFailed rstr
  | PickedOutside
  | StoppedBy accept_error

definition list_offers ::
    "'s client \<Rightarrow> 's \<Rightarrow> (list_error, incoming_offer list \<times> outgoing_offer list) result \<times> 's" where
  "list_offers cl s =
     (case send_as_caller cl FileList s of
        (Inl e, s) \<Rightarrow> (Inl (AskFailed e), s)
      | (Inr (Said (RespFiles inc out)), s) \<Rightarrow> (Inr (inc, out), s)
      | (Inr (SaidError message), s) \<Rightarrow> (Inl (DaemonSaid (lit ''list'') message), s)
      | (Inr _, s) \<Rightarrow> (Inl UnexpectedAnswer, s))"

definition reject_cmd :: "'s client \<Rightarrow> rstr \<Rightarrow> 's \<Rightarrow> (list_error, rstr \<times> rstr) result \<times> 's" where
  "reject_cmd cl i s =
     (case send_as_caller cl (FileReject i) s of
        (Inl e, s) \<Rightarrow> (Inl (AskFailed e), s)
      | (Inr (Said (RespFileRejected _ name from_peer)), s) \<Rightarrow> (Inr (name, from_peer), s)
      | (Inr (SaidError message), s) \<Rightarrow> (Inl (DaemonSaid (lit ''reject'') message), s)
      | (Inr _, s) \<Rightarrow> (Inl UnexpectedAnswer, s))"

text \<open>The answers to the two transfer requests, for the commands that make them.\<close>

definition first_response_of :: "(client_error \<Rightarrow> rstr) \<Rightarrow> (client_error, daemon_reply) result \<Rightarrow> first_response" where
  "first_response_of show_client answer =
     (case answer of
        Inl e \<Rightarrow> NotReached (show_client e)
      | Inr (OfferMade _ _) \<Rightarrow> FileOffered
      | Inr (SaidError message) \<Rightarrow> RefusedWith message
      | Inr _ \<Rightarrow> SomethingElse)"

definition incoming_of ::
    "(client_error \<Rightarrow> rstr) \<Rightarrow> (client_error, daemon_reply) result \<Rightarrow> (accept_error, rstr \<times> u64 \<times> rstr) result" where
  "incoming_of show_client answer =
     (case answer of
        Inl e \<Rightarrow> Inl (NotOpened (show_client e))
      | Inr (FileComing name sz from_peer) \<Rightarrow> Inr (name, sz, from_peer)
      | Inr (SaidError message) \<Rightarrow> Inl (AcceptFailed message)
      | Inr _ \<Rightarrow> Inl (NotOpened (lit ''unexpected response'')))"

section \<open>The interactive list\<close>

text \<open>
  What is shown and asked, in order: the offers a listing gave, a question answered, what goes to
  the daemon, and the lines printed.
\<close>

datatype list_effect =
    Listed "incoming_offer list"
  | Confirmed incoming_offer "bool option"
  | Does cli_effect
  | Prints rstr

record list_turn =
  rd_pick :: "(rstr, nat option) result"
  rd_confirm :: "(rstr, bool option) result"
  rd_accept :: accept_env
  rd_reject :: "(list_error, rstr \<times> rstr) result"
  rd_offers :: "(list_error, incoming_offer list) result"

definition pick :: "incoming_offer list \<Rightarrow> (rstr, nat option) result \<Rightarrow> (list_error, incoming_offer option) result" where
  "pick incoming answer =
     (case incoming of
        [only] \<Rightarrow> Inr (Some only)
      | _ \<Rightarrow>
          (case answer of
             Inl e \<Rightarrow> Inl (TerminalFailed e)
           | Inr None \<Rightarrow> Inr None
           | Inr (Some i) \<Rightarrow> if i < length incoming then Inr (Some (incoming ! i)) else Inl PickedOutside))"

definition confirm_question :: "incoming_offer \<Rightarrow> rstr" where
  "confirm_question offer =
     lit ''Accept '' @ in_name offer @ lit '' ('' @ show_size (in_size offer) @ lit '') from '' @ in_from offer @ lit ''?''"

text \<open>How errors and paths are shown is a parameter.\<close>

record list_env =
  le_blake3 :: "u8 list \<Rightarrow> u8 list"
  le_platform :: platform
  le_show_accept :: "accept_error \<Rightarrow> rstr"
  le_show_list :: "list_error \<Rightarrow> rstr"
  le_path :: "rstr \<Rightarrow> rstr"

text \<open>One round, up to the next listing; an end is \<open>Some\<close>.\<close>

definition list_round ::
    "list_env \<Rightarrow> destination \<Rightarrow> incoming_offer list \<Rightarrow> list_turn \<Rightarrow> directory \<Rightarrow>
     (list_error, unit) result option \<times> directory \<times> list_effect list" where
  "list_round le dest incoming rd dir =
     (case pick incoming (rd_pick rd) of
        Inl e \<Rightarrow> (Some (Inl e), dir, [])
      | Inr None \<Rightarrow> (Some (Inr ()), dir, [])
      | Inr (Some offer) \<Rightarrow>
          (case rd_confirm rd of
             Inl e \<Rightarrow> (Some (Inl (TerminalFailed e)), dir, [])
           | Inr (Some True) \<Rightarrow>
               let noted = (case dest_note dest of Some note \<Rightarrow> [Prints note] | None \<Rightarrow> []) in
               (case accept_file (le_blake3 le) (le_platform le) (le_show_accept le) (rd_accept rd) (in_id offer) dir of
                  (res, dir', fx) \<Rightarrow>
                    let fx = Confirmed offer (Some True) # noted @ map Does fx in
                    (case res of
                       Inr saved \<Rightarrow> (None, dir', fx @ [Prints (lit ''saved '' @ le_path le saved)])
                     | Inl AcceptCancelled \<Rightarrow> (Some (Inl (StoppedBy AcceptCancelled)), dir', fx)
                     | Inl e \<Rightarrow> (None, dir', fx @ [Prints (le_show_accept le e)])))
           | Inr (Some False) \<Rightarrow>
               (None, dir,
                [Confirmed offer (Some False), Does (Asked (FileReject (in_id offer))),
                 Prints (case rd_reject rd of
                     Inr (name, from_peer) \<Rightarrow> lit ''rejected '' @ name @ lit '' from '' @ from_peer
                   | Inl e \<Rightarrow> le_show_list le e)])
           | Inr None \<Rightarrow>
               (if length incoming = 1 then Some (Inr ()) else None, dir, [Confirmed offer None])))"

text \<open>A user who never answers leaves it waiting: \<open>None\<close>.\<close>

fun list_loop ::
    "list_env \<Rightarrow> destination \<Rightarrow> incoming_offer list \<Rightarrow> list_turn list \<Rightarrow> directory \<Rightarrow>
     (list_error, unit) result option \<times> directory \<times> list_effect list" where
  "list_loop le dest incoming [] dir =
     (if incoming = [] then (Some (Inr ()), dir, [Prints (lit ''No offers waiting.'')]) else (None, dir, []))"
| "list_loop le dest incoming (rd # rounds) dir =
     (if incoming = [] then (Some (Inr ()), dir, [Prints (lit ''No offers waiting.'')])
      else case list_round le dest incoming rd dir of
        (Some ended, dir, fx) \<Rightarrow> (Some ended, dir, fx)
      | (None, dir, fx) \<Rightarrow>
          (case rd_offers rd of
             Inl e \<Rightarrow> (Some (Inl e), dir, fx @ [Does (Asked FileList)])
           | Inr incoming \<Rightarrow>
               (case list_loop le dest incoming rounds dir of
                  (res, dir, fx') \<Rightarrow> (res, dir, fx @ [Does (Asked FileList), Listed incoming] @ fx'))))"

text \<open>The lines of a text: the last may be left open, and a carriage return before the end of one goes with it.\<close>

fun text_lines :: "rstr \<Rightarrow> rstr \<Rightarrow> rstr list" where
  "text_lines line [] = (if line = [] then [] else [line])"
| "text_lines line (c # s) =
     (if c = 10 then (if line \<noteq> [] \<and> last line = 13 then butlast line else line) # text_lines [] s
      else text_lines (line @ [c]) s)"

definition widen_tabs :: "rstr \<Rightarrow> rstr" where
  "widen_tabs line = concat (map (\<lambda>c. if c = 9 then [32, 32] else [c]) line)"

definition sent_lines :: "outgoing_offer list \<Rightarrow> rstr list" where
  "sent_lines outgoing =
     lit ''Sent:'' # map (\<lambda>line. lit ''  '' @ widen_tabs line) (drop 1 (text_lines [] (outgoing_table outgoing))) @ [[]]"

definition list_run ::
    "list_env \<Rightarrow> (dest_error, destination) result \<Rightarrow> bool \<Rightarrow>
     (list_error, incoming_offer list \<times> outgoing_offer list) result \<Rightarrow> list_turn list \<Rightarrow> directory \<Rightarrow>
     (list_error, unit) result option \<times> directory \<times> list_effect list" where
  "list_run le dest interactive first rounds dir =
     (case dest of
        Inl e \<Rightarrow> (Some (Inl (NoDestination e)), dir, [])
      | Inr dest \<Rightarrow>
      case first of
        Inl e \<Rightarrow> (Some (Inl e), dir, [Does (Asked FileList)])
      | Inr (incoming, outgoing) \<Rightarrow>
      let fx = [Does (Asked FileList), Listed incoming] in
      if \<not> interactive
      then (Some (Inr ()), dir, fx @ [Prints (incoming_table incoming)] @
        (if outgoing = [] then [] else [Prints [10], Prints (outgoing_table outgoing)]))
      else case list_loop le dest incoming rounds dir of
        (res, dir, fx') \<Rightarrow>
          (res, dir, fx @ (if outgoing = [] then [] else map Prints (sent_lines outgoing)) @ fx'))"

lemmas file_list_evals [evals] = round_even_def as_f64_def UNITS_def size_tenths_def show_size_def duration_def
  elapsed_def redraw_def percent_def progress_update_def progress_done_def countdown_show_def incoming_line_def
  state_text_def table_row_def incoming_cells_def incoming_table_def outgoing_cells_def outgoing_table_def
  list_offers_def reject_cmd_def first_response_of_def incoming_of_def pick_def confirm_question_def list_round_def
  widen_tabs_def sent_lines_def list_run_def

section \<open>Lemmas: sizes\<close>

lemma round_even_close: "0 < b \<Longrightarrow> 2 * \<bar>int (round_even a b * b) - int a\<bar> \<le> int b"
proof -
  assume b: "0 < b"
  have up: "2 * \<bar>int x - int a\<bar> \<le> int b" if "x = p + b" "a = p + r" "b \<le> 2 * r" "r < b" for x p r
    using that by simp
  have down: "2 * \<bar>int x - int a\<bar> \<le> int b" if "x = p" "a = p + r" "2 * r \<le> b" for x p r
    using that by simp
  have a: "a = a div b * b + a mod b" "a mod b < b" using b by simp_all
  show ?thesis
  proof (cases "b < 2 * (a mod b) \<or> b = 2 * (a mod b) \<and> odd (a div b)")
    case True
    then have "round_even a b * b = a div b * b + b" "b \<le> 2 * (a mod b)" by (auto simp: round_even_def)
    then show ?thesis by (rule up [OF _ a(1) _ a(2)])
  next
    case False
    then have "round_even a b * b = a div b * b" "2 * (a mod b) \<le> b" by (auto simp: round_even_def)
    then show ?thesis by (rule down [OF _ a(1)])
  qed
qed

lemma round_even_exact [simp]: "round_even a 1 = a" "round_even a (Suc 0) = a"
  by (simp_all add: round_even_def)

lemma round_even_ge: "0 < b \<Longrightarrow> k * b \<le> a \<Longrightarrow> k \<le> round_even a b"
  by (simp add: round_even_def less_eq_div_iff_mult_less_eq le_SucI)

lemma bit_len_le: "n < 2 ^ k \<Longrightarrow> bit_len n \<le> k"
proof (induction n arbitrary: k rule: bit_len.induct)
  case (1 n)
  show ?case
  proof (cases "n = 0")
    case False
    then obtain j where k: "k = Suc j" using 1(2) by (cases k) auto
    then have "bit_len (n div 2) \<le> j" using 1 False by auto
    then show ?thesis using False k by (subst bit_len.simps) simp
  qed (simp add: bit_len.simps)
qed

lemma as_f64_small: "n < 2 ^ 53 \<Longrightarrow> as_f64 n = n"
  using bit_len_le [of n 53] by (simp add: as_f64_def)

lemma as_f64_close: "n < 2 ^ 64 \<Longrightarrow> 2 * \<bar>int (as_f64 n) - int n\<bar> \<le> 2 ^ 11"
proof -
  assume "n < 2 ^ 64"
  then have "bit_len n - 53 \<le> 11" using bit_len_le [of n 64] by simp
  then have "(2::int) ^ (bit_len n - 53) \<le> 2 ^ 11" by (rule power_increasing) simp
  then show ?thesis
    using round_even_close [of "2 ^ (bit_len n - 53)" n] by (simp add: as_f64_def Let_def)
qed

lemma as_f64_ge: "2 ^ 53 \<le> n \<Longrightarrow> n < 2 ^ 64 \<Longrightarrow> 2 ^ 52 \<le> as_f64 n"
  using as_f64_close [of n] by simp

lemma size_power_bounds:
  "1024 ^ k \<le> v \<Longrightarrow> k \<le> 5 \<Longrightarrow> k \<le> size_power v k \<and> size_power v k \<le> 5 \<and> 1024 ^ size_power v k \<le> v"
proof (induction v k rule: size_power.induct)
  case (1 v k)
  show ?case
  proof (cases "k < 5 \<and> 1024 ^ Suc k \<le> v")
    case True
    then have "size_power v k = size_power v (Suc k)" by (simp add: size_power.simps)
    then show ?thesis using 1 True by simp
  next
    case False
    then have "size_power v k = k" by (subst size_power.simps) (simp only: if_False)
    then show ?thesis using 1 by simp
  qed
qed

lemma size_tenths_close:
  assumes "1024 \<le> bytes" and "bytes < 2 ^ 64" and "size_tenths bytes = (t, k)"
  shows "1 \<le> k \<and> k \<le> 5 \<and> 10 \<le> t \<and>
    2 * \<bar>int (t * 1024 ^ k) - 10 * int bytes\<bar> \<le> int (1024 ^ k) + (if bytes < 2 ^ 53 then 0 else 10 * 2 ^ 11)"
proof -
  define v where "v = as_f64 bytes"
  have v: "1024 ^ 1 \<le> v"
    using assms(1,2) as_f64_small [of bytes] as_f64_ge [of bytes] by (cases "bytes < 2 ^ 53") (simp_all add: v_def)
  have k: "k = size_power v 1" and t: "t = round_even (10 * v) (1024 ^ k)"
    using assms(3) by (auto simp: size_tenths_def Let_def v_def)
  have b: "1 \<le> k" "k \<le> 5" "1024 ^ k \<le> v" using size_power_bounds [OF v] k by simp_all
  have tri: "2 * \<bar>x - z\<bar> \<le> a + c" if "2 * \<bar>x - y\<bar> \<le> a" "2 * \<bar>y - z\<bar> \<le> c" for x y z a c :: int
    using that abs_triangle_ineq [of "x - y" "y - z"] by simp
  have "10 \<le> t" unfolding t by (rule round_even_ge) (use b(3) in simp_all)
  moreover have "2 * \<bar>int (t * 1024 ^ k) - int (10 * v)\<bar> \<le> int (1024 ^ k)"
    unfolding t by (rule round_even_close) simp
  moreover have "2 * \<bar>int (10 * v) - 10 * int bytes\<bar> \<le> (if bytes < 2 ^ 53 then 0 else 10 * 2 ^ 11)"
  proof (cases "bytes < 2 ^ 53")
    case True
    then show ?thesis using as_f64_small [of bytes] by (simp add: v_def)
  next
    case False
    have "\<bar>int v - int bytes\<bar> \<le> 1024" using as_f64_close [OF assms(2)] by (simp add: v_def)
    then have "\<bar>10 * int v - 10 * int bytes\<bar> \<le> 10240" by linarith
    then show ?thesis using False by simp
  qed
  ultimately show ?thesis using b(1,2) tri by blast
qed

section \<open>Lemmas: tables\<close>

text \<open>What \<open>cut\<close> and \<open>awk\<close> make of a text.\<close>

fun cut :: "rchar \<Rightarrow> rstr \<Rightarrow> rstr list" where
  "cut c [] = [[]]"
| "cut c (x # s) = (if x = c then [] # cut c s else (case cut c s of w # ws \<Rightarrow> (x # w) # ws | [] \<Rightarrow> [[x]]))"

lemma cut_plain: "c \<notin> set s \<Longrightarrow> cut c s = [s]"
  by (induction s) auto

lemma cut_append: "c \<notin> set s \<Longrightarrow> cut c (s @ c # rest) = s # cut c rest"
  by (induction s) auto

lemma cut_join: "ss \<noteq> [] \<Longrightarrow> \<forall>s \<in> set ss. c \<notin> set s \<Longrightarrow> cut c (join_with [c] ss) = ss"
  by (induction "[c]" ss rule: join_with.induct) (auto simp: cut_plain cut_append)

definition plain_cell :: "rstr \<Rightarrow> bool" where
  "plain_cell s \<longleftrightarrow> 9 \<notin> set s \<and> 10 \<notin> set s"

lemma join_with_set: "set (join_with sep ss) \<subseteq> set sep \<union> \<Union> (set ` set ss)"
  by (induction sep ss rule: join_with.induct) auto

lemma cut_rows:
  "list_all (list_all plain_cell) rows \<Longrightarrow> cut 10 (concat (map table_row rows)) = map (join_with [9]) rows @ [[]]"
proof (induction rows)
  case (Cons r rows)
  then have "10 \<notin> set (join_with [9] r)" using join_with_set [of "[9]" r] by (auto simp: list_all_iff plain_cell_def)
  then show ?case using Cons by (simp add: table_row_def cut_append)
qed simp

interpretation table: codec "\<lambda>rows. concat (map table_row rows)" "\<lambda>t. Some (map (cut 9) (butlast (cut 10 t)))"
  "list_all (\<lambda>cells. cells \<noteq> [] \<and> list_all plain_cell cells)"
proof
  fix rows assume v: "list_all (\<lambda>cells. cells \<noteq> [] \<and> list_all plain_cell cells) rows"
  then have "map (cut 9 \<circ> join_with [9]) rows = rows"
    by (induction rows) (auto simp: list_all_iff plain_cell_def intro!: cut_join)
  moreover have "list_all (list_all plain_cell) rows" using v by (auto simp: list_all_iff)
  ultimately show "Some (map (cut 9) (butlast (cut 10 (concat (map table_row rows))))) = Some rows"
    by (simp add: cut_rows)
qed

lemma decimal_plain: "plain_cell (decimal n)"
  using decimal_digits [of 9 n] decimal_digits [of 10 n] by (auto simp: plain_cell_def)

lemma show_size_plain: "size_tenths bytes = (t, k) \<Longrightarrow> 1 \<le> k \<Longrightarrow> k \<le> 5 \<Longrightarrow> plain_cell (show_size bytes)"
proof -
  assume st: "size_tenths bytes = (t, k)" and "1 \<le> k" "k \<le> 5"
  then have "k = 1 \<or> k = 2 \<or> k = 3 \<or> k = 4 \<or> k = 5" by linarith
  then show ?thesis
    using decimal_plain st by (auto simp: show_size_def plain_cell_def UNITS_def lit_def)
qed

lemma duration_plain: "plain_cell (duration n)"
  using decimal_plain by (auto simp: duration_def plain_cell_def Let_def lit_def)

text \<open>A name that passed the file name check is one cell.\<close>

lemma checked_plain: "check name platform = Inr () \<Longrightarrow> plain_cell name"
proof -
  assume "check name platform = Inr ()"
  then have "\<forall>c \<in> set name. \<not> is_control c" unfolding check_ok_iff by blast
  moreover have "is_control 9" "is_control 10" by (simp_all add: is_control_def is_cc_def)
  ultimately show ?thesis unfolding plain_cell_def by blast
qed

section \<open>Lemmas: the list\<close>

text \<open>
  What the user is promised: a file is only asked for, or turned down, when that very offer was in
  the listing last shown and the question about it was answered so, and only once for each answer.
\<close>

fun told :: "incoming_offer list \<Rightarrow> (incoming_offer \<times> bool) option \<Rightarrow> list_effect list \<Rightarrow> bool" where
  "told shown chosen [] = True"
| "told shown chosen (Listed inc # fx) = told inc None fx"
| "told shown chosen (Confirmed offer answer # fx) =
     (offer \<in> set shown \<and> told shown (map_option (Pair offer) answer) fx)"
| "told shown chosen (Prints s # fx) = told shown chosen fx"
| "told shown chosen (Does e # fx) =
     (case e of
        Asked (FileAccept i) \<Rightarrow>
          (\<exists>offer. chosen = Some (offer, True) \<and> in_id offer = i) \<and> told shown None fx
      | Asked (FileReject i) \<Rightarrow>
          (\<exists>offer. chosen = Some (offer, False) \<and> in_id offer = i) \<and> told shown None fx
      | Asked FileList \<Rightarrow> told shown chosen fx
      | Asked _ \<Rightarrow> False
      | Wrote _ \<Rightarrow> told shown chosen fx)"

lemma told_wrote [simp]: "told shown chosen (map (Does \<circ> Wrote) out @ fx) = told shown chosen fx"
  by (induction out) auto

lemma told_prints [simp]: "told shown chosen (map Prints ls @ fx) = told shown chosen fx"
  by (induction ls) auto

lemma accept_file_asks:
  assumes "accept_file blake3 platform show_error ae i dir = (res, dir', fx)"
  shows "fx = [] \<or> fx = [Asked FileList] \<or> (\<exists>out. fx = [Asked FileList, Asked (FileAccept i)] @ map Wrote out)"
  using assms
  by (auto simp: accept_file_def Let_def Cons_eq_map_conv split: option.splits sum.splits prod.splits caught.splits)

lemma told_accept:
  assumes "accept_file blake3 platform show_error ae (in_id offer) dir = (res, dir', fx)"
    and "\<And>ch. told inc ch rest"
  shows "told inc (Some (offer, True)) (map Does fx @ rest)"
  using accept_file_asks [OF assms(1)] assms(2) by auto

lemma pick_listed: "pick incoming answer = Inr (Some offer) \<Longrightarrow> offer \<in> set incoming"
  by (auto simp: pick_def in_set_conv_nth split: list.splits sum.splits option.splits if_splits)

lemma list_round_told:
  assumes "list_round le dest incoming rd dir = (res, dir', fx)" and "\<And>ch. told incoming ch rest"
  shows "told incoming ch (fx @ rest)"
proof -
  have acc: "told incoming (Some (offer, True)) (map Does f @ Prints s # rest)"
    "told incoming (Some (offer, True)) (map Does f @ rest)"
    if "accept_file (le_blake3 le) (le_platform le) (le_show_accept le) (rd_accept rd) (in_id offer) dir = (r, d, f)"
    for offer r d f s
    using that assms(2) by (auto intro!: told_accept)
  show ?thesis
    using assms
    by (auto simp: list_round_def Let_def acc dest: pick_listed
        split: sum.splits option.splits bool.splits prod.splits accept_error.splits if_splits)
qed

lemma list_round_dir:
  "list_round le dest incoming rd dir = (res, dir', fx) \<Longrightarrow> dir' = dir \<or> (\<exists>offer. Confirmed offer (Some True) \<in> set fx)"
  by (auto simp: list_round_def Let_def split: sum.splits option.splits bool.splits prod.splits accept_error.splits)

lemma list_loop_told:
  "list_loop le dest incoming rounds dir = (res, dir', fx) \<Longrightarrow>
     told incoming ch fx \<and> (dir' = dir \<or> (\<exists>offer. Confirmed offer (Some True) \<in> set fx))"
proof (induction rounds arbitrary: incoming dir res dir' fx ch)
  case (Cons rd rounds)
  obtain r1 d1 f1 where rnd: "list_round le dest incoming rd dir = (r1, d1, f1)" by (cases "list_round le dest incoming rd dir")
  note t = list_round_told [OF rnd] and d = list_round_dir [OF rnd]
  show ?case
  proof (cases "incoming = []")
    case False
    show ?thesis
    proof (cases r1)
      case None
      show ?thesis
      proof (cases "rd_offers rd")
        case (Inl e)
        then have "fx = f1 @ [Does (Asked FileList)]" "dir' = d1" using Cons.prems False None rnd by simp_all
        then show ?thesis using t [of "[Does (Asked FileList)]"] d by auto
      next
        case (Inr inc)
        obtain r2 d2 f2 where loop: "list_loop le dest inc rounds d1 = (r2, d2, f2)" by (cases "list_loop le dest inc rounds d1")
        then have fx: "fx = f1 @ [Does (Asked FileList), Listed inc] @ f2" "dir' = d2"
          using Cons.prems False None rnd Inr by simp_all
        have "told incoming ch fx"
          unfolding fx(1) by (rule t) (use Cons.IH [OF loop] in simp)
        then show ?thesis using Cons.IH [OF loop] d fx by auto
      qed
    next
      case (Some ended)
      then have "fx = f1" "dir' = d1" using Cons.prems False rnd by simp_all
      then show ?thesis using t [of "[]"] d by auto
    qed
  qed (use Cons.prems in auto)
qed (auto split: if_splits)

section \<open>Properties\<close>

text \<open>
  C28: The list does nothing the user did not say. Whatever is picked, answered and listed: each
  time the daemon is asked for a file, or told to turn one down, that very offer was in the listing
  last shown and the last question was about it and was answered so, once per answer; nothing else
  is asked of the daemon but listings; and without an answer of yes the directory is as it was.
\<close>

theorem list_does_as_told:
  "case list_run le dest interactive first rounds dir of (res, dir', fx) \<Rightarrow>
     told [] None fx \<and> (dir' = dir \<or> (\<exists>offer. Confirmed offer (Some True) \<in> set fx))"
proof (cases dest)
  case dest: (Inr d)
  show ?thesis
  proof (cases first)
    case first: (Inr both)
    obtain inc out where both: "both = (inc, out)" by force
    obtain r d' f where loop: "list_loop le d inc rounds dir = (r, d', f)" by (cases "list_loop le d inc rounds dir")
    have "told inc None f \<and> (d' = dir \<or> (\<exists>offer. Confirmed offer (Some True) \<in> set f))"
      by (rule list_loop_told [OF loop])
    then show ?thesis using loop by (auto simp: list_run_def dest first both Let_def)
  qed (simp add: list_run_def dest)
qed (simp add: list_run_def)

text \<open>
  A size shown is the size. For every 64-bit number of bytes from a kilobyte up, the number
  shown has the right power of 1024 (it is at least 1.0 of it), and is off by at most half of its
  last decimal; past \<open>2^53\<close> bytes, where the float itself rounds, by a further 2 kilobytes at most.
\<close>

theorem sizes_shown_are_close:
  assumes "1024 \<le> bytes" and "bytes < 2 ^ 64" and "size_tenths bytes = (t, k)"
  shows "1 \<le> k \<and> k \<le> 5 \<and> 10 \<le> t \<and>
    2 * \<bar>int (t * 1024 ^ k) - 10 * int bytes\<bar> \<le> int (1024 ^ k) + (if bytes < 2 ^ 53 then 0 else 10 * 2 ^ 11)"
  using size_tenths_close [OF assms] .

text \<open>
  A script can take the table apart. When every name passed the file name check and ids and
  senders hold no tab and no line feed, cutting the printed table at line feeds and each line at
  tabs gives the header and one row of exactly five cells for each offer, in order.
\<close>

theorem tables_come_apart:
  assumes "\<forall>offer \<in> set offers. check (in_name offer) platform = Inr () \<and> in_size offer < 2 ^ 64 \<and>
    plain_cell (in_id offer) \<and> plain_cell (in_from offer)"
  shows "map (cut 9) (butlast (cut 10 (incoming_table offers))) =
    [lit ''ID'', lit ''FROM'', lit ''NAME'', lit ''SIZE'', lit ''EXPIRES''] # map incoming_cells offers"
proof -
  let ?header = "[lit ''ID'', lit ''FROM'', lit ''NAME'', lit ''SIZE'', lit ''EXPIRES'']"
  have size: "plain_cell (show_size n)" if n: "n < 2 ^ 64" for n
  proof (cases "n < 1024")
    case True
    then show ?thesis using decimal_plain by (simp add: show_size_def plain_cell_def lit_def)
  next
    case False
    obtain t k where tk: "size_tenths n = (t, k)" by force
    then show ?thesis using size_tenths_close [of n t k] False n show_size_plain [OF tk] by simp
  qed
  have "list_all (\<lambda>cells. cells \<noteq> [] \<and> list_all plain_cell cells) (?header # map incoming_cells offers)"
    using assms size duration_plain checked_plain
    by (auto simp: list_all_iff incoming_cells_def) (auto simp: plain_cell_def lit_def)
  from table.dec_enc [OF this] show ?thesis
    by (simp add: incoming_table_def comp_def)
qed

section \<open>Witnesses\<close>

theorem sizes_shown_are_close_witness:
  "size_tenths 1572864 = (15, 2) \<and> 2 * \<bar>int (15 * 1024 ^ 2) - 10 * int 1572864\<bar> \<le> int (1024 ^ 2)"
proof -
  have p: "size_power 1572864 1 = 2" by (simp add: size_power.simps)
  have t: "size_tenths 1572864 = (15, 2)"
    using p by (simp add: size_tenths_def as_f64_small Let_def round_even_def)
  show ?thesis using sizes_shown_are_close [OF _ _ t] t by simp
qed

definition demo_offer :: incoming_offer where
  "demo_offer = \<lparr>in_id = lit ''0000aaaa'', in_from = lit ''nas'', in_name = lit ''a b.txt'', in_size = 10,
     in_expires_in_secs = 570\<rparr>"

theorem tables_come_apart_witness:
  "map (cut 9) (butlast (cut 10 (incoming_table [demo_offer, demo_offer]))) =
    [lit ''ID'', lit ''FROM'', lit ''NAME'', lit ''SIZE'', lit ''EXPIRES''] # replicate 2 (incoming_cells demo_offer)"
proof -
  have "check (in_name demo_offer) Unix = Inr ()"
    by (simp add: demo_offer_def check_def is_control_def is_cc_def lit_def blen_def utf8_len_def FILENAME_MAX_LEN_def)
  then have "\<forall>offer \<in> set [demo_offer, demo_offer]. check (in_name offer) Unix = Inr () \<and> in_size offer < 2 ^ 64 \<and>
      plain_cell (in_id offer) \<and> plain_cell (in_from offer)"
    by (auto simp: demo_offer_def plain_cell_def lit_def)
  from tables_come_apart [OF this] show ?thesis by (simp add: numeral_2_eq_2)
qed

text \<open>
  Nothing is checked in the text another member gives for ending a transfer, so one row of this
  node's own offers can be made to read as two.
\<close>

lemma detail_forges_a_row:
  "outgoing_table [\<lparr>out_id = lit ''1'', out_to = lit ''nas'', out_name = lit ''a'', out_size = 1, out_state = Failed,
      out_expires_in_secs = None,
      out_detail = Some (lit ''x)'' @ [10] @ join_with [9] [lit ''2'', lit ''bob'', lit ''b'', lit ''1 B'', lit ''failed (y''])\<rparr>] =
   outgoing_table [\<lparr>out_id = lit ''1'', out_to = lit ''nas'', out_name = lit ''a'', out_size = 1, out_state = Failed,
      out_expires_in_secs = None, out_detail = Some (lit ''x'')\<rparr>,
     \<lparr>out_id = lit ''2'', out_to = lit ''bob'', out_name = lit ''b'', out_size = 1, out_state = Failed,
      out_expires_in_secs = None, out_detail = Some (lit ''y'')\<rparr>]"
  by (simp add: outgoing_table_def table_row_def outgoing_cells_def state_text_def label_def show_size_def lit_def
      decimal.simps)

end
