(* ===== verification/Cli.thy ===== *)
theory Cli
  imports Cli_Status Service Update File_List Admin
begin

text \<open>
  \<open>cli/src/main.rs\<close>, \<open>cli/src/commands/mod.rs\<close>, \<open>file/mod.rs\<close> and the commands that are one request:
  which command runs, after what checks and with what prompt, what it asks the daemon, and what it
  prints of the answer. How the daemon writes a time, a float and an error are parameters.
\<close>

section \<open>Commands\<close>

datatype file_action =
    FileCmdSend rstr rstr "(rstr \<times> rstr) option"
  | FileCmdList bool
  | FileCmdAccept rstr bool
  | FileCmdReject rstr

datatype cli_command =
    CmdCreate rstr "rstr option"
  | CmdInvite "(rstr \<times> rstr) option"
  | CmdJoin rstr "rstr option"
  | CmdLeave
  | CmdKick rstr
  | CmdHostname rstr bool
  | CmdFile file_action
  | CmdPing rstr
  | CmdStatus bool
  | CmdSetOperator rstr
  | CmdService action
  | CmdUpdate bool bool
  | CmdVersion

definition needs_elevation :: "cli_command \<Rightarrow> bool" where
  "needs_elevation c =
     (case c of
        CmdService a \<Rightarrow> a \<noteq> ServiceStatus
      | CmdUpdate _ _ \<Rightarrow> False
      | CmdCreate _ _ \<Rightarrow> False
      | CmdInvite _ \<Rightarrow> False
      | CmdJoin _ _ \<Rightarrow> False
      | CmdLeave \<Rightarrow> False
      | CmdKick _ \<Rightarrow> False
      | CmdHostname _ _ \<Rightarrow> False
      | CmdSetOperator _ \<Rightarrow> False
      | CmdFile _ \<Rightarrow> False
      | CmdStatus _ \<Rightarrow> False
      | CmdPing _ \<Rightarrow> False
      | CmdVersion \<Rightarrow> False)"

definition file_check_args :: "file_action \<Rightarrow> (expiry_error, unit) result" where
  "file_check_args a =
     (case a of
        FileCmdSend _ _ expires \<Rightarrow> (case send_ttl_secs expires of Inl e \<Rightarrow> Inl e | Inr _ \<Rightarrow> Inr ())
      | _ \<Rightarrow> Inr ())"

definition check_args :: "cli_command \<Rightarrow> (expiry_error, unit) result" where
  "check_args c =
     (case c of
        CmdInvite expires \<Rightarrow> (case invite_ttl_secs expires of Inl e \<Rightarrow> Inl e | Inr _ \<Rightarrow> Inr ())
      | CmdFile a \<Rightarrow> file_check_args a
      | _ \<Rightarrow> Inr ())"

section \<open>One request each\<close>

datatype cli_error =
    BadArguments expiry_error
  | NoOperatorHere
  | NotRedirectedTo redirect_error
  | NotAsked client_error
  | CommandFailed rstr rstr
  | UnexpectedResponse

record wording =
  version_tag :: rstr
  show_time :: "int \<Rightarrow> rstr"
  show_rtt :: "nat \<Rightarrow> rstr"

definition create_shows :: "daemon_reply \<Rightarrow> (cli_error, rstr list) result" where
  "create_shows r =
     (case r of
        Said (RespOk _) \<Rightarrow> Inr [lit ''network created, you are the coordinator'']
      | SaidError message \<Rightarrow> Inl (CommandFailed (lit ''create failed'') message)
      | _ \<Rightarrow> Inl UnexpectedResponse)"

definition invite_describe :: "u64 \<Rightarrow> rstr" where
  "invite_describe ttl = lit ''in '' @ span (unat ttl)"

definition invite_shows :: "wording \<Rightarrow> u64 \<Rightarrow> daemon_reply \<Rightarrow> (cli_error, rstr list) result" where
  "invite_shows sh ttl r =
     (case r of
        Said (RespInvite code expires_at) \<Rightarrow>
          Inr [lit ''invite code: '' @ code,
            lit ''expires:     '' @ invite_describe ttl @ lit '' ('' @ show_time sh expires_at @ lit '')'',
            lit ''single use '' @ dash @ lit '' redeeming it consumes it, whatever time is left'']
      | SaidError message \<Rightarrow> Inl (CommandFailed (lit ''invite failed'') message)
      | _ \<Rightarrow> Inl UnexpectedResponse)"

definition reachable_at :: "rstr \<Rightarrow> rstr \<Rightarrow> rstr" where
  "reachable_at host zn =
     (if zn = [] then [] else lit '' (reachable at '' @ host @ lit ''.'' @ zn @ lit '')'')"

definition join_shows :: "daemon_reply \<Rightarrow> (cli_error, rstr list) result" where
  "join_shows r =
     (case r of
        Said (RespJoined name host zn) \<Rightarrow>
          Inr ((case name of Some name \<Rightarrow> lit ''joined network: '' @ name | None \<Rightarrow> lit ''joined network'') #
            (case host of Some host \<Rightarrow> [lit ''hostname: '' @ host @ reachable_at host zn] | None \<Rightarrow> []))
      | SaidError message \<Rightarrow> Inl (CommandFailed (lit ''join failed'') message)
      | _ \<Rightarrow> Inl UnexpectedResponse)"

definition leave_shows :: "daemon_reply \<Rightarrow> (cli_error, rstr list) result" where
  "leave_shows r =
     (case r of
        Said (RespLeft name notified) \<Rightarrow>
          Inr ((case name of
              Some name \<Rightarrow> lit ''Sucessfully left '' @ name @ lit ''.''
            | None \<Rightarrow> lit ''Not a member of any network!'') #
            (if \<not> notified
             then [lit ''NOTE: The coordinator could not be reached, so it may still list you.''] else []))
      | SaidError message \<Rightarrow> Inl (CommandFailed (lit ''Leave failed'') message)
      | _ \<Rightarrow> Inl UnexpectedResponse)"

definition kick_shows :: "daemon_reply \<Rightarrow> (cli_error, rstr list) result" where
  "kick_shows r =
     (case r of
        Said (RespKicked name i notified) \<Rightarrow>
          Inr ((lit ''kicked '' @ name @ lit '' ('' @ i @ lit '')'') #
            (if \<not> notified
             then [lit ''NOTE: '' @ name @ lit '' could not be reached, so it still thinks it is in the network. '' @
               lit ''Members refuse its links once they have the new roster.''] else []))
      | SaidError message \<Rightarrow> Inl (CommandFailed (lit ''kick failed'') message)
      | _ \<Rightarrow> Inl UnexpectedResponse)"

text \<open>
  The name asked for is lowered by Unicode's rules in the source; the daemon refuses a name that
  is not ASCII once trimmed, so ASCII's rules agree whenever this line is reached.
\<close>

definition hostname_shows :: "rstr \<Rightarrow> daemon_reply \<Rightarrow> (cli_error, rstr list) result" where
  "hostname_shows requested r =
     (case r of
        Said (RespHostnameSet host _) \<Rightarrow>
          Inr ([lit ''hostname set to '' @ host] @
            (if host \<noteq> ascii_lower requested
             then [lit ''('' @ requested @ lit '' was taken, so a suffix was added)''] else []) @
            [lit ''run `quix status` to see the full name it resolves under''])
      | SaidError message \<Rightarrow> Inl (CommandFailed (lit ''hostname failed'') message)
      | _ \<Rightarrow> Inl UnexpectedResponse)"

definition ping_shows :: "wording \<Rightarrow> daemon_reply \<Rightarrow> (cli_error, rstr list) result" where
  "ping_shows sh r =
     (case r of
        Said (RespPong v6 v4 rtt) \<Rightarrow>
          Inr [(case rtt of
              Some rtt \<Rightarrow> v6 @ lit ''  linked  rtt '' @ show_rtt sh rtt @ lit ''ms''
            | None \<Rightarrow> v6 @ lit ''  linked''),
            v4 @ lit ''  (IPv4 compatibility)'']
      | SaidError message \<Rightarrow> Inl (CommandFailed (lit ''ping failed'') message)
      | _ \<Rightarrow> Inl UnexpectedResponse)"

definition operator_shows :: "daemon_reply \<Rightarrow> (cli_error, rstr list) result" where
  "operator_shows r =
     (case r of
        Said (RespOperatorSet user uid) \<Rightarrow>
          Inr [lit ''operator set to '' @ user @ lit '' (uid '' @ decimal (unat uid) @ lit '')'']
      | SaidError message \<Rightarrow> Inl (CommandFailed (lit ''set-operator failed'') message)
      | _ \<Rightarrow> Inl UnexpectedResponse)"

definition status_shows :: "bool \<Rightarrow> daemon_reply \<Rightarrow> (cli_error, rstr list) result" where
  "status_shows verbose r =
     (case r of
        Said (RespStatus st) \<Rightarrow> Inr (status_lines verbose st)
      | SaidError message \<Rightarrow> Inl (CommandFailed (lit ''status failed'') message)
      | _ \<Rightarrow> Inl UnexpectedResponse)"

text \<open>Each of them sends its request and shows the answer.\<close>

definition one_request ::
    "'s client \<Rightarrow> request \<Rightarrow> (daemon_reply \<Rightarrow> (cli_error, rstr list) result) \<Rightarrow> 's \<Rightarrow>
     (cli_error, rstr list) result attempted \<times> 's" where
  "one_request cl req present s =
     (case send cl req s of
        (Relaunches, s) \<Rightarrow> (Relaunches, s)
      | (Goes (Inl e), s) \<Rightarrow> (Goes (Inl (NotAsked e)), s)
      | (Goes (Inr r), s) \<Rightarrow> (Goes (present r), s))"

definition invite_run ::
    "'s client \<Rightarrow> wording \<Rightarrow> (rstr \<times> rstr) option \<Rightarrow> 's \<Rightarrow> (cli_error, rstr list) result attempted \<times> 's" where
  "invite_run cl sh expires s =
     (case invite_ttl_secs expires of
        Inl e \<Rightarrow> (Goes (Inl (BadArguments e)), s)
      | Inr ttl \<Rightarrow> one_request cl (Invite (unat ttl)) (invite_shows sh ttl) s)"

lemmas cli_request_evals [evals] = create_shows_def invite_describe_def invite_shows_def reachable_at_def join_shows_def
  leave_shows_def kick_shows_def hostname_shows_def ping_shows_def operator_shows_def status_shows_def
  one_request_def invite_run_def

section \<open>Before a command runs\<close>

text \<open>Refused, run again elevated, or run; the streams redirected on the way.\<close>

datatype gate = Refuse cli_error | RelaunchFirst | Proceed "std_stream list"

definition cli_gate ::
    "bool \<Rightarrow> bool \<Rightarrow> rstr option \<Rightarrow> rstr option \<Rightarrow> (std_stream \<Rightarrow> rstr option) \<Rightarrow> cli_command \<Rightarrow> gate" where
  "cli_gate windows elevated_now elevated_output open_error stream_error c =
     (case check_args c of
        Inl e \<Rightarrow> Refuse (BadArguments e)
      | Inr _ \<Rightarrow>
      if \<not> windows then Proceed []
      else if (\<exists>user. c = CmdSetOperator user) then Refuse NoOperatorHere
      else case elevated_output of
        Some path \<Rightarrow>
          (case redirect_output open_error stream_error of
             (Inl e, _) \<Rightarrow> Refuse (NotRedirectedTo e)
           | (Inr _, streams) \<Rightarrow> Proceed streams)
      | None \<Rightarrow> if needs_elevation c \<and> \<not> elevated_now then RelaunchFirst else Proceed [])"

section \<open>Running it\<close>

text \<open>What the commands that are more than one request meet.\<close>

record 's surroundings =
  su_output :: "rstr option"
  su_open_error :: "rstr option"
  su_stream_error :: "std_stream \<Rightarrow> rstr option"
  su_shows :: wording
  su_tools :: tools
  su_now :: nat
  su_looks :: "(bool \<times> nat) list"
  su_update :: update_env
  su_sha256 :: "u8 list \<Rightarrow> u8 list"
  su_parse :: event_parse
  su_path :: "rstr \<Rightarrow> path_view"
  su_send :: send_env
  su_list :: list_env
  su_dest :: "bool \<Rightarrow> (dest_error, destination) result"
  su_terminal :: bool
  su_first :: "(list_error, incoming_offer list \<times> outgoing_offer list) result"
  su_rounds :: "list_turn list"
  su_accept :: accept_env
  su_dir :: directory

datatype ran =
    RanRequest "(cli_error, rstr list) result"
  | RanService "(service_error, rstr list) result option"
  | RanUpdate "(update_error, update_outcome) result"
  | RanSend "(send_error, unit) result"
  | RanList "(list_error, unit) result option" directory
  | RanAccept "(dest_error + accept_error, rstr) result" directory
  | RanReject "(list_error, rstr \<times> rstr) result"

text \<open>
  The files commands and the service's take nothing from the daemon's state here but a rejection:
  what it answers them is in the surroundings.
\<close>

definition cli_file :: "'s client \<Rightarrow> 's surroundings \<Rightarrow> file_action \<Rightarrow> 's \<Rightarrow> ran \<times> 's" where
  "cli_file cl su a s =
     (case a of
        FileCmdSend path target expires \<Rightarrow>
          (case send_file (le_blake3 (su_list su)) (le_platform (su_list su)) (su_parse su) expires (su_path su path)
             target (su_send su) of (res, _) \<Rightarrow> (RanSend res, s))
      | FileCmdList here \<Rightarrow>
          (case list_run (su_list su) (su_dest su here) (su_terminal su) (su_first su) (su_rounds su) (su_dir su) of
             (res, dir, _) \<Rightarrow> (RanList res dir, s))
      | FileCmdAccept i here \<Rightarrow>
          (case su_dest su here of
             Inl e \<Rightarrow> (RanAccept (Inl (Inl e)) (su_dir su), s)
           | Inr _ \<Rightarrow>
               (case accept_file (le_blake3 (su_list su)) (le_platform (su_list su)) (le_show_accept (su_list su))
                  (su_accept su) i (su_dir su) of
                  (Inl e, dir, _) \<Rightarrow> (RanAccept (Inl (Inr e)) dir, s)
                | (Inr saved, dir, _) \<Rightarrow> (RanAccept (Inr saved) dir, s)))
      | FileCmdReject i \<Rightarrow> (case reject_cmd cl i s of (res, s) \<Rightarrow> (RanReject res, s)))"

text \<open>On Windows, \<open>update\<close> asks for itself once there is something to install.\<close>

definition cli_update :: "'s client \<Rightarrow> 's surroundings \<Rightarrow> bool \<Rightarrow> bool \<Rightarrow> ran attempted" where
  "cli_update cl su check_only force =
     (case update_run (su_sha256 su) check_only force (su_update su) of
        (res, _) \<Rightarrow> if res = Inl NotPrivileged \<and> cl_windows cl then Relaunches else Goes (RanUpdate res))"

definition cli_dispatch :: "'s client \<Rightarrow> 's surroundings \<Rightarrow> cli_command \<Rightarrow> 's \<Rightarrow> ran attempted \<times> 's" where
  "cli_dispatch cl su c s =
     (let asks = (\<lambda>(att, s).
        (case att of Relaunches \<Rightarrow> Relaunches | Goes res \<Rightarrow> Goes (RanRequest res), s)) in
      case c of
        CmdCreate name host \<Rightarrow> asks (one_request cl (CreateNetwork name host) create_shows s)
      | CmdInvite expires \<Rightarrow> asks (invite_run cl (su_shows su) expires s)
      | CmdJoin code host \<Rightarrow> asks (one_request cl (Join code host) join_shows s)
      | CmdLeave \<Rightarrow> asks (one_request cl Leave leave_shows s)
      | CmdKick peer \<Rightarrow> asks (one_request cl (KickPeer peer) kick_shows s)
      | CmdHostname name force \<Rightarrow> asks (one_request cl (SetHostname name force) (hostname_shows name) s)
      | CmdFile a \<Rightarrow> (case cli_file cl su a s of (res, s) \<Rightarrow> (Goes res, s))
      | CmdPing peer \<Rightarrow> asks (one_request cl (Ping peer) (ping_shows (su_shows su)) s)
      | CmdStatus verbose \<Rightarrow> asks (one_request cl Status (status_shows verbose) s)
      | CmdSetOperator user \<Rightarrow> asks (one_request cl (SetOperator user) operator_shows s)
      | CmdService a \<Rightarrow>
          (Goes (RanService (fst (service_run (cl_windows cl) (su_tools su) (su_now su) (su_looks su) a []))), s)
      | CmdUpdate check_only force \<Rightarrow> (cli_update cl su check_only force, s)
      | CmdVersion \<Rightarrow> (Goes (RanRequest (Inr [lit ''quix '' @ version_tag (su_shows su)])), s))"

definition cli_run :: "'s client \<Rightarrow> 's surroundings \<Rightarrow> cli_command \<Rightarrow> 's \<Rightarrow> ran attempted \<times> 's" where
  "cli_run cl su c s =
     (case cli_gate (cl_windows cl) (cl_elevated cl) (su_output su) (su_open_error su) (su_stream_error su) c of
        Refuse e \<Rightarrow> (Goes (RanRequest (Inl e)), s)
      | RelaunchFirst \<Rightarrow> (Relaunches, s)
      | Proceed _ \<Rightarrow> cli_dispatch cl su c s)"

text \<open>\<open>main\<close>: what the process exits with. A command that never ends has no code.\<close>

definition exits :: "ran \<Rightarrow> int option" where
  "exits r =
     (case r of
        RanRequest res \<Rightarrow> Some (if is_ok res then 0 else 1)
      | RanService res \<Rightarrow> map_option (\<lambda>res. if is_ok res then 0 else 1) res
      | RanUpdate res \<Rightarrow> Some (if is_ok res then 0 else 1)
      | RanSend res \<Rightarrow> Some (exit_code res)
      | RanList res _ \<Rightarrow>
          map_option (\<lambda>res. case res of Inr _ \<Rightarrow> 0 | Inl (StoppedBy _) \<Rightarrow> ended_code EndedCancelled | Inl _ \<Rightarrow> 1) res
      | RanAccept res _ \<Rightarrow>
          Some (case res of Inr _ \<Rightarrow> 0 | Inl (Inr AcceptCancelled) \<Rightarrow> ended_code EndedCancelled | Inl _ \<Rightarrow> 1)
      | RanReject res \<Rightarrow> Some (if is_ok res then 0 else 1))"

lemmas cli_evals [evals] = needs_elevation_def file_check_args_def check_args_def cli_gate_def cli_file_def
  cli_update_def cli_dispatch_def cli_run_def exits_def

section \<open>Lemmas\<close>

text \<open>The request a command makes, if it is one.\<close>

definition request_of :: "cli_command \<Rightarrow> request option" where
  "request_of c =
     (case c of
        CmdCreate name host \<Rightarrow> Some (CreateNetwork name host)
      | CmdInvite expires \<Rightarrow> (case invite_ttl_secs expires of Inl _ \<Rightarrow> None | Inr ttl \<Rightarrow> Some (Invite (unat ttl)))
      | CmdJoin code host \<Rightarrow> Some (Join code host)
      | CmdLeave \<Rightarrow> Some Leave
      | CmdKick peer \<Rightarrow> Some (KickPeer peer)
      | CmdHostname name force \<Rightarrow> Some (SetHostname name force)
      | CmdPing peer \<Rightarrow> Some (Ping peer)
      | CmdStatus _ \<Rightarrow> Some Status
      | CmdSetOperator user \<Rightarrow> Some (SetOperator user)
      | CmdFile (FileCmdReject i) \<Rightarrow> Some (FileReject i)
      | _ \<Rightarrow> None)"

context server
begin

lemma one_request_carried:
  assumes "carries cl message srv req s" and "srv req s = (resp, s')"
  shows "one_request cl req present s =
    (case resp of
       RespUnauthorized m \<Rightarrow>
         if cl_windows cl \<and> \<not> cl_elevated cl then (Relaunches, s) else (Goes (Inl (NotAsked (NotAllowed m))), s)
     | _ \<Rightarrow> (Goes (present (reply_of message resp)), s'))"
  using send_carried [OF assms] by (auto simp: one_request_def split: response.splits)

lemma one_request_relaunch:
  assumes "carries cl message srv req s" and "one_request cl req present s = (Relaunches, s')"
  shows "s' = s \<and> \<not> may req s \<and> cl_windows cl \<and> \<not> cl_elevated cl"
proof -
  have "send cl req s = (Relaunches, s')"
    using assms(2) by (auto simp: one_request_def split: prod.splits attempted.splits sum.splits)
  then show ?thesis by (rule relaunch_only_refused [OF assms(1)])
qed

lemma one_request_present:
  assumes "carries cl message srv req s" and "one_request cl req present s = (Goes res, s')"
  shows "(\<exists>m. res = Inl (NotAsked (NotAllowed m))) \<or>
    (\<exists>resp. srv req s = (resp, s') \<and> fits req resp \<and> (\<forall>m. resp \<noteq> RespUnauthorized m) \<and> res = present (reply_of message resp))"
proof -
  obtain resp t where r: "srv req s = (resp, t)" by force
  then show ?thesis
    using one_request_carried [OF assms(1) r] assms(2) answers [OF r]
    by (cases "\<exists>m. resp = RespUnauthorized m") (auto split: response.splits if_splits)
qed

end

lemma gate_relaunch:
  "cli_gate windows now out open_error stream_error c = RelaunchFirst \<Longrightarrow>
   windows \<and> \<not> now \<and> (\<exists>a. c = CmdService a \<and> a \<noteq> ServiceStatus)"
  by (cases c) (auto simp: cli_gate_def needs_elevation_def split: sum.splits option.splits if_splits prod.splits)

lemma dispatch_relaunch:
  "cli_dispatch cl su c s = (Relaunches, s') \<Longrightarrow>
   (\<exists>req present. request_of c = Some req \<and> (\<forall>a. c \<noteq> CmdFile a) \<and> one_request cl req present s = (Relaunches, s')) \<or>
   (\<exists>chk force. c = CmdUpdate chk force \<and> cli_update cl su chk force = Relaunches \<and> s' = s)"
  by (cases c)
    (auto simp: cli_dispatch_def request_of_def invite_run_def Let_def split: prod.splits attempted.splits sum.splits)

lemma update_relaunch:
  "cli_update cl su check_only force = Relaunches \<Longrightarrow>
   cl_windows cl \<and> \<not> check_only \<and> ue_installed (su_update su) \<and> \<not> ue_privileged (su_update su)"
  by (auto simp: cli_update_def update_run_def plan_of_def download_verified_def verified_def install_staged_def
      check_package_def Let_def split: prod.splits if_splits sum.splits option.splits plan.splits)

text \<open>What a command makes of the answer to its request.\<close>

definition present_of :: "'s surroundings \<Rightarrow> cli_command \<Rightarrow> daemon_reply \<Rightarrow> (cli_error, rstr list) result" where
  "present_of su c =
     (case c of
        CmdCreate _ _ \<Rightarrow> create_shows
      | CmdInvite expires \<Rightarrow>
          (case invite_ttl_secs expires of Inl e \<Rightarrow> (\<lambda>_. Inl (BadArguments e)) | Inr ttl \<Rightarrow> invite_shows (su_shows su) ttl)
      | CmdJoin _ _ \<Rightarrow> join_shows
      | CmdLeave \<Rightarrow> leave_shows
      | CmdKick _ \<Rightarrow> kick_shows
      | CmdHostname name _ \<Rightarrow> hostname_shows name
      | CmdPing _ \<Rightarrow> ping_shows (su_shows su)
      | CmdStatus verbose \<Rightarrow> status_shows verbose
      | _ \<Rightarrow> operator_shows)"

lemma dispatch_request:
  "request_of c = Some req \<Longrightarrow> \<forall>a. c \<noteq> CmdFile a \<Longrightarrow>
   cli_dispatch cl su c s =
     (case one_request cl req (present_of su c) s of
        (Relaunches, s) \<Rightarrow> (Relaunches, s) | (Goes res, s) \<Rightarrow> (Goes (RanRequest res), s))"
  by (cases c)
    (auto simp: cli_dispatch_def request_of_def present_of_def invite_run_def Let_def split: prod.splits attempted.splits sum.splits)

lemma present_fits:
  assumes "request_of c = Some req" and "\<forall>a. c \<noteq> CmdFile a" and "fits req resp" and "\<forall>m. resp \<noteq> RespUnauthorized m"
  shows "present_of su c (reply_of message resp) \<noteq> Inl UnexpectedResponse"
  using assms
  by (cases c; cases resp)
    (auto simp: request_of_def present_of_def fits_def reply_of_def create_shows_def invite_shows_def join_shows_def
      leave_shows_def kick_shows_def hostname_shows_def ping_shows_def status_shows_def operator_shows_def
      split: sum.splits)

text \<open>A command that makes no request never gets an answer at all.\<close>

lemma dispatch_other:
  "request_of c = None \<Longrightarrow> cli_dispatch cl su c s = (Goes (RanRequest res), s') \<Longrightarrow>
   s' = s \<and> (c = CmdVersion \<and> res = Inr [lit ''quix '' @ version_tag (su_shows su)] \<or> (\<exists>e. res = Inl (BadArguments e)))"
  by (cases c)
    (auto simp: cli_dispatch_def request_of_def invite_run_def cli_update_def Let_def cli_file_def
      split: prod.splits sum.splits file_action.splits if_splits)

lemma dispatch_file: "cli_dispatch cl su (CmdFile a) s = (Goes res, s') \<Longrightarrow> cli_file cl su a s = (res, s')"
  by (simp add: cli_dispatch_def split: prod.splits)

lemma dispatch_answered:
  fixes cl :: "node client"
  assumes "\<And>req. request_of c = Some req \<Longrightarrow> carries cl message (serve x ie creds) req n"
    and "cli_dispatch cl su c n = (Goes (RanRequest res), n')"
  obtains m where "res = Inl (NotAsked (NotAllowed m))"
  | req resp where "request_of c = Some req" "serve x ie creds req n = (resp, n')" "fits req resp"
      "\<forall>m. resp \<noteq> RespUnauthorized m" "res = present_of su c (reply_of message resp)" "\<forall>a. c \<noteq> CmdFile a"
  | e where "res = Inl (BadArguments e)"
  | "res = Inr [lit ''quix '' @ version_tag (su_shows su)]" "c = CmdVersion" "n' = n"
proof (cases "\<exists>a. c = CmdFile a")
  case True
  then show thesis
    using assms(2) by (auto simp: cli_file_def dest!: dispatch_file split: file_action.splits prod.splits sum.splits)
next
  case nofile: False
  show thesis
  proof (cases "request_of c")
    case None
    then show thesis
      using dispatch_other [OF None assms(2)] that(3,4) by blast
  next
    case (Some req)
    have "one_request cl req (present_of su c) n = (Goes res, n')"
      using assms(2) dispatch_request [OF Some, of cl su n] nofile by (auto split: prod.splits attempted.splits)
    then show thesis
      using node_server.one_request_present [OF assms(1) [OF Some]] that(1,2) Some nofile by blast
  qed
qed

lemma reject_answered:
  fixes cl :: "node client"
  assumes "carries cl message (serve x ie creds) (FileReject i) n"
  shows "fst (reject_cmd cl i n) \<noteq> Inl UnexpectedAnswer"
proof -
  obtain resp n' where r: "serve x ie creds (FileReject i) n = (resp, n')" by force
  show ?thesis
    using node_server.ask_carried [OF assms] serve_fits [OF r] r
    by (cases resp) (auto simp: reject_cmd_def send_as_caller_def unauthorized_def reply_of_def fits_def)
qed

lemma own_save_then_refresh [simp]: "own_str x (fst (snd (save_then_refresh x e a n))) = own_str x n"
  by (simp add: save_then_refresh_def frame_simps split: prod.split)

text \<open>What an answer that is no error says of the node it leaves.\<close>

lemma saved_membership: "save_then_refresh x e a n = (Inr b, n', fx) \<Longrightarrow> n_membership n' = n_membership n \<and> n_own n' = n_own n \<and> b = a"
  using refresh_frame(1,2) [of x "e_tool e" n] by (auto simp: save_then_refresh_def split: if_splits prod.splits)

lemma created_network:
  "serve x ie creds (CreateNetwork name host) n = (RespOk s, n') \<Longrightarrow>
   state_is_coordinator x n' \<and> (\<exists>w. validate_network name = Inr w \<and> network_name (n_membership n') = Some w)"
  by (auto simp: serve_cases ipc_dispatch_def is_transfer_def create_network_def state_create_network_def
      state_is_coordinator_def is_coordinator_def create_def bind_def Let_def
      dest!: saved_membership split: sum.splits prod.splits option.splits if_splits)

lemma left_network:
  "serve x ie creds Leave n = (RespLeft name notified, n') \<Longrightarrow>
   coordinator_id (n_membership n') = None \<and> network_name (n_membership n') = None \<and> members (n_membership n') = []"
  by (auto simp: serve_cases ipc_dispatch_def is_transfer_def ipc_leave_def state_leave_def leave_def Let_def
      dest!: saved_membership split: sum.splits prod.splits option.splits if_splits)

lemma kicked_member:
  "serve x ie creds (KickPeer peer) n = (RespKicked name i notified, n') \<Longrightarrow>
   state_is_coordinator x n \<and> \<not> is_member (n_membership n') i \<and>
   (\<exists>p. find_member x (n_membership n) peer = Some p \<and> mid p = i)"
  by (auto simp: serve_cases ipc_dispatch_def is_transfer_def ipc_kick_def state_kick_def kick_def remove_member_def
      is_member_iff Let_def dest!: saved_membership split: sum.splits prod.splits option.splits if_splits)

lemma joined_frame:
  "coordinator_id (set_joined c own nm ps m) = Some c" "network_name (set_joined c own nm ps m) = nm"
  using apply_roster_frame by (simp_all add: set_joined_def)

lemma joined_network:
  "serve x ie creds (Join code host) n = (RespJoined name h zn, n') \<Longrightarrow>
   coordinator_id (n_membership n') \<noteq> None \<and> network_name (n_membership n') = name"
  by (auto simp: serve_cases ipc_dispatch_def is_transfer_def ipc_join_def state_set_joined_def joined_frame Let_def
      dest!: saved_membership split: sum.splits prod.splits option.splits if_splits)

lemma operator_was_set:
  "serve x ie creds (SetOperator user) n = (RespOperatorSet u uid, n') \<Longrightarrow> operator_uid (n_settings n') = Some uid"
  by (auto simp: serve_cases ipc_dispatch_def is_transfer_def ipc_set_operator_def state_set_operator_def set_operator_def
      Let_def split: sum.splits prod.splits if_splits)

lemma invited:
  "serve x ie creds (Invite ttl) n = (RespInvite code expires, n') \<Longrightarrow>
   state_is_coordinator x n \<and>
   (\<exists>tok inv. map_of (pending_invites (n_membership n')) tok = Some inv \<and> inv_expires_at inv = expires)"
  by (auto simp: serve_cases ipc_dispatch_def is_transfer_def ipc_invite_def state_generate_invite_def generate_invite_def
      Let_def update_conv split: sum.splits prod.splits if_splits)

lemma only_asked:
  "is_read_only req \<Longrightarrow> snd (serve x ie creds req n) = n"
  using read_only_dispatch [of req x ie n] by (auto simp: serve_cases authorize_def read_only_not_transfer split: prod.splits)

text \<open>
  The daemon trims a name before it assigns it and the command compares without trimming, so a
  name given with a space around it is said to have been taken.
\<close>

lemma padded_name_looks_taken:
  "validate (lit ''nas '') (lit ''0'') = Inr (lit ''nas'')"
  "hostname_shows (lit ''nas '') (Said (RespHostnameSet (lit ''nas'') (lit ''nas ''))) =
     Inr [lit ''hostname set to nas'', lit ''(nas  was taken, so a suffix was added)'',
       lit ''run `quix status` to see the full name it resolves under'']"
  by (simp_all add: evals)

section \<open>Properties\<close>




section \<open>Witnesses\<close>

text \<open>A connection to a node whose JSON names one request and its answer.\<close>

definition demo_client :: "request \<Rightarrow> credentials \<Rightarrow> node \<Rightarrow> node client" where
  "demo_client req creds n =
     \<lparr>cl_windows = True, cl_elevated = False, cl_connect_error = None, cl_encode = \<lambda>_. lit ''q'',
      cl_decode = \<lambda>_. Some (reply_of (\<lambda>_. []) (fst (serve plain_externs demo_ipc creds req n))),
      cl_exchange = node_exchange plain_externs (\<lambda>_. Some req) (\<lambda>_. lit ''r'') (\<lambda>_. []) demo_ipc creds\<rparr>"

lemma demo_carries:
  "\<not> is_transfer req \<Longrightarrow> carries (demo_client req creds n) (\<lambda>_. []) (serve plain_externs demo_ipc creds) req n"
  by (rule node_carries [where json = "\<lambda>_. Some req" and to_json = "\<lambda>_. lit ''r''"]) (simp_all add: demo_client_def)

definition demo_send_env :: send_env where
  "demo_send_env = \<lparr>sv_response = FileOffered, sv_answer = None,
     sv_stream = \<lparr>se_reads = [], se_hash_written = True, se_end_written = True, se_after = Inr End\<rparr>,
     sv_cut = None, sv_outcome = None\<rparr>"

definition demo_surroundings :: "node surroundings" where
  "demo_surroundings =
     \<lparr>su_output = None, su_open_error = None, su_stream_error = \<lambda>_. None,
      su_shows = \<lparr>version_tag = lit ''v1.0'', show_time = \<lambda>_. [], show_rtt = \<lambda>_. []\<rparr>,
      su_tools = demo_systemd, su_now = 0, su_looks = [], su_update = demo_update\<lparr>ue_privileged := False\<rparr>,
      su_sha256 = demo_sha, su_parse = \<lambda>_. None,
      su_path = \<lambda>_. \<lparr>pv_metadata = Inr False, pv_open = None, pv_opened = Inr (True, 3), pv_file_name = Some (Some (lit ''f''))\<rparr>,
      su_send = demo_send_env,
      su_list = \<lparr>le_blake3 = demo_hash, le_platform = Unix, le_show_accept = \<lambda>_. [], le_show_list = \<lambda>_. [], le_path = \<lambda>p. p\<rparr>,
      su_dest = \<lambda>_. Inr \<lparr>dest_dir = lit ''/tmp'', dest_note = None\<rparr>, su_terminal = False, su_first = Inr ([], []),
      su_rounds = [], su_accept = demo_accept, su_dir = Map.empty\<rparr>"

abbreviation demo_cli_node :: node where
  "demo_cli_node \<equiv> new_node (demo_key 1) default_membership default_settings"

definition demo_stranger :: credentials where
  "demo_stranger = WindowsPeer (Some (lit ''S-1-5-21'', None, False))"

definition demo_admin :: credentials where
  "demo_admin = WindowsPeer (Some (lit ''S-1-5-21'', None, True))"

lemma demo_proceeds:
  "cli_run (demo_client req creds n) demo_surroundings CmdLeave n =
     cli_dispatch (demo_client req creds n) demo_surroundings CmdLeave n"
  by (simp add: cli_run_def cli_gate_def check_args_def needs_elevation_def demo_client_def demo_surroundings_def)

lemma demo_leaves:
  "serve plain_externs demo_ipc demo_stranger Leave demo_cli_node =
     (RespUnauthorized (denial witness_accounts (caller_of demo_stranger)), demo_cli_node)"
  "\<exists>n'. serve plain_externs demo_ipc demo_admin Leave demo_cli_node = (RespLeft None False, n')"
  by (auto simp: serve_cases authorize_def is_read_only_def is_superuser_def is_operator_def caller_of_def demo_stranger_def
      demo_admin_def demo_ipc_def state_operator_def operator_of_def new_node_def default_settings_def is_transfer_def
      ipc_dispatch_def ipc_leave_def default_membership_def state_leave_def Let_def demo_env_def save_then_refresh_def
      split: prod.split)




text \<open>
  The output flag marks a run as elevated only before the command: a refusal by the daemon looks
  at the token alone, so a run with the flag that is not elevated asks all the same.
\<close>

lemma output_flag_still_prompts:
  "cli_run (demo_client Leave demo_stranger demo_cli_node) (demo_surroundings\<lparr>su_output := Some (lit ''o'')\<rparr>) CmdLeave
     demo_cli_node = (Relaunches, demo_cli_node)"
proof -
  let ?cl = "demo_client Leave demo_stranger demo_cli_node" and ?su = "demo_surroundings\<lparr>su_output := Some (lit ''o'')\<rparr>"
  have carried: "carries ?cl (\<lambda>_. []) (serve plain_externs demo_ipc demo_stranger) Leave demo_cli_node"
    by (rule demo_carries) (simp add: is_transfer_def)
  have "one_request ?cl Leave leave_shows demo_cli_node = (Relaunches, demo_cli_node)"
    using node_server.one_request_carried [OF carried demo_leaves(1)] by (simp add: demo_client_def)
  then show ?thesis
    by (simp add: cli_run_def cli_gate_def check_args_def redirect_output_def demo_client_def demo_surroundings_def cli_dispatch_def)
qed

end
