(* ===== verification/Spec2Isabelle.thy ===== *)
theory Spec2Isabelle
  imports Exchange Network Storage Zone_Rules Sockets Delivery Endings Frame_Reader Cli
begin

text \<open>
  A model of quix, a mesh VPN: a daemon \<open>quixd\<close> on every node (\<open>daemon/src\<close>), a command line
  client \<open>quix\<close> that talks to it over a local socket (\<open>cli/src\<close>), and what the two share
  (\<open>proto/src\<close>). One node of a network, the coordinator, keeps the roster: it mints invites,
  admits whoever redeems one, assigns hostnames and pushes the roster to every member. Each node
  derives the overlay addresses of the members from their keys, routes packets read from its TUN
  device to the member that owns the destination, answers DNS queries for the members' names
  under \<open>.quix\<close>, and relays file transfers between members.

  Theories, in the order of the dependencies.

  \<^item> \<open>Prelude\<close>: results, the collections \<open>evals\<close> and \<open>frame_simps\<close>, association lists, and the
    interfaces: \<open>safe_machine\<close> (operations that keep an invariant, over any run of them),
    \<open>roster_bound\<close> (a table that only holds what belongs to the roster), \<open>codec\<close> and
    \<open>stream_codec\<close> (what is written is read back, alone and one after another).
  \<^item> \<open>Rust_Str\<close>: Rust's strings as lists of scalar values, with the UTF-8 length, trimming,
    splitting, ASCII case, number parsing and printing the program uses.
  \<^item> \<open>Names\<close> (\<open>names.rs\<close>), \<open>Addr\<close> (endpoint ids, IP addresses, \<open>tun.rs\<close>), \<open>Ip_Text\<close> (the text of
    an address), \<open>Proto\<close> (\<open>proto/src/lib.rs\<close>).
  \<^item> \<open>Membership\<close> (\<open>membership.rs\<close>): roster, bindings and invites. The invariant \<open>roster_inv\<close> is
    kept by every operation (\<open>roster_machine\<close>); the lemmas say what a claim, an admission, a push
    and a kick do; runs of operations show that an invite admits at most once.
  \<^item> \<open>Peers\<close> (\<open>peers.rs\<close>): routes and links. \<open>Mesh\<close> (\<open>mesh.rs\<close>, \<open>stats.rs\<close>): the packet counters,
    the reader of the device, the link task and the dialer, cut at their awaits.
  \<^item> \<open>Routes\<close> (\<open>routes.rs\<close>): the commands that change the system's table and their
    reconciliation, over any history of runs, failures included (\<open>route_machine\<close>).
  \<^item> \<open>Authz\<close> (\<open>authz.rs\<close>, \<open>settings.rs\<close>): who may run what.
  \<^item> \<open>Files\<close> (\<open>files/mod.rs\<close>): the registry of offers and its invariant (\<open>files_machine\<close>).
    \<open>Frame\<close> and \<open>Filename\<close> (\<open>proto/src\<close>): the framing of a transfer, which meets \<open>stream_codec\<close>,
    and the names a file may be saved under. \<open>File_Transfer\<close> (\<open>files/transfer.rs\<close>): the two
    relays as machines over the events they await. \<open>Frame_Reader\<close>: the task that reads frames
    ahead, step by step against its consumer; the locale \<open>implements\<close> gives the queue the relays
    work with. \<open>Endings\<close>: why a connection ended, as each side reports it.
  \<^item> \<open>Node\<close> (\<open>state.rs\<close>): all of a node's state in one record, every operation of \<open>State\<close>, and the
    refinement: after any run of operations the routes, links, host routes and offers are those
    of the roster (\<open>node_machine\<close>).
  \<^item> \<open>Admin\<close> (\<open>admin.rs\<close>, \<open>connect.rs\<close>): what other nodes ask of this one and it of them. \<open>Ipc\<close>
    (\<open>ipc.rs\<close>): what the local client asks. \<open>Joining\<close>: two nodes together, from the invite to the
    roster of both. \<open>Exchange\<close>: one exchange step by step, cut off anywhere, and a join that is
    repeated. \<open>Network\<close>: a coordinator and a member over time, with the pushes between them in
    any order. \<open>Dns\<close> (\<open>dns.rs\<close>): the resolver. \<open>Registration\<close> (\<open>registration.rs\<close>): when the zone is
    claimed and handed back; \<open>Zone_Rules\<close> (\<open>resolv.rs\<close>): what that does to the system, rule by
    rule. \<open>Sockets\<close>: the listener of \<open>ipc.rs\<close> and the two of \<open>dns.rs\<close>, with their loops.
  \<^item> \<open>Expiry\<close> (\<open>cli/src/commands/expiry.rs\<close>), \<open>Cli_Send\<close> (\<open>file/send.rs\<close>) and \<open>Cli_Receive\<close>
    (\<open>file/receive.rs\<close>, \<open>dest.rs\<close>, \<open>space.rs\<close>): the client's side of invites and transfers, over a
    directory that maps names to contents. \<open>Delivery\<close>: client and daemons together, a file from
    one user's disk to the other's. \<open>Update\<close> (\<open>update.rs\<close>, \<open>proto/build.rs\<close>): replacing the
    installation, and the version a build takes itself for.
  \<^item> \<open>Wide\<close>: strings in UTF-16, as Windows takes and gives them. \<open>Win_Security\<close> (\<open>winauth.rs\<close>,
    \<open>winacl.rs\<close>): who is on the other end of a pipe, and the access list of a locked file, read back
    by a parser of its language. \<open>Identity\<close> (\<open>identity.rs\<close>): the key file over any number of
    starts. \<open>Daemon\<close> (\<open>args.rs\<close>, \<open>log.rs\<close>, \<open>main.rs\<close>, \<open>service.rs\<close>, the device of \<open>tun.rs\<close>): the
    process from its command line to its end, as a trace of what it brings up and down. \<open>Storage\<close>:
    what the roster and the settings look like on disk, and a daemon started on what it saved.
  \<^item> \<open>Elevation\<close> (\<open>cli/src/elevate.rs\<close>): quoting a command line and running it again as
    Administrator. \<open>Service\<close> (\<open>service_manager.rs\<close>, \<open>commands/service.rs\<close>): the service of systemd
    or Windows, whose tools answer by the history of what was run. \<open>Client\<close>
    (\<open>commands/client.rs\<close>): asking the daemon; the locale \<open>server\<close> states what the client relies on,
    a refusal that changes nothing and answers that fit, and is interpreted on the daemon's own
    handler of \<open>Ipc\<close>. \<open>Cli_Status\<close> (\<open>status.rs\<close>), \<open>File_List\<close> (\<open>file/format.rs\<close>, \<open>file/list.rs\<close>):
    what is shown, and the interactive list. \<open>Cli\<close> (\<open>commands/mod.rs\<close>, the commands of one request,
    the CLI's \<open>main.rs\<close>): every command from its checks over the prompt to its exit code, against
    the daemon's handler.

  Conventions. A type of the source has the model's type of the same name; a field of a hash map
  is a map or an association list, where the order stands for the iteration order. Integers keep
  their width where they could wrap (\<open>u64\<close> counters and byte counts, \<open>u32\<close> retries and uids,
  address octets); lengths and instants are \<open>nat\<close> or \<open>int\<close>. An error is a constructor that says
  which refusal of the source it is, instead of its text. Random draws, clocks, the outcome of
  running a program, of saving a file or of an exchange with another node are arguments.
  Third-party code is a parameter too: the key type, hashes and encodings are the fields of
  \<open>externs\<close>, and a property that relies on one names what it relies on as a hypothesis.

  Steps. An operation that holds one lock from end to end is one step. \<open>refresh_routes\<close> reads the
  roster under one lock and applies it under others: it is one step in the runs of \<open>Node\<close>, and
  also given in its two halves, which \<open>stale_refresh_restores_member\<close> interleaves. The link task
  and the transfer relays are cut at every await. An administrative handler and a local command
  are one step each; the roster pushes they spawn are values they return.

  Bounds. The suffix search runs through its 9999 candidates as a recursion over the list of
  them, so it needs no fuel; a property about the name it finds assumes that fewer names are
  taken (\<open>room\<close>). The retry loop of \<open>Registration\<close> has no end in the source: it is a recursion over
  the rounds it went through, its result \<open>None\<close> while it still goes on, and the theorems say for
  which rounds it ends and how. A frame reader is at most four frames ahead (\<open>READ_AHEAD\<close>), as its
  channel is; a message of the admin protocol is read up to \<open>READ_LIMIT\<close> bytes. Waiting for the daemon's socket, and the interactive list, are
  recursions over the looks taken and the turns of the user in the same way.

  Not modelled. JSON (serde), the DNS wire format (simple_dns), the command line parser (clap), the
  transport and its handshakes (iroh), the system calls under file and socket I/O, whose answers are
  inputs; installing signal handlers and the runtime;
  \<open>handler.rs\<close>, which is one call of \<open>serve_link\<close>; the help texts. What the client prints while a
  transfer runs is modelled as its progress lines only. The commands that transfer files take the
  daemon's answers as inputs, as \<open>Delivery\<close> is where both ends are put together.
\<close>

end
